(* ===== verification/Prelude.thy ===== *)
theory Prelude
  imports Main
begin

text \<open>
  Prelude of the verification library: the error values every component returns, the
  Go string functions on byte strings that more than one component uses, and the
  collections of simplification rules the component proofs share.

  A Go \<^verbatim>\<open>string\<close> is a sequence of bytes; it is modelled by Isabelle's
  \<^typ>\<open>string\<close>, whose characters are exactly the 256 bytes. Functions of the Go package
  \<^verbatim>\<open>strings\<close> that look at bytes only are here; those that decode UTF-8 are in the
  theory \<open>GoText\<close>.
\<close>

named_theorems go_strings "equations of the Go string functions"
named_theorems outcome "how each branch of an operation is taken"

section \<open>Errors\<close>

text \<open>
  The error constructors of \<^verbatim>\<open>github.com/gravitational/trace\<close> that the code uses. An
  error is its kind and its message format; \<^verbatim>\<open>trace.Wrap\<close> adds a stack trace and no
  information a caller of the modelled functions looks at, so it is the identity.
  Operations return \<open>err + 'a\<close>, with \<open>Inl\<close> for the error.
\<close>

datatype err_kind =
    BadParameter | AccessDenied | NotFound | AlreadyExists | CompareFailed | NotImplemented
  | OtherError

datatype err = Err (err_kind: err_kind) (err_msg: string)

type_synonym 'a result = "err + 'a"

definition is_err :: "'a result \<Rightarrow> bool" where
  "is_err r = (case r of Inl _ \<Rightarrow> True | Inr _ \<Rightarrow> False)"

definition check :: "bool \<Rightarrow> err \<Rightarrow> 'a result \<Rightarrow> 'a result" where
  "check ok e k = (if ok then k else Inl e)"

lemma is_err_simps [simp]: "is_err (Inl e)" "\<not> is_err (Inr x)"
  by (simp_all add: is_err_def)

lemma check_Inr [outcome]: "check ok e k = Inr x \<longleftrightarrow> ok \<and> k = Inr x"
  by (simp add: check_def)

lemma check_simps [simp]: "check True e k = k" "check False e k = Inl e"
  by (simp_all add: check_def)

lemma case_sum_Inr_iff [outcome]:
  "(case r of Inl e \<Rightarrow> Inl e | Inr y \<Rightarrow> k y) = Inr x \<longleftrightarrow> (\<exists>y. r = Inr y \<and> k y = Inr x)"
  by (cases r) auto

section \<open>Time\<close>

text \<open>A \<^verbatim>\<open>time.Time\<close> and a \<^verbatim>\<open>time.Duration\<close> are integers in nanoseconds; \<^verbatim>\<open>Unix()\<close> is the floor
  of the time in seconds.\<close>

definition second :: int where
  "second = 1000000000"

definition unix :: "int \<Rightarrow> int" where
  "unix t = t div second"

lemma unix_mono: "s \<le> t \<Longrightarrow> unix s \<le> unix t"
  by (simp add: unix_def second_def zdiv_mono1)

section \<open>Byte-level functions of the package strings\<close>

definition starts_with :: "string \<Rightarrow> string \<Rightarrow> bool" where
  "starts_with p s \<longleftrightarrow> take (length p) s = p"

definition ends_with :: "string \<Rightarrow> string \<Rightarrow> bool" where
  "ends_with p s \<longleftrightarrow> starts_with (rev p) (rev s)"

fun contains_sub :: "string \<Rightarrow> string \<Rightarrow> bool" where
  "contains_sub p [] \<longleftrightarrow> p = []"
| "contains_sub p (c # s) \<longleftrightarrow> starts_with p (c # s) \<or> contains_sub p s"

definition trim_suffix :: "string \<Rightarrow> string \<Rightarrow> string" where
  "trim_suffix p s = (if ends_with p s then take (length s - length p) s else s)"

definition contains_any :: "string \<Rightarrow> string \<Rightarrow> bool" where
  "contains_any cs s \<longleftrightarrow> list_ex (\<lambda>c. c \<in> set cs) s"

text \<open>\<^verbatim>\<open>strings.Cut(s, sep)\<close> for a one-byte separator: before, after, found.\<close>

definition cut :: "char \<Rightarrow> string \<Rightarrow> string \<times> string \<times> bool" where
  "cut c s = (takeWhile (\<lambda>x. x \<noteq> c) s, drop 1 (dropWhile (\<lambda>x. x \<noteq> c) s), c \<in> set s)"

text \<open>\<^verbatim>\<open>strings.Split(s, sep)\<close> for a one-byte separator; \<^verbatim>\<open>strings.Join\<close> is its inverse.\<close>

fun split_on :: "char \<Rightarrow> string \<Rightarrow> string list" where
  "split_on c [] = [[]]"
| "split_on c (x # s) =
     (if x = c then [] # split_on c s
      else case split_on c s of [] \<Rightarrow> [[x]] | w # ws \<Rightarrow> (x # w) # ws)"

fun join_with :: "string \<Rightarrow> string list \<Rightarrow> string" where
  "join_with sep [] = []"
| "join_with sep [w] = w"
| "join_with sep (w # ws) = w @ sep @ join_with sep ws"

lemma starts_with_iff [go_strings]: "starts_with p s \<longleftrightarrow> (\<exists>t. s = p @ t)"
proof
  assume "starts_with p s"
  then have "s = p @ drop (length p) s"
    unfolding starts_with_def by (metis append_take_drop_id)
  then show "\<exists>t. s = p @ t" ..
qed (auto simp: starts_with_def)

lemma ends_with_iff [go_strings]: "ends_with p s \<longleftrightarrow> (\<exists>t. s = t @ p)"
proof -
  have "ends_with p s \<longleftrightarrow> (\<exists>t. rev s = rev p @ t)"
    by (simp add: ends_with_def starts_with_iff)
  also have "\<dots> \<longleftrightarrow> (\<exists>t. s = t @ p)"
    by (metis rev_append rev_rev_ident)
  finally show ?thesis .
qed

lemma starts_with_char [simp]: "starts_with [c] (x # s) \<longleftrightarrow> x = c"
  by (simp add: starts_with_def)

lemma contains_sub_char [simp]: "contains_sub [c] s \<longleftrightarrow> c \<in> set s"
  by (induction s) auto

lemma cut_append [simp]:
  "c \<notin> set a \<Longrightarrow> cut c (a @ c # b) = (a, b, True)"
  by (induction a) (auto simp: cut_def)

lemma cut_found:
  assumes "c \<in> set s" and "cut c s = (a, b, f)"
  shows "s = a @ c # b" and "c \<notin> set a" and "f"
proof -
  from split_list_first [OF assms(1)] obtain u v where "s = u @ c # v" "c \<notin> set u" by blast
  with assms(2) show "s = a @ c # b" "c \<notin> set a" "f" by auto
qed

lemma split_on_nonempty [simp]: "split_on c s \<noteq> []"
  by (induction s) (auto split: list.splits)

lemma join_split_on [simp]: "join_with [c] (split_on c s) = s"
proof (induction s)
  case (Cons x s)
  obtain w ws where "split_on c s = w # ws" by (meson neq_Nil_conv split_on_nonempty)
  with Cons show ?case by (cases ws) auto
qed simp

lemma split_on_no_sep: "w \<in> set (split_on c s) \<Longrightarrow> c \<notin> set w"
proof (induction s arbitrary: w)
  case (Cons x s)
  then show ?case
    by (cases "split_on c s") (auto split: if_splits)
qed simp

lemma split_on_chars: "w \<in> set (split_on c s) \<Longrightarrow> set w \<subseteq> set s"
proof (induction s arbitrary: w)
  case (Cons x s)
  then show ?case
    by (cases "split_on c s") (fastforce split: if_splits)+
qed simp

lemma count_list_one_cut:
  assumes "count_list s c = 1" and "cut c s = (a, b, f)"
  shows "s = a @ c # b" and "c \<notin> set a" and "c \<notin> set b"
proof -
  from assms(1) have c: "c \<in> set s" by (metis count_notin zero_neq_one)
  from cut_found [OF c assms(2)] show s: "s = a @ c # b" and a: "c \<notin> set a" by auto
  from assms(1) s a have "count_list b c = 0" by simp
  then show "c \<notin> set b" by (simp add: count_list_0_iff)
qed

section \<open>Lists\<close>

text \<open>Appending an element unless it is there: the loop body behind Go's
  \<^verbatim>\<open>if !slices.Contains(out, x) { out = append(out, x) }\<close>.\<close>

definition append_new :: "'a list \<Rightarrow> 'a \<Rightarrow> 'a list" where
  "append_new xs x = (if x \<in> set xs then xs else xs @ [x])"

lemma set_append_new [simp]: "set (append_new xs x) = insert x (set xs)"
  by (auto simp: append_new_def)

lemma distinct_append_new [simp]: "distinct (append_new xs x) = distinct xs"
  by (auto simp: append_new_def)

lemma append_new_not_Nil [simp]: "append_new xs x \<noteq> []"
  by (auto simp: append_new_def)

text \<open>\<^verbatim>\<open>apiutils.Deduplicate\<close>: the first occurrence of each element, in order.\<close>

definition deduplicate :: "'a list \<Rightarrow> 'a list" where
  "deduplicate xs = fold (\<lambda>x acc. append_new acc x) xs []"

lemma fold_append_new_set:
  "set (fold (\<lambda>x acc. append_new acc x) xs acc) = set acc \<union> set xs"
  by (induction xs arbitrary: acc) auto

lemma fold_append_new_distinct:
  "distinct (fold (\<lambda>x acc. append_new acc x) xs acc) = distinct acc"
  by (induction xs arbitrary: acc) auto

lemma set_deduplicate [simp]: "set (deduplicate xs) = set xs"
  by (simp add: deduplicate_def fold_append_new_set)

lemma distinct_deduplicate [simp]: "distinct (deduplicate xs)"
  by (simp add: deduplicate_def fold_append_new_distinct)

end
