(* ===== verification/AccessRules.thy ===== *)
theory AccessRules
  imports Prelude "HOL-Library.Multiset"
begin

text \<open>
  Role-based access to resources: the rules of \<^verbatim>\<open>api/types/role.go\<close>, rule sets and the access check of
  \<^verbatim>\<open>lib/services/role.go\<close>, and the delegation sessions of \<^verbatim>\<open>lib/services/access_checker.go\<close>.

  The expressions of rules are read by the predicate library, which is a parameter: for the context of a
  check it gives the value of a \<^verbatim>\<open>where\<close> expression and the error of an action. \<^verbatim>\<open>sort.Slice\<close> promises an
  order and not which of two equal elements comes first, so it is a parameter too, with the locale
  \<open>rule_sorter\<close> for what it promises.
\<close>

section \<open>Rules (api/types/role.go)\<close>

definition wildcard :: string where "wildcard = ''*''"
definition verb_list :: string where "verb_list = ''list''"
definition verb_create :: string where "verb_create = ''create''"
definition verb_read :: string where "verb_read = ''read''"
definition verb_read_no_secrets :: string where "verb_read_no_secrets = ''readnosecrets''"
definition verb_update :: string where "verb_update = ''update''"
definition verb_delete :: string where "verb_delete = ''delete''"
definition kind_oidc :: string where "kind_oidc = ''oidc''"
definition kind_oidc_request :: string where "kind_oidc_request = ''oidc_request''"
definition kind_auth_connector :: string where "kind_auth_connector = ''auth_connector''"
definition kind_session :: string where "kind_session = ''session''"

record rule =
  ru_resources :: "string list"
  ru_verbs :: "string list"
  ru_where :: string
  ru_actions :: "string list"

definition has_verb :: "rule \<Rightarrow> string \<Rightarrow> bool" where
  "has_verb r verb \<longleftrightarrow>
     list_ex (\<lambda>v. if verb = verb_read_no_secrets then v = verb_read_no_secrets \<or> v = verb_read else v = verb) (ru_verbs r)"

record role =
  rl_name :: string
  rl_allow_namespaces :: "string list"
  rl_allow_rules :: "rule list"
  rl_deny_namespaces :: "string list"
  rl_deny_rules :: "rule list"

definition api_namespace :: string where "api_namespace = ''default''"

definition process_namespace :: "string \<Rightarrow> string" where
  "process_namespace ns = (if ns = [] then api_namespace else ns)"

definition match_namespace :: "string list \<Rightarrow> string \<Rightarrow> bool" where
  "match_namespace selectors ns \<longleftrightarrow> list_ex (\<lambda>n. n = ns \<or> n = wildcard) selectors"

section \<open>Rule sets (lib/services/role.go)\<close>

definition rule_score :: "rule \<Rightarrow> int" where
  "rule_score r =
     (if wildcard \<in> set (ru_resources r) then -4 else if length (ru_resources r) = 1 then 2 else 0)
     + (if wildcard \<in> set (ru_verbs r) then -2 else 0)
     + (if ru_where r \<noteq> [] then 8 else 0)
     + (if ru_actions r \<noteq> [] then 8 else 0)"

definition compare_rule_score :: "rule \<Rightarrow> rule \<Rightarrow> bool" where
  "compare_rule_score r q \<longleftrightarrow> rule_score r > rule_score q"

record rule_env =
  re_sort :: "rule list \<Rightarrow> rule list"
  re_where_parser_err :: "err option"
  re_actions_parser_err :: "err option"
  re_where :: "bool \<Rightarrow> string \<Rightarrow> bool result"
  re_action :: "string \<Rightarrow> err option"

type_synonym rule_set = "string \<Rightarrow> rule list"

definition make_rule_set :: "rule_env \<Rightarrow> rule list \<Rightarrow> rule_set" where
  "make_rule_set E rules resource =
     re_sort E (concat (map (\<lambda>rule. replicate (count_list (ru_resources rule) resource) rule) rules))"

definition matches_where :: "rule_env \<Rightarrow> bool \<Rightarrow> rule \<Rightarrow> bool result" where
  "matches_where E can_view r = (if ru_where r = [] then Inr True else re_where E can_view (ru_where r))"

fun process_actions :: "rule_env \<Rightarrow> string list \<Rightarrow> err option" where
  "process_actions E [] = None"
| "process_actions E (a # as) = (case re_action E a of Some e \<Rightarrow> Some e | None \<Rightarrow> process_actions E as)"

fun match_rules :: "rule_env \<Rightarrow> bool \<Rightarrow> string \<Rightarrow> rule list \<Rightarrow> bool result" where
  "match_rules E can_view verb [] = Inr False"
| "match_rules E can_view verb (r # rs) =
     (case matches_where E can_view r of
        Inl e \<Rightarrow> Inl e
      | Inr m \<Rightarrow>
          if m \<and> (has_verb r wildcard \<or> has_verb r verb)
          then (case process_actions E (ru_actions r) of Some e \<Rightarrow> Inl e | None \<Rightarrow> Inr True)
          else match_rules E can_view verb rs)"

definition match_rule_set :: "rule_env \<Rightarrow> bool \<Rightarrow> rule_set \<Rightarrow> string \<Rightarrow> string \<Rightarrow> bool result" where
  "match_rule_set E can_view s resource verb =
     (case match_rules E can_view verb (s resource) of
        Inl e \<Rightarrow> Inl e
      | Inr True \<Rightarrow> Inr True
      | Inr False \<Rightarrow> match_rules E can_view verb (s wildcard))"

section \<open>The access check\<close>

text \<open>The error carries whether the denial is explicit, as \<^verbatim>\<open>IsAccessExplicitlyDenied\<close> reports.\<close>

datatype access = Granted | Denied (explicit: bool) (reason: err)

definition access_denied :: err where
  "access_denied = Err AccessDenied ''access denied to perform action''"

text \<open>The loops over the roles; \<open>ns\<close> and \<open>rules\<close> select the allow or the deny conditions.\<close>

fun match_roles ::
  "rule_env \<Rightarrow> bool \<Rightarrow> (role \<Rightarrow> string list) \<Rightarrow> (role \<Rightarrow> rule list) \<Rightarrow> string \<Rightarrow> string \<Rightarrow> string \<Rightarrow> role list \<Rightarrow> bool result" where
  "match_roles E can_view ns rules namespace resource verb [] = Inr False"
| "match_roles E can_view ns rules namespace resource verb (role # roles) =
     (if match_namespace (ns role) (process_namespace namespace)
      then (case match_rule_set E can_view (make_rule_set E (rules role)) resource verb of
              Inl e \<Rightarrow> Inl e
            | Inr m \<Rightarrow> if m then Inr True else match_roles E can_view ns rules namespace resource verb roles)
      else match_roles E can_view ns rules namespace resource verb roles)"

definition check_access_to_rule_impl :: "rule_env \<Rightarrow> bool \<Rightarrow> role list \<Rightarrow> string \<Rightarrow> string \<Rightarrow> string \<Rightarrow> access" where
  "check_access_to_rule_impl E can_view roles namespace resource verb =
     (case re_actions_parser_err E of
        Some e \<Rightarrow> Denied True e
      | None \<Rightarrow>
          (case match_roles E can_view rl_deny_namespaces rl_deny_rules namespace resource verb roles of
             Inl e \<Rightarrow> Denied True e
           | Inr True \<Rightarrow> Denied True access_denied
           | Inr False \<Rightarrow>
               (case match_roles E can_view rl_allow_namespaces rl_allow_rules namespace resource verb roles of
                  Inl e \<Rightarrow> Denied True e
                | Inr True \<Rightarrow> Granted
                | Inr False \<Rightarrow> Denied False access_denied)))"

definition check_role_set :: "rule_env \<Rightarrow> role list \<Rightarrow> string \<Rightarrow> string \<Rightarrow> string \<Rightarrow> access" where
  "check_role_set E roles namespace resource verb =
     (case re_where_parser_err E of
        Some e \<Rightarrow> Denied False e
      | None \<Rightarrow> check_access_to_rule_impl E (resource = kind_session) roles namespace resource verb)"

section \<open>Delegation sessions (lib/services/access_checker.go)\<close>

record checker =
  ck_roles :: "role list"
  ck_delegation_session :: string
  ck_allowed_kinds :: "string list"

definition implied_kinds :: "(string \<times> string list) list" where
  "implied_kinds = [(''app'', [''app_server'']), (''db'', [''db_server'']), (''kube_cluster'', [''kube_server'']),
     (''windows_desktop'', [''windows_desktop_service''])]"

definition blocked_in_delegation_session :: "checker \<Rightarrow> string \<Rightarrow> string \<Rightarrow> bool" where
  "blocked_in_delegation_session c kind verb =
     (if ck_delegation_session c = [] \<or> ck_allowed_kinds c = [] then False
      else let kinds = ck_allowed_kinds c @ concat (map snd (filter (\<lambda>(parent, _). parent \<in> set (ck_allowed_kinds c)) implied_kinds)) in
        kind \<notin> set kinds \<or> verb \<notin> {verb_list, verb_read, verb_read_no_secrets})"

definition check_access_to_rule :: "rule_env \<Rightarrow> checker \<Rightarrow> string \<Rightarrow> string \<Rightarrow> string \<Rightarrow> access" where
  "check_access_to_rule E c namespace resource verb =
     (if blocked_in_delegation_session c resource verb then Denied False access_denied
      else check_role_set E (ck_roles c) namespace resource verb)"

definition has_role :: "checker \<Rightarrow> string \<Rightarrow> bool" where
  "has_role c name \<longleftrightarrow> name \<in> rl_name ` set (ck_roles c)"

section \<open>What a check decides\<close>

locale rule_sorter =
  fixes srt :: "rule list \<Rightarrow> rule list"
  assumes sort_mset: "mset (srt rs) = mset rs"
    and sort_order: "sorted_wrt (\<lambda>r q. \<not> compare_rule_score q r) (srt rs)"
begin

lemma sort_set [simp]: "set (srt rs) = set rs"
  using sort_mset by (metis set_mset_mset)

text \<open>More specific rules come first: a rule with a condition before one without, all else equal.\<close>

lemma specific_first:
  assumes "srt rs = as @ r # bs" and "q \<in> set as"
  shows "rule_score r \<le> rule_score q"
  using sort_order [of rs] assms by (auto simp: sorted_wrt_append compare_rule_score_def)

end

definition stable_sort :: "rule list \<Rightarrow> rule list" where
  "stable_sort rs = sort_key (\<lambda>r. - rule_score r) rs"

interpretation stable: rule_sorter stable_sort
proof
  show "mset (stable_sort rs) = mset rs" for rs by (simp add: stable_sort_def)
  have "sorted (map (\<lambda>r. - rule_score r) (stable_sort rs))" for rs by (simp add: stable_sort_def)
  then show "sorted_wrt (\<lambda>r q. \<not> compare_rule_score q r) (stable_sort rs)" for rs
    by (simp add: sorted_map compare_rule_score_def) (metis (mono_tags, lifting) linorder_not_less neg_le_iff_le sorted_wrt_mono_rel)
qed

text \<open>The declarative reading of a rule: it names the resource or all, its condition holds, it has the verb.\<close>

definition names_resource :: "string \<Rightarrow> rule \<Rightarrow> bool" where
  "names_resource resource r \<longleftrightarrow> resource \<in> set (ru_resources r) \<or> wildcard \<in> set (ru_resources r)"

definition covers_verb :: "string \<Rightarrow> rule \<Rightarrow> bool" where
  "covers_verb verb r \<longleftrightarrow> has_verb r wildcard \<or> has_verb r verb"

definition rule_applies :: "rule_env \<Rightarrow> bool \<Rightarrow> string \<Rightarrow> string \<Rightarrow> rule \<Rightarrow> bool" where
  "rule_applies E can_view resource verb r \<longleftrightarrow>
     names_resource resource r \<and> covers_verb verb r \<and> matches_where E can_view r = Inr True"

definition rule_evaluates :: "rule_env \<Rightarrow> bool \<Rightarrow> rule \<Rightarrow> bool" where
  "rule_evaluates E can_view r \<longleftrightarrow> \<not> is_err (matches_where E can_view r) \<and> process_actions E (ru_actions r) = None"

lemma match_rules_True:
  "match_rules E v verb rs = Inr True \<Longrightarrow> \<exists>r \<in> set rs. matches_where E v r = Inr True \<and> covers_verb verb r \<and> process_actions E (ru_actions r) = None"
  by (induction rs) (auto simp: covers_verb_def split: sum.split_asm if_split_asm option.split_asm)

lemma match_rules_False:
  "match_rules E v verb rs = Inr False \<Longrightarrow> \<forall>r \<in> set rs. \<exists>b. matches_where E v r = Inr b \<and> \<not> (b \<and> covers_verb verb r)"
  by (induction rs) (auto simp: covers_verb_def split: sum.split_asm if_split_asm option.split_asm)

lemma match_rules_evaluates:
  assumes "\<forall>r \<in> set rs. rule_evaluates E v r"
  shows "match_rules E v verb rs = Inr (\<exists>r \<in> set rs. matches_where E v r = Inr True \<and> covers_verb verb r)"
  using assms
  by (induction rs) (auto simp: covers_verb_def rule_evaluates_def is_err_def split: sum.split_asm if_split_asm option.split_asm)

lemma set_make_rule_set:
  assumes "rule_sorter (re_sort E)"
  shows "set (make_rule_set E rules resource) = {r \<in> set rules. resource \<in> set (ru_resources r)}"
  using rule_sorter.sort_set [OF assms] by (auto simp: make_rule_set_def count_list_0_iff)

lemma match_rule_set_True:
  assumes "rule_sorter (re_sort E)" and "match_rule_set E v (make_rule_set E rules) resource verb = Inr True"
  shows "\<exists>r \<in> set rules. rule_applies E v resource verb r \<and> process_actions E (ru_actions r) = None"
proof -
  from assms(2) have "match_rules E v verb (make_rule_set E rules resource) = Inr True
      \<or> match_rules E v verb (make_rule_set E rules wildcard) = Inr True"
    by (auto simp: match_rule_set_def split: sum.split_asm bool.split_asm)
  then show ?thesis
    by (auto dest!: match_rules_True simp: set_make_rule_set [OF assms(1)] rule_applies_def names_resource_def)
qed

lemma match_rule_set_False:
  assumes "rule_sorter (re_sort E)" and "match_rule_set E v (make_rule_set E rules) resource verb = Inr False"
    and "r \<in> set rules" and "names_resource resource r"
  shows "\<exists>b. matches_where E v r = Inr b \<and> \<not> (b \<and> covers_verb verb r)"
proof -
  from assms(2) have "match_rules E v verb (make_rule_set E rules resource) = Inr False"
      "match_rules E v verb (make_rule_set E rules wildcard) = Inr False"
    by (auto simp: match_rule_set_def split: sum.split_asm bool.split_asm)
  from this [THEN match_rules_False] show ?thesis
    using assms(3,4) by (auto simp: set_make_rule_set [OF assms(1)] names_resource_def)
qed

lemma match_rule_set_evaluates:
  assumes "rule_sorter (re_sort E)" and "\<forall>r \<in> set rules. rule_evaluates E v r"
  shows "match_rule_set E v (make_rule_set E rules) resource verb = Inr (\<exists>r \<in> set rules. rule_applies E v resource verb r)"
proof -
  have "match_rules E v verb (make_rule_set E rules x) =
      Inr (\<exists>r \<in> set rules. x \<in> set (ru_resources r) \<and> matches_where E v r = Inr True \<and> covers_verb verb r)" for x
    using match_rules_evaluates [of "make_rule_set E rules x" E v verb] assms(2)
    by (auto simp: set_make_rule_set [OF assms(1)])
  then show ?thesis
    by (auto simp: match_rule_set_def rule_applies_def names_resource_def split: bool.split)
qed

abbreviation selected :: "(role \<Rightarrow> string list) \<Rightarrow> (role \<Rightarrow> rule list) \<Rightarrow> string \<Rightarrow> role list \<Rightarrow> rule set" where
  "selected ns rules namespace roles \<equiv>
     {r. \<exists>role \<in> set roles. match_namespace (ns role) (process_namespace namespace) \<and> r \<in> set (rules role)}"

lemma match_roles_True:
  assumes "rule_sorter (re_sort E)" and "match_roles E v ns rules namespace resource verb roles = Inr True"
  shows "\<exists>r \<in> selected ns rules namespace roles. rule_applies E v resource verb r \<and> process_actions E (ru_actions r) = None"
  using assms(2)
proof (induction roles)
  case (Cons role roles)
  then consider "match_namespace (ns role) (process_namespace namespace)"
      "match_rule_set E v (make_rule_set E (rules role)) resource verb = Inr True"
    | "match_roles E v ns rules namespace resource verb roles = Inr True"
    by (auto split: if_split_asm sum.split_asm)
  then show ?case
  proof cases
    case 1
    with match_rule_set_True [OF assms(1) 1(2)] show ?thesis by auto
  qed (use Cons.IH in auto)
qed simp

lemma match_roles_False:
  assumes "rule_sorter (re_sort E)" and "match_roles E v ns rules namespace resource verb roles = Inr False"
    and "r \<in> selected ns rules namespace roles" and "names_resource resource r"
  shows "\<exists>b. matches_where E v r = Inr b \<and> \<not> (b \<and> covers_verb verb r)"
  using assms(2,3)
proof (induction roles)
  case (Cons role roles)
  then have rest: "match_roles E v ns rules namespace resource verb roles = Inr False"
    by (auto split: if_split_asm sum.split_asm)
  from Cons.prems(2) consider "r \<in> selected ns rules namespace roles"
    | "match_namespace (ns role) (process_namespace namespace)" "r \<in> set (rules role)" by auto
  then show ?case
  proof cases
    case 1
    then show ?thesis by (rule Cons.IH [OF rest])
  next
    case 2
    with Cons.prems(1) have "match_rule_set E v (make_rule_set E (rules role)) resource verb = Inr False"
      by (auto split: sum.split_asm if_split_asm)
    from match_rule_set_False [OF assms(1) this 2(2) assms(4)] show ?thesis .
  qed
qed simp

lemma match_roles_evaluates:
  assumes "rule_sorter (re_sort E)" and "\<forall>role \<in> set roles. \<forall>r \<in> set (rules role). rule_evaluates E v r"
  shows "match_roles E v ns rules namespace resource verb roles =
    Inr (\<exists>r \<in> selected ns rules namespace roles. rule_applies E v resource verb r)"
  using assms(2)
proof (induction roles)
  case (Cons role roles)
  then show ?case using match_rule_set_evaluates [OF assms(1), of "rules role" v resource verb] by auto
qed simp

lemma check_role_set_Granted:
  assumes "check_role_set E roles namespace resource verb = Granted"
  defines "v \<equiv> resource = kind_session"
  shows "match_roles E v rl_deny_namespaces rl_deny_rules namespace resource verb roles = Inr False"
    and "match_roles E v rl_allow_namespaces rl_allow_rules namespace resource verb roles = Inr True"
  using assms by (auto simp: check_role_set_def check_access_to_rule_impl_def split: option.split_asm sum.split_asm bool.split_asm)

text \<open>
  Property C15: deny wins and the check fails closed. When access is granted, then some allow rule of a role for
  the namespace applies and its actions ran, and every deny rule of a role for the namespace that names the
  resource could be evaluated and does not apply: a deny rule whose condition does not parse denies. This holds
  for every order that \<^verbatim>\<open>sort.Slice\<close> may choose.
\<close>

theorem granted_access_justified:
  assumes "rule_sorter (re_sort E)" and "check_access_to_rule E c namespace resource verb = Granted"
  defines "v \<equiv> resource = kind_session" and "ns \<equiv> process_namespace namespace"
  shows "(\<exists>role \<in> set (ck_roles c). match_namespace (rl_allow_namespaces role) ns
      \<and> (\<exists>r \<in> set (rl_allow_rules role). rule_applies E v resource verb r \<and> process_actions E (ru_actions r) = None))
    \<and> (\<forall>role \<in> set (ck_roles c). match_namespace (rl_deny_namespaces role) ns
      \<longrightarrow> (\<forall>r \<in> set (rl_deny_rules role). names_resource resource r
        \<longrightarrow> (\<exists>b. matches_where E v r = Inr b \<and> \<not> (b \<and> covers_verb verb r))))"
proof -
  have g: "check_role_set E (ck_roles c) namespace resource verb = Granted"
    using assms(2) by (simp add: check_access_to_rule_def split: if_split_asm)
  note m = check_role_set_Granted [OF g, folded v_def]
  show ?thesis
    using match_roles_True [OF assms(1) m(2)] match_roles_False [OF assms(1) m(1)] unfolding ns_def by blast
qed

text \<open>
  Property C16: the check decides what the rules say. When every rule of the roles can be evaluated, the verdict
  of the optimised check, with its sorted rule sets, its early exits and its wildcard pass, is the declarative
  one: an explicit denial when a deny rule applies, else access when an allow rule applies, else an implicit
  denial.
\<close>

theorem check_equals_declarative:
  fixes namespace resource :: string
  assumes "rule_sorter (re_sort E)" and "re_where_parser_err E = None" and "re_actions_parser_err E = None"
    and "\<forall>role \<in> set roles. \<forall>r \<in> set (rl_allow_rules role) \<union> set (rl_deny_rules role). rule_evaluates E (resource = kind_session) r"
  defines "v \<equiv> resource = kind_session" and "ns \<equiv> process_namespace namespace"
  shows "check_role_set E roles namespace resource verb =
    (if \<exists>role \<in> set roles. match_namespace (rl_deny_namespaces role) ns \<and> (\<exists>r \<in> set (rl_deny_rules role). rule_applies E v resource verb r)
     then Denied True access_denied
     else if \<exists>role \<in> set roles. match_namespace (rl_allow_namespaces role) ns \<and> (\<exists>r \<in> set (rl_allow_rules role). rule_applies E v resource verb r)
     then Granted else Denied False access_denied)"
proof -
  have "\<forall>role \<in> set roles. \<forall>r \<in> set (rl_deny_rules role). rule_evaluates E v r"
    "\<forall>role \<in> set roles. \<forall>r \<in> set (rl_allow_rules role). rule_evaluates E v r" using assms(4) by (auto simp: v_def)
  note m = this [THEN match_roles_evaluates [OF assms(1)]]
  have s: "(\<exists>r \<in> selected f g namespace roles. P r) \<longleftrightarrow> (\<exists>role \<in> set roles. match_namespace (f role) ns \<and> (\<exists>r \<in> set (g role). P r))"
    for f g P by (auto simp: ns_def)
  show ?thesis unfolding check_role_set_def check_access_to_rule_impl_def v_def [symmetric] m s
    using assms(2,3) by (simp split: bool.split)
qed

section \<open>A concrete editor\<close>

definition sample_rules :: rule_env where
  "sample_rules = \<lparr>re_sort = stable_sort, re_where_parser_err = None, re_actions_parser_err = None,
     re_where = (\<lambda>_ w. if w = ''true'' then Inr True else Inl (Err BadParameter ''parse'')), re_action = (\<lambda>_. None)\<rparr>"

definition editor_role :: role where
  "editor_role = \<lparr>rl_name = ''editor'', rl_allow_namespaces = [''default''],
     rl_allow_rules = [\<lparr>ru_resources = [''oidc'', ''saml''], ru_verbs = [''read'', ''update''], ru_where = ''true'', ru_actions = []\<rparr>],
     rl_deny_namespaces = [''*''], rl_deny_rules = [\<lparr>ru_resources = [''*''], ru_verbs = [''delete''], ru_where = [], ru_actions = []\<rparr>]\<rparr>"

definition editor :: checker where
  "editor = \<lparr>ck_roles = [editor_role], ck_delegation_session = [], ck_allowed_kinds = []\<rparr>"

lemma editor_may_read: "check_access_to_rule sample_rules editor ''default'' kind_oidc verb_read_no_secrets = Granted"
  by code_simp

lemma sample_rules_sorter: "rule_sorter (re_sort sample_rules)"
  using stable.rule_sorter_axioms by (simp add: sample_rules_def)

theorem granted_access_justified_witness:
  "\<exists>r \<in> set (rl_allow_rules editor_role). rule_applies sample_rules False kind_oidc verb_read_no_secrets r"
  using granted_access_justified [OF sample_rules_sorter editor_may_read] by (auto simp: editor_def kind_oidc_def kind_session_def)

theorem check_equals_declarative_witness:
  "check_role_set sample_rules [editor_role] ''default'' kind_oidc verb_delete = Denied True access_denied"
proof -
  have e: "\<forall>role \<in> set [editor_role]. \<forall>r \<in> set (rl_allow_rules role) \<union> set (rl_deny_rules role). rule_evaluates sample_rules (kind_oidc = kind_session) r"
    by (auto simp: editor_role_def rule_evaluates_def matches_where_def sample_rules_def)
  have p: "re_where_parser_err sample_rules = None" "re_actions_parser_err sample_rules = None" by (simp_all add: sample_rules_def)
  show ?thesis unfolding check_equals_declarative [OF sample_rules_sorter p e]
    by (simp add: editor_role_def rule_applies_def names_resource_def covers_verb_def has_verb_def matches_where_def
        match_namespace_def wildcard_def verb_delete_def verb_read_no_secrets_def)
qed

end
