(* ===== verification/MinHeap.thy ===== *)
theory MinHeap
  imports Prelude "HOL-Library.Multiset"
begin

text \<open>
  The binary heap of \<^verbatim>\<open>lib/backend/memory/minheap.go\<close>: the five methods of its
  \<^verbatim>\<open>heap.Interface\<close> driven by the sift functions of Go's \<^verbatim>\<open>container/heap\<close>. The array is a
  list; \<open>k\<close> is what \<^verbatim>\<open>Less\<close> compares. Shown: push, pop and remove keep the heap order and
  change the contents by exactly one element, and the head of a heap is a minimum.
\<close>

definition parent :: "nat \<Rightarrow> nat" where
  "parent j = (j - 1) div 2"

definition swap :: "'a list \<Rightarrow> nat \<Rightarrow> nat \<Rightarrow> 'a list" where
  "swap h i j = h[i := h ! j, j := h ! i]"

definition less_at :: "('a \<Rightarrow> int) \<Rightarrow> 'a list \<Rightarrow> nat \<Rightarrow> nat \<Rightarrow> bool" where
  "less_at k h i j \<longleftrightarrow> k (h ! i) < k (h ! j)"

section \<open>container/heap\<close>

function sift_up :: "('a \<Rightarrow> int) \<Rightarrow> 'a list \<Rightarrow> nat \<Rightarrow> 'a list" where
  "sift_up k h j =
     (let i = parent j in
      if i = j \<or> \<not> less_at k h j i then h else sift_up k (swap h i j) i)"
  by pat_completeness auto
termination
  by (relation "measure (\<lambda>(k, h, j). j)") (auto simp: parent_def)

definition min_child :: "('a \<Rightarrow> int) \<Rightarrow> 'a list \<Rightarrow> nat \<Rightarrow> nat \<Rightarrow> nat" where
  "min_child k h n i =
     (if 2 * i + 2 < n \<and> less_at k h (2 * i + 2) (2 * i + 1) then 2 * i + 2 else 2 * i + 1)"

text \<open>\<^verbatim>\<open>down\<close> returns the array and the last position of the element.\<close>

function sift_down :: "('a \<Rightarrow> int) \<Rightarrow> 'a list \<Rightarrow> nat \<Rightarrow> nat \<Rightarrow> 'a list \<times> nat" where
  "sift_down k h n i =
     (if n \<le> 2 * i + 1 then (h, i)
      else let j = min_child k h n i in
        if \<not> less_at k h j i then (h, i) else sift_down k (swap h i j) n j)"
  by pat_completeness auto
termination
  by (relation "measure (\<lambda>(k, h, n, i). n - i)") (auto simp: min_child_def)

declare sift_up.simps [simp del] sift_down.simps [simp del]

definition heap_push :: "('a \<Rightarrow> int) \<Rightarrow> 'a list \<Rightarrow> 'a \<Rightarrow> 'a list" where
  "heap_push k h x = sift_up k (h @ [x]) (length h)"

definition heap_remove :: "('a \<Rightarrow> int) \<Rightarrow> 'a list \<Rightarrow> nat \<Rightarrow> 'a list" where
  "heap_remove k h i =
     (let n = length h - 1 in
      butlast (if n = i then h
               else let (h', i') = sift_down k (swap h i n) n i
                    in if i' = i then sift_up k h' i else h'))"

definition heap_pop :: "('a \<Rightarrow> int) \<Rightarrow> 'a list \<Rightarrow> 'a list" where
  "heap_pop k h = (let n = length h - 1 in butlast (fst (sift_down k (swap h 0 n) n 0)))"

section \<open>The heap order\<close>

definition heap_upto :: "('a \<Rightarrow> int) \<Rightarrow> nat \<Rightarrow> 'a list \<Rightarrow> bool" where
  "heap_upto k n h \<longleftrightarrow> (\<forall>j < n. 0 < j \<longrightarrow> k (h ! parent j) \<le> k (h ! j))"

abbreviation is_heap :: "('a \<Rightarrow> int) \<Rightarrow> 'a list \<Rightarrow> bool" where
  "is_heap k h \<equiv> heap_upto k (length h) h"

text \<open>Ordered but for the edges at position \<open>i\<close>, which the parent of \<open>i\<close> bridges.\<close>

definition near_heap :: "('a \<Rightarrow> int) \<Rightarrow> nat \<Rightarrow> 'a list \<Rightarrow> nat \<Rightarrow> bool" where
  "near_heap k n h i \<longleftrightarrow>
     (\<forall>j < n. 0 < j \<longrightarrow> j \<noteq> i \<longrightarrow> parent j \<noteq> i \<longrightarrow> k (h ! parent j) \<le> k (h ! j))
     \<and> (0 < i \<longrightarrow> (\<forall>c < n. 0 < c \<longrightarrow> parent c = i \<longrightarrow> k (h ! parent i) \<le> k (h ! c)))"

definition above_children :: "('a \<Rightarrow> int) \<Rightarrow> nat \<Rightarrow> 'a list \<Rightarrow> nat \<Rightarrow> bool" where
  "above_children k n h i \<longleftrightarrow> (\<forall>c < n. 0 < c \<longrightarrow> parent c = i \<longrightarrow> k (h ! i) \<le> k (h ! c))"

lemma parent_less: "0 < j \<Longrightarrow> parent j < j"
  by (simp add: parent_def)

lemma parent_eq: "parent c = i \<Longrightarrow> 0 < c \<Longrightarrow> c = 2 * i + 1 \<or> c = 2 * i + 2"
  by (auto simp: parent_def)

lemma parent_children [simp]: "parent (2 * i + 1) = i" "parent (2 * i + 2) = i"
    "parent (Suc (2 * i)) = i" "parent (Suc (Suc (2 * i))) = i"
  by (auto simp: parent_def)

lemma length_swap [simp]: "length (swap h i j) = length h"
  by (simp add: swap_def)

lemma nth_swap:
  "i < length h \<Longrightarrow> j < length h \<Longrightarrow> m < length h \<Longrightarrow>
     swap h i j ! m = (if m = j then h ! i else if m = i then h ! j else h ! m)"
  by (auto simp: swap_def nth_list_update)

lemma mset_swap [simp]: "i < length h \<Longrightarrow> j < length h \<Longrightarrow> mset (swap h i j) = mset h"
  by (simp add: swap_def mset_swap)

lemma length_sift_up [simp]: "length (sift_up k h j) = length h"
  by (induction k h j rule: sift_up.induct) (subst sift_up.simps, simp add: Let_def)

lemma length_sift_down [simp]: "length (fst (sift_down k h n i)) = length h"
  by (induction k h n i rule: sift_down.induct) (subst sift_down.simps, simp add: Let_def)

lemma mset_sift_up: "j < length h \<Longrightarrow> mset (sift_up k h j) = mset h"
proof (induction k h j rule: sift_up.induct)
  case (1 k h j)
  have "parent j \<le> j" by (simp add: parent_def)
  with "1" show ?case by (subst sift_up.simps) (auto simp: Let_def)
qed

lemma min_child_bounds:
  "2 * i + 1 < n \<Longrightarrow> min_child k h n i < n \<and> i < min_child k h n i \<and> parent (min_child k h n i) = i"
  by (auto simp: min_child_def)

lemma mset_sift_down: "i < n \<Longrightarrow> n \<le> length h \<Longrightarrow> mset (fst (sift_down k h n i)) = mset h"
proof (induction k h n i rule: sift_down.induct)
  case (1 k h n i)
  then show ?case using min_child_bounds [of i n k h]
    by (subst sift_down.simps) (auto simp: Let_def)
qed

text \<open>Sifting down leaves the positions from \<open>n\<close> on alone.\<close>

lemma sift_down_beyond:
  "i < n \<Longrightarrow> n \<le> m \<Longrightarrow> m < length h \<Longrightarrow> fst (sift_down k h n i) ! m = h ! m"
proof (induction k h n i rule: sift_down.induct)
  case (1 k h n i)
  then show ?case using min_child_bounds [of i n k h]
    by (subst sift_down.simps) (auto simp: Let_def nth_swap)
qed

lemma sift_up_beyond: "j < m \<Longrightarrow> m < length h \<Longrightarrow> sift_up k h j ! m = h ! m"
proof (induction k h j rule: sift_up.induct)
  case (1 k h j)
  have p: "parent j \<le> j" by (simp add: parent_def)
  show ?case
  proof (cases "parent j = j \<or> \<not> less_at k h j (parent j)")
    case False
    with "1" p show ?thesis by (subst sift_up.simps) (auto simp: Let_def nth_swap)
  qed (subst sift_up.simps, simp add: Let_def)
qed

text \<open>The two sides of an order defect at \<open>i\<close>, as rules.\<close>

lemma near_heapI:
  assumes "\<And>c. c < n \<Longrightarrow> 0 < c \<Longrightarrow> c \<noteq> i \<Longrightarrow> parent c \<noteq> i \<Longrightarrow> k (h ! parent c) \<le> k (h ! c)"
    and "\<And>c. 0 < i \<Longrightarrow> c < n \<Longrightarrow> 0 < c \<Longrightarrow> parent c = i \<Longrightarrow> k (h ! parent i) \<le> k (h ! c)"
  shows "near_heap k n h i"
  using assms by (auto simp: near_heap_def)

lemma near_heapD:
  assumes "near_heap k n h i"
  shows "c < n \<Longrightarrow> 0 < c \<Longrightarrow> c \<noteq> i \<Longrightarrow> parent c \<noteq> i \<Longrightarrow> k (h ! parent c) \<le> k (h ! c)"
    and "0 < i \<Longrightarrow> c < n \<Longrightarrow> 0 < c \<Longrightarrow> parent c = i \<Longrightarrow> k (h ! parent i) \<le> k (h ! c)"
  using assms by (auto simp: near_heap_def)

lemma near_heap_swap_up:
  assumes near: "near_heap k n h j" and j: "0 < j" "j < n" "n \<le> length h"
    and lt: "k (h ! j) < k (h ! parent j)"
  shows "near_heap k n (swap h (parent j) j) (parent j)"
    and "above_children k n (swap h (parent j) j) (parent j)"
proof -
  let ?i = "parent j" and ?h = "swap h (parent j) j"
  have ij: "?i < j" using parent_less [OF j(1)] .
  have nth: "?h ! m = (if m = j then h ! ?i else if m = ?i then h ! j else h ! m)" if "m < n" for m
    using that ij j by (intro nth_swap) auto
  have edge: "k (h ! ?i) \<le> k (h ! c)" if "c < n" "0 < c" "parent c = ?i" "c \<noteq> j" for c
    using near_heapD(1) [OF near that(1,2,4)] that(3) ij by simp
  show "near_heap k n ?h ?i"
  proof (rule near_heapI)
    fix c assume c: "c < n" "0 < c" "c \<noteq> ?i" "parent c \<noteq> ?i"
    then have cj: "c \<noteq> j" by auto
    have p: "parent c < n" using parent_less [OF c(2)] c(1) by simp
    show "k (?h ! parent c) \<le> k (?h ! c)"
    proof (cases "parent c = j")
      case True
      with near_heapD(2) [OF near j(1) c(1,2)] c cj j(2) show ?thesis by (simp add: nth)
    next
      case False
      with near_heapD(1) [OF near c(1,2) cj] c cj p show ?thesis by (simp add: nth)
    qed
  next
    fix c assume c: "0 < ?i" "c < n" "0 < c" "parent c = ?i"
    have pi: "parent ?i < ?i" using parent_less [OF c(1)] .
    with ij have "k (h ! parent ?i) \<le> k (h ! ?i)"
      using near_heapD(1) [OF near, of ?i] c(1) j(2) by simp
    moreover have "k (h ! ?i) \<le> k (?h ! c)"
      using c edge [OF c(2,3,4)] parent_less [OF c(3)] by (cases "c = j") (auto simp: nth)
    ultimately show "k (?h ! parent ?i) \<le> k (?h ! c)" using pi ij j(2) by (simp add: nth)
  qed
  have "k (?h ! ?i) \<le> k (?h ! c)" if c: "c < n" "0 < c" "parent c = ?i" for c
    using edge [OF c] lt c ij j parent_less [OF c(2)] by (cases "c = j") (auto simp: nth)
  then show "above_children k n ?h ?i" by (simp add: above_children_def)
qed

lemma sift_up_heap:
  "near_heap k n h j \<Longrightarrow> above_children k n h j \<Longrightarrow> j < n \<Longrightarrow> n \<le> length h \<Longrightarrow>
     heap_upto k n (sift_up k h j)"
proof (induction k h j rule: sift_up.induct)
  case (1 k h j)
  show ?case
  proof (cases "parent j = j \<or> \<not> less_at k h j (parent j)")
    case True
    have "k (h ! parent c) \<le> k (h ! c)" if c: "c < n" "0 < c" for c
    proof -
      consider "c = j" | "parent c = j" | "c \<noteq> j" "parent c \<noteq> j" by blast
      then show ?thesis
        using True near_heapD(1) [OF "1.prems"(1) c] "1.prems"(2) c parent_less [OF c(2)]
        by cases (auto simp: less_at_def above_children_def)
    qed
    with True show ?thesis by (subst sift_up.simps) (simp add: heap_upto_def)
  next
    case False
    then have j: "0 < j" "k (h ! j) < k (h ! parent j)"
      by (auto simp: less_at_def parent_def)
    note s = near_heap_swap_up [OF "1.prems"(1) j(1) "1.prems"(3,4) j(2)]
    have "heap_upto k n (sift_up k (swap h (parent j) j) (parent j))"
      using "1.IH" [OF refl False s] "1.prems"(3,4) parent_less [OF j(1)] by simp
    with False show ?thesis by (subst sift_up.simps) (simp add: Let_def)
  qed
qed

lemma near_heap_swap_down:
  assumes near: "near_heap k n h i" and n: "2 * i + 1 < n" "n \<le> length h"
    and lt: "k (h ! min_child k h n i) < k (h ! i)"
  shows "near_heap k n (swap h i (min_child k h n i)) (min_child k h n i)"
proof -
  define j where "j = min_child k h n i"
  let ?h = "swap h i j"
  have j: "j < n" "i < j" "parent j = i" "0 < j"
    using min_child_bounds [OF n(1), of k h] by (auto simp: j_def)
  have nth: "?h ! m = (if m = j then h ! i else if m = i then h ! j else h ! m)" if "m < n" for m
    using that j n by (intro nth_swap) auto
  have least: "k (h ! j) \<le> k (h ! c)" if "c < n" "0 < c" "parent c = i" for c
    using parent_eq [OF that(3,2)] that(1) by (auto simp: j_def min_child_def less_at_def)
  show ?thesis unfolding j_def [symmetric]
  proof (rule near_heapI)
    fix c assume c: "c < n" "0 < c" "c \<noteq> j" "parent c \<noteq> j"
    have p: "parent c < c" "parent c < n" using parent_less [OF c(2)] c(1) by auto
    consider "c = i" | "c \<noteq> i" "parent c = i" | "c \<noteq> i" "parent c \<noteq> i" by blast
    then show "k (?h ! parent c) \<le> k (?h ! c)"
    proof cases
      case 1
      with near_heapD(2) [OF near _ j(1,4,3)] c p j show ?thesis by (simp add: nth)
    next
      case 2
      with least [OF c(1,2)] c p show ?thesis by (simp add: nth)
    next
      case 3
      with near_heapD(1) [OF near c(1,2)] c p show ?thesis by (simp add: nth)
    qed
  next
    fix c assume c: "c < n" "0 < c" "parent c = j"
    have "j < c" using parent_less [OF c(2)] c(3) by simp
    with near_heapD(1) [OF near c(1,2)] c j show "k (?h ! parent j) \<le> k (?h ! c)" by (simp add: nth)
  qed
qed

lemma sift_down_pos: "i \<le> snd (sift_down k h n i)"
proof (induction k h n i rule: sift_down.induct)
  case (1 k h n i)
  then show ?case using min_child_bounds [of i n k h]
    by (subst sift_down.simps) (auto simp: Let_def dest: less_imp_le order.trans)
qed

lemma sift_down_heap:
  assumes "near_heap k n h i" and "i < n" and "n \<le> length h"
  shows "(\<forall>c < n. 0 < c \<longrightarrow> c \<noteq> i \<longrightarrow> k (fst (sift_down k h n i) ! parent c) \<le> k (fst (sift_down k h n i) ! c))
    \<and> (snd (sift_down k h n i) = i \<longrightarrow> fst (sift_down k h n i) = h)
    \<and> (snd (sift_down k h n i) \<noteq> i \<longrightarrow> heap_upto k n (fst (sift_down k h n i)))"
  using assms
proof (induction k h n i rule: sift_down.induct)
  case (1 k h n i)
  define j where "j = min_child k h n i"
  show ?case
  proof (cases "n \<le> 2 * i + 1 \<or> \<not> less_at k h j i")
    case True
    have "k (h ! parent c) \<le> k (h ! c)" if c: "c < n" "0 < c" "c \<noteq> i" for c
    proof (cases "parent c = i")
      case pc: True
      from parent_eq [OF pc c(2)] c(1) True show ?thesis
        by (auto simp: j_def min_child_def less_at_def split: if_splits)
    next
      case False
      with near_heapD(1) [OF "1.prems"(1) c] show ?thesis by simp
    qed
    moreover from True have "sift_down k h n i = (h, i)"
      by (subst sift_down.simps) (auto simp: Let_def j_def)
    ultimately show ?thesis by simp
  next
    case False
    then have n: "2 * i + 1 < n" and lt: "k (h ! j) < k (h ! i)" by (auto simp: less_at_def)
    have j: "j < n" "i < j" "parent j = i" using min_child_bounds [OF n, of k h] by (auto simp: j_def)
    let ?h = "swap h i j"
    from near_heap_swap_down [OF "1.prems"(1) n "1.prems"(3)] lt
    have near: "near_heap k n ?h j" by (simp add: j_def)
    have eq: "sift_down k h n i = sift_down k ?h n j"
      by (subst sift_down.simps) (use False in \<open>auto simp: Let_def j_def\<close>)
    have len: "n \<le> length ?h" using "1.prems"(3) by simp
    have n1: "\<not> n \<le> 2 * i + 1" and n2: "\<not> \<not> less_at k h j i" using False by auto
    note IH = "1.IH" [OF n1 j_def n2 near j(1) len]
    have "heap_upto k n (fst (sift_down k ?h n j))"
    proof (cases "snd (sift_down k ?h n j) = j")
      case True
      with IH have h': "fst (sift_down k ?h n j) = ?h" by blast
      have "k (?h ! i) \<le> k (?h ! j)" using lt j "1.prems" by (simp add: nth_swap)
      with IH h' j(3) show ?thesis by (auto simp: heap_upto_def)
    qed (use IH in blast)
    moreover have "snd (sift_down k ?h n j) \<noteq> i" using sift_down_pos [of j k ?h n] j(2) by simp
    ultimately show ?thesis unfolding eq by (auto simp: heap_upto_def)
  qed
qed

section \<open>Push, pop and remove\<close>

lemma near_heap_swap_last:
  assumes "is_heap k h" and "i < n" and "Suc n = length h"
  shows "near_heap k n (swap h i n) i"
proof (rule near_heapI)
  have nth: "swap h i n ! m = (if m = n then h ! i else if m = i then h ! n else h ! m)"
    if "m \<le> n" for m using that assms by (intro nth_swap) auto
  have edge: "k (h ! parent c) \<le> k (h ! c)" if "c \<le> n" "0 < c" for c
    using assms that by (auto simp: heap_upto_def)
  fix c assume c: "c < n" "0 < c"
  have p: "parent c < n" using parent_less [OF c(2)] c(1) by simp
  {
    assume "c \<noteq> i" "parent c \<noteq> i"
    with edge [of c] c p show "k (swap h i n ! parent c) \<le> k (swap h i n ! c)" by (simp add: nth)
  next
    assume i: "0 < i" and pc: "parent c = i"
    from edge [of i] i assms(2) edge [of c] c pc have "k (h ! parent i) \<le> k (h ! c)" by simp
    with parent_less [OF i] parent_less [OF c(2)] pc c assms(2)
    show "k (swap h i n ! parent i) \<le> k (swap h i n ! c)" by (simp add: nth)
  }
qed

lemma heap_push_spec:
  assumes "is_heap k h"
  shows "is_heap k (heap_push k h x)" and "mset (heap_push k h x) = add_mset x (mset h)"
proof -
  let ?n = "Suc (length h)"
  have "near_heap k ?n (h @ [x]) (length h)"
  proof (rule near_heapI)
    fix c assume "c < ?n" "0 < c" "c \<noteq> length h"
    with parent_less [of c] assms show "k ((h @ [x]) ! parent c) \<le> k ((h @ [x]) ! c)"
      by (auto simp: heap_upto_def nth_append)
  next
    fix c assume "c < ?n" "0 < c" "parent c = length h"
    with parent_less [of c] show "k ((h @ [x]) ! parent (length h)) \<le> k ((h @ [x]) ! c)" by simp
  qed
  moreover have "above_children k ?n (h @ [x]) (length h)"
    unfolding above_children_def
  proof (intro allI impI)
    fix c assume "c < ?n" "0 < c" "parent c = length h"
    with parent_less [of c] show "k ((h @ [x]) ! length h) \<le> k ((h @ [x]) ! c)" by simp
  qed
  ultimately have "heap_upto k ?n (sift_up k (h @ [x]) (length h))"
    by (intro sift_up_heap) auto
  then show "is_heap k (heap_push k h x)" by (simp add: heap_push_def)
  show "mset (heap_push k h x) = add_mset x (mset h)"
    by (simp add: heap_push_def mset_sift_up)
qed

lemma heap_butlast: "heap_upto k (length h - 1) h \<Longrightarrow> is_heap k (butlast h)"
proof -
  assume a: "heap_upto k (length h - 1) h"
  have "parent j < length h - 1" if "j < length h - 1" "0 < j" for j
    using parent_less [OF that(2)] that(1) by simp
  with a show ?thesis by (auto simp: heap_upto_def nth_butlast)
qed

lemma mset_butlast_nth:
  "Suc n = length h \<Longrightarrow> mset (butlast h) = mset h - {#h ! n#}"
  by (cases h rule: rev_cases) (auto simp: nth_append)

lemma heap_remove_spec:
  assumes h: "is_heap k h" and i: "i < length h"
  shows "is_heap k (heap_remove k h i) \<and> mset (heap_remove k h i) = mset h - {#h ! i#}"
proof -
  define n where "n = length h - 1"
  have n: "Suc n = length h" using i by (simp add: n_def)
  show ?thesis
  proof (cases "n = i")
    case True
    then have "heap_remove k h i = butlast h" by (simp add: heap_remove_def n_def Let_def)
    moreover have "heap_upto k (length h - 1) h" using h by (simp add: heap_upto_def)
    ultimately show ?thesis using heap_butlast mset_butlast_nth [OF n] True by metis
  next
    case False
    with i n have "i < n" by simp
    let ?s = "swap h i n"
    obtain h' i' where sd: "sift_down k ?s n i = (h', i')" by fastforce
    define g where "g = (if i' = i then sift_up k h' i else h')"
    have r: "heap_remove k h i = butlast g"
      unfolding heap_remove_def n_def [symmetric] Let_def g_def using False sd by simp
    have near: "near_heap k n ?s i" using near_heap_swap_last [OF h \<open>i < n\<close> n] .
    note d = sift_down_heap [OF near \<open>i < n\<close>, unfolded sd fst_conv snd_conv]
    have len: "length h' = length h" using length_sift_down [of k ?s n i] sd by simp
    have heap: "heap_upto k n g"
    proof (cases "i' = i")
      case True
      with d n have s: "h' = ?s" "\<forall>c<n. 0 < c \<longrightarrow> c \<noteq> i \<longrightarrow> k (?s ! parent c) \<le> k (?s ! c)" by auto
      then have "above_children k n ?s i" using parent_less by (fastforce simp: above_children_def)
      with sift_up_heap [OF near this \<open>i < n\<close>] n s True show ?thesis by (simp add: g_def)
    next
      case False
      with d n show ?thesis by (simp add: g_def)
    qed
    have last: "h' ! n = h ! i"
      using sift_down_beyond [of i n n ?s k] sd \<open>i < n\<close> n by (simp add: nth_swap)
    have mh: "mset h' = mset h" using mset_sift_down [of i n ?s k] sd \<open>i < n\<close> n by simp
    have mg: "mset g = mset h" using mset_sift_up [of i h' k] mh len i by (simp add: g_def)
    have lg: "length g = length h" using len by (simp add: g_def)
    have gn: "g ! n = h ! i" using last sift_up_beyond [of i n h' k] \<open>i < n\<close> n len by (simp add: g_def)
    have "n = length g - 1" using n lg by simp
    with heap heap_butlast [of k g] have "is_heap k (butlast g)" by simp
    moreover have "mset (butlast g) = mset h - {#h ! i#}"
      using mset_butlast_nth [of n g] mg lg gn n by simp
    ultimately show ?thesis using r by simp
  qed
qed

lemma heap_pop_spec:
  assumes "is_heap k h" and "h \<noteq> []"
  shows "is_heap k (heap_pop k h) \<and> mset (heap_pop k h) = mset h - {#hd h#}"
proof -
  have "heap_pop k h = heap_remove k h 0"
  proof (cases "length h - 1 = 0")
    case True
    then show ?thesis by (subst heap_pop_def, subst sift_down.simps) (simp add: heap_remove_def swap_def)
  next
    case False
    obtain h' i' where sd: "sift_down k (swap h 0 (length h - 1)) (length h - 1) 0 = (h', i')" by fastforce
    have "sift_up k h' 0 = h'" by (subst sift_up.simps) (simp add: parent_def)
    with False sd show ?thesis by (auto simp: heap_pop_def heap_remove_def)
  qed
  with heap_remove_spec [OF assms(1), of 0] assms(2) show ?thesis by (simp add: hd_conv_nth)
qed

lemma heap_head_least: "is_heap k h \<Longrightarrow> x \<in> set h \<Longrightarrow> k (hd h) \<le> k x"
proof -
  assume h: "is_heap k h" and "x \<in> set h"
  then obtain j where "j < length h" "x = h ! j" by (auto simp: in_set_conv_nth)
  moreover have "k (h ! 0) \<le> k (h ! j)" if "j < length h" for j
    using that
  proof (induction j rule: less_induct)
    case (less j)
    show ?case
    proof (cases "j = 0")
      case False
      with parent_less [of j] less h show ?thesis by (fastforce simp: heap_upto_def)
    qed simp
  qed
  ultimately show ?thesis by (metis gr_implies_not0 hd_conv_nth list.size(3))
qed

end
