(* ===== verification/Backend.thy ===== *)
theory Backend
  imports MinHeap "HOL-Library.Char_ord" "HOL-Library.List_Lexorder"
begin

text \<open>
  The cluster backend: keys (\<^verbatim>\<open>lib/backend/key.go\<close>), items, and the in-memory backend of
  \<^verbatim>\<open>lib/backend/memory/memory.go\<close>, whose operations run under its mutex and are therefore
  atomic steps on its state. The B-tree, ordered by the text of the key, is
  the list of its items in that order; the expiry heap is the array heap of \<^verbatim>\<open>MinHeap\<close>. Every operation takes the current
  time and first removes what has expired. A revision, fresh from \<^verbatim>\<open>uuid.NewString\<close>, is an argument.

  The locale \<open>kv_backend\<close> states what a client of \<^verbatim>\<open>backend.Backend\<close> relies on; the in-memory
  backend is shown to satisfy it.
\<close>

section \<open>Keys (key.go)\<close>

record key =
  key_s :: string
  key_components :: "string list"
  key_exact :: bool
  key_no_end :: bool

definition zero_key :: key where
  "zero_key = \<lparr>key_s = [], key_components = [], key_exact = False, key_no_end = False\<rparr>"

definition new_key :: "string list \<Rightarrow> key" where
  "new_key comps =
     (if comps = [] then zero_key
      else let s = ''/'' @ join_with ''/'' comps in
        \<lparr>key_s = s, key_components = comps, key_exact = (last s = CHR ''/''), key_no_end = False\<rparr>)"

definition exact_key :: "string list \<Rightarrow> key" where
  "exact_key comps =
     \<lparr>key_s = ''/'' @ join_with ''/'' (comps @ [[]]), key_components = comps @ [[]],
      key_exact = True, key_no_end = False\<rparr>"

definition no_end :: string where "no_end = [CHR 0x00]"

definition key_from_string :: "string \<Rightarrow> key" where
  "key_from_string s =
     (let cs = split_on (CHR ''/'') s;
          cs' = (if hd cs = [] \<and> 1 < length cs then tl cs else cs) in
      \<lparr>key_s = s, key_components = cs', key_exact = (s = ''/'' \<or> s \<noteq> [] \<and> last s = CHR ''/''),
       key_no_end = (s = no_end)\<rparr>)"

definition key_is_zero :: "key \<Rightarrow> bool" where
  "key_is_zero k \<longleftrightarrow> key_components k = [] \<and> key_s k = []"

definition key_to_exact :: "key \<Rightarrow> key" where
  "key_to_exact k = (if key_exact k then k else exact_key (key_components k))"

definition key_string :: "key \<Rightarrow> string" where
  "key_string k = (if key_no_end k then no_end else key_s k)"

definition key_has_prefix :: "key \<Rightarrow> key \<Rightarrow> bool" where
  "key_has_prefix k p \<longleftrightarrow> starts_with (key_s p) (key_s k)"

definition key_trim_prefix :: "key \<Rightarrow> key \<Rightarrow> key" where
  "key_trim_prefix k p =
     (let s = (if starts_with (key_s p) (key_s k) then drop (length (key_s p)) (key_s k) else key_s k)
      in if s = [] then zero_key else key_from_string s)"

definition key_append :: "key \<Rightarrow> key \<Rightarrow> key" where
  "key_append k p =
     (if key_is_zero k then p
      else let cs = key_components k @ key_components p in
        \<lparr>key_s = (if starts_with ''/'' (key_s k) then ''/'' @ join_with ''/'' cs else join_with ''/'' cs),
         key_components = cs, key_exact = False, key_no_end = False\<rparr>)"

definition key_prepend :: "key \<Rightarrow> key \<Rightarrow> key" where
  "key_prepend k p =
     (if key_is_zero p then k
      else let cs = key_components p @ key_components k in
        \<lparr>key_s = (if starts_with ''/'' (key_s p) then ''/'' @ join_with ''/'' cs else join_with ''/'' cs),
         key_components = cs, key_exact = False, key_no_end = False\<rparr>)"

definition key_cut_prefix :: "key \<Rightarrow> key \<Rightarrow> key \<times> bool" where
  "key_cut_prefix k p =
     (if \<not> starts_with (key_s p) (key_s k) then (k, False)
      else let s = drop (length (key_s p)) (key_s k) in
        (if s = [] then zero_key else key_from_string s, True))"

definition key_has_suffix :: "key \<Rightarrow> key \<Rightarrow> bool" where
  "key_has_suffix k p \<longleftrightarrow> ends_with (key_s p) (key_s k)"

definition key_trim_suffix :: "key \<Rightarrow> key \<Rightarrow> key" where
  "key_trim_suffix k p =
     (let s = trim_suffix (key_s p) (key_s k) in if s = [] then zero_key else key_from_string s)"

lemma split_join:
  "cs \<noteq> [] \<Longrightarrow> \<forall>w \<in> set cs. c \<notin> set w \<Longrightarrow> split_on c (join_with [c] cs) = cs"
proof (induction "[c]" cs rule: join_with.induct)
  case (2 w)
  have "c \<notin> set v \<Longrightarrow> split_on c v = [v]" for v by (induction v) auto
  with 2 show ?case by simp
next
  case (3 w v vs)
  have "c \<notin> set u \<Longrightarrow> split_on c (u @ c # r) = u # split_on c r" for u r
    by (induction u) auto
  with 3 show ?case by simp
qed simp

section \<open>Items and events\<close>

record item =
  it_key :: key
  it_value :: string
  it_expires :: "int option"
  it_revision :: string

datatype event_type = OpPut | OpDelete

record event =
  ev_type :: event_type
  ev_item :: item

definition live :: "int \<Rightarrow> item \<Rightarrow> bool" where
  "live now it = (case it_expires it of None \<Rightarrow> True | Some e \<Rightarrow> now < e)"

definition expiry_sec :: "item \<Rightarrow> int" where
  "expiry_sec it = (case it_expires it of None \<Rightarrow> - 62135596800 | Some e \<Rightarrow> unix e)"

abbreviation ks :: "item \<Rightarrow> string" where
  "ks it \<equiv> key_s (it_key it)"

text \<open>\<^verbatim>\<open>backend.Expiry\<close>: a zero TTL is no expiry.\<close>

definition expiry :: "int \<Rightarrow> int \<Rightarrow> int option" where
  "expiry now ttl = (if ttl = 0 then None else Some (now + ttl))"

section \<open>The ordered tree (item.go)\<close>

text \<open>\<^verbatim>\<open>Get\<close>, \<^verbatim>\<open>ReplaceOrInsert\<close> and \<^verbatim>\<open>Delete\<close> of the B-tree ordered by \<^verbatim>\<open>Key.Compare\<close>.\<close>

definition tree_get :: "string \<Rightarrow> item list \<Rightarrow> item option" where
  "tree_get k t = find (\<lambda>x. ks x = k) t"

fun tree_put :: "item \<Rightarrow> item list \<Rightarrow> item list" where
  "tree_put x [] = [x]"
| "tree_put x (y # t) =
     (if ks x = ks y then x # t else if ks x < ks y then x # y # t else y # tree_put x t)"

definition tree_del :: "string \<Rightarrow> item list \<Rightarrow> item list" where
  "tree_del k t = filter (\<lambda>x. ks x \<noteq> k) t"

abbreviation ordered :: "item list \<Rightarrow> bool" where
  "ordered t \<equiv> sorted_wrt (<) (map ks t)"

section \<open>The in-memory backend (memory.go)\<close>

record memory =
  mem_tree :: "item list"
  mem_heap :: "item list"
  mem_mirror :: bool
  mem_events_off :: bool
  mem_buf :: "event list"

abbreviation mem_get_item :: "memory \<Rightarrow> string \<Rightarrow> item option" where
  "mem_get_item m k \<equiv> tree_get k (mem_tree m)"

definition new_memory :: memory where
  "new_memory = \<lparr>mem_tree = [], mem_heap = [], mem_mirror = False, mem_events_off = False,
     mem_buf = []\<rparr>"

definition emit :: "event \<Rightarrow> memory \<Rightarrow> memory" where
  "emit ev m = (if mem_events_off m then m else m\<lparr>mem_buf := mem_buf m @ [ev]\<rparr>)"

text \<open>The position an item keeps in its \<^verbatim>\<open>index\<close> field.\<close>

fun heap_index :: "string \<Rightarrow> item list \<Rightarrow> nat option" where
  "heap_index k [] = None"
| "heap_index k (x # h) = (if ks x = k then Some 0 else map_option Suc (heap_index k h))"

definition heap_drop :: "string \<Rightarrow> item list \<Rightarrow> item list" where
  "heap_drop k h = (case heap_index k h of None \<Rightarrow> h | Some i \<Rightarrow> heap_remove expiry_sec h i)"

definition process_put :: "item \<Rightarrow> memory \<Rightarrow> memory" where
  "process_put it m =
     (let h = (if mem_get_item m (ks it) = None then mem_heap m else heap_drop (ks it) (mem_heap m));
          h' = (if it_expires it = None then h else heap_push expiry_sec h it)
      in m\<lparr>mem_heap := h', mem_tree := tree_put it (mem_tree m)\<rparr>)"

definition process_delete :: "string \<Rightarrow> memory \<Rightarrow> memory" where
  "process_delete k m =
     (if mem_get_item m k = None then m
      else m\<lparr>mem_tree := tree_del k (mem_tree m), mem_heap := heap_drop k (mem_heap m)\<rparr>)"

definition delete_event :: "key \<Rightarrow> event" where
  "delete_event k = \<lparr>ev_type = OpDelete,
     ev_item = \<lparr>it_key = k, it_value = [], it_expires = None, it_revision = []\<rparr>\<rparr>"

lemma length_heap_pop [simp]: "length (heap_pop k h) = length h - 1"
  by (simp add: heap_pop_def Let_def)

function expire_loop :: "int \<Rightarrow> memory \<Rightarrow> memory" where
  "expire_loop now m =
     (case mem_heap m of
        [] \<Rightarrow> m
      | x # _ \<Rightarrow>
          if it_expires x \<noteq> None \<and> live now x then m
          else expire_loop now (emit (delete_event (it_key x))
                 (m\<lparr>mem_heap := heap_pop expiry_sec (mem_heap m), mem_tree := tree_del (ks x) (mem_tree m)\<rparr>)))"
  by pat_completeness auto
termination
  by (relation "measure (\<lambda>(now, m). length (mem_heap m))") (auto simp: emit_def)

declare expire_loop.simps [simp del]

definition remove_expired :: "int \<Rightarrow> memory \<Rightarrow> memory" where
  "remove_expired now m = (if mem_mirror m then m else expire_loop now m)"

text \<open>Storing an item: the event, the tree and the heap.\<close>

definition store :: "item \<Rightarrow> memory \<Rightarrow> memory" where
  "store it m = emit \<lparr>ev_type = OpPut, ev_item = it\<rparr> (process_put it m)"

definition next_revision :: "memory \<Rightarrow> string \<Rightarrow> item \<Rightarrow> item" where
  "next_revision m rv it = (if mem_mirror m then it else it\<lparr>it_revision := rv\<rparr>)"

definition missing_key :: err where "missing_key = Err BadParameter ''missing parameter key''"
definition key_not_found :: err where "key_not_found = Err NotFound ''key is not found''"
definition incorrect_revision :: err where
  "incorrect_revision = Err CompareFailed ''resource revision does not match''"

definition mem_create :: "int \<Rightarrow> string \<Rightarrow> item \<Rightarrow> memory \<Rightarrow> item result \<times> memory" where
  "mem_create now rv it m =
     (if key_is_zero (it_key it) then (Inl missing_key, m)
      else let m1 = remove_expired now m in
        if mem_get_item m1 (ks it) \<noteq> None then (Inl (Err AlreadyExists ''key already exists''), m1)
        else let it' = it\<lparr>it_revision := rv\<rparr> in (Inr it', store it' m1))"

definition mem_get :: "int \<Rightarrow> key \<Rightarrow> memory \<Rightarrow> item result \<times> memory" where
  "mem_get now k m =
     (if key_is_zero k then (Inl missing_key, m)
      else let m1 = remove_expired now m in
        case mem_get_item m1 (key_s k) of None \<Rightarrow> (Inl key_not_found, m1) | Some it \<Rightarrow> (Inr it, m1))"

definition mem_update :: "int \<Rightarrow> string \<Rightarrow> item \<Rightarrow> memory \<Rightarrow> item result \<times> memory" where
  "mem_update now rv it m =
     (if key_is_zero (it_key it) then (Inl missing_key, m)
      else let m1 = remove_expired now m in
        if mem_get_item m1 (ks it) = None then (Inl key_not_found, m1)
        else let it' = next_revision m1 rv it in (Inr it', store it' m1))"

definition mem_put :: "int \<Rightarrow> string \<Rightarrow> item \<Rightarrow> memory \<Rightarrow> item result \<times> memory" where
  "mem_put now rv it m =
     (if key_is_zero (it_key it) then (Inl missing_key, m)
      else let m1 = remove_expired now m; it' = next_revision m1 rv it in (Inr it', store it' m1))"

definition mem_delete :: "int \<Rightarrow> key \<Rightarrow> memory \<Rightarrow> unit result \<times> memory" where
  "mem_delete now k m =
     (if key_is_zero k then (Inl missing_key, m)
      else let m1 = remove_expired now m in
        if mem_get_item m1 (key_s k) = None then (Inl key_not_found, m1)
        else (Inr (), emit (delete_event k) (process_delete (key_s k) m1)))"

definition mem_keep_alive :: "int \<Rightarrow> string \<Rightarrow> key \<Rightarrow> int option \<Rightarrow> memory \<Rightarrow> unit result \<times> memory" where
  "mem_keep_alive now rv k expires m =
     (if key_is_zero k then (Inl missing_key, m)
      else let m1 = remove_expired now m in
        case mem_get_item m1 (key_s k) of
          None \<Rightarrow> (Inl key_not_found, m1)
        | Some it \<Rightarrow> (Inr (), store (next_revision m1 rv (it\<lparr>it_expires := expires\<rparr>)) m1))"

definition mem_compare_and_swap ::
  "int \<Rightarrow> string \<Rightarrow> item \<Rightarrow> item \<Rightarrow> memory \<Rightarrow> item result \<times> memory" where
  "mem_compare_and_swap now rv expected replacement m =
     (if key_is_zero (it_key expected) \<or> key_is_zero (it_key replacement) then (Inl missing_key, m)
      else if ks expected \<noteq> ks replacement
      then (Inl (Err BadParameter ''expected and replaceWith keys should match''), m)
      else let m1 = remove_expired now m in
        case mem_get_item m1 (ks expected) of
          None \<Rightarrow> (Inl (Err CompareFailed ''key is not found''), m1)
        | Some it \<Rightarrow>
            if it_value it \<noteq> it_value expected
            then (Inl (Err CompareFailed ''current value does not match expected''), m1)
            else let it' = next_revision m1 rv replacement in (Inr it', store it' m1))"

definition mem_conditional_delete :: "int \<Rightarrow> key \<Rightarrow> string \<Rightarrow> memory \<Rightarrow> unit result \<times> memory" where
  "mem_conditional_delete now k rv m =
     (if key_is_zero k \<or> rv = [] \<and> \<not> mem_mirror m then (Inl incorrect_revision, m)
      else let m1 = remove_expired now m in
        case mem_get_item m1 (key_s k) of
          None \<Rightarrow> (Inl incorrect_revision, m1)
        | Some it \<Rightarrow>
            if it_revision it \<noteq> rv then (Inl incorrect_revision, m1)
            else (Inr (), emit (delete_event k) (process_delete (key_s k) m1)))"

definition mem_conditional_update :: "int \<Rightarrow> string \<Rightarrow> item \<Rightarrow> memory \<Rightarrow> item result \<times> memory" where
  "mem_conditional_update now rv it m =
     (if key_is_zero (it_key it) \<or> it_revision it = [] \<and> \<not> mem_mirror m then (Inl incorrect_revision, m)
      else let m1 = remove_expired now m in
        case mem_get_item m1 (ks it) of
          None \<Rightarrow> (Inl incorrect_revision, m1)
        | Some old \<Rightarrow>
            if it_revision old \<noteq> it_revision it then (Inl incorrect_revision, m1)
            else let it' = next_revision m1 rv it in (Inr it', store it' m1))"

section \<open>The tree and the heap hold the same items\<close>

lemma tree_get_put [simp]: "tree_get k (tree_put x t) = (if k = ks x then Some x else tree_get k t)"
  by (induction t) (auto simp: tree_get_def)

lemma tree_get_del [simp]: "tree_get k (tree_del k' t) = (if k = k' then None else tree_get k t)"
  by (induction t) (auto simp: tree_get_def tree_del_def)

lemma tree_get_Some: "tree_get k t = Some x \<Longrightarrow> x \<in> set t \<and> ks x = k"
  by (induction t) (auto simp: tree_get_def split: if_split_asm)

lemma tree_get_None: "tree_get k t = None \<longleftrightarrow> k \<notin> ks ` set t"
  by (auto simp: tree_get_def find_None_iff)

lemma tree_get_mem: "ordered t \<Longrightarrow> x \<in> set t \<Longrightarrow> tree_get (ks x) t = Some x"
  by (induction t) (auto simp: tree_get_def)

lemma set_tree_put: "set (tree_put x t) \<subseteq> insert x (set t)"
  by (induction t) auto

lemma ordered_put: "ordered t \<Longrightarrow> ordered (tree_put x t)"
proof (induction t)
  case (Cons y t)
  from Cons show ?case using set_tree_put [of x t] by (auto simp: not_less_iff_gr_or_eq intro: order.strict_trans)
qed simp

lemma ordered_del: "ordered t \<Longrightarrow> ordered (tree_del k t)"
  by (induction t) (auto simp: tree_del_def)

lemma ordered_distinct: "ordered t \<Longrightarrow> distinct (map ks t)"
  by (simp add: strict_sorted_iff)

lemma tree_del_absent: "k \<notin> ks ` set t \<Longrightarrow> tree_del k t = t"
  by (auto simp: tree_del_def filter_id_conv)

lemma mset_tree_put: "ordered t \<Longrightarrow> mset (tree_put x t) = add_mset x (mset (tree_del (ks x) t))"
proof (induction t)
  case (Cons y t)
  from Cons.prems have "tree_del (ks x) t = t" if "ks x \<le> ks y" using that
    by (intro tree_del_absent) auto
  with Cons show ?case by (auto simp: tree_del_def simp del: mset_filter)
qed (simp add: tree_del_def)

lemma heap_index_Some: "heap_index k h = Some i \<Longrightarrow> i < length h \<and> ks (h ! i) = k"
  by (induction h arbitrary: i) (auto split: if_split_asm)

lemma heap_index_None: "heap_index k h = None \<longleftrightarrow> k \<notin> ks ` set h"
  by (induction h) auto

lemma remove_key_mset:
  assumes "distinct (map ks h)" and "i < length h" and "ks (h ! i) = k"
  shows "mset h - {#h ! i#} = filter_mset (\<lambda>x. ks x \<noteq> k) (mset h)"
proof -
  define x where "x = h ! i"
  from id_take_nth_drop [OF assms(2)] obtain a b where h: "h = a @ x # b" by (auto simp: x_def)
  from assms(3) have kx: "ks x = k" by (simp add: x_def)
  with assms(1) have "k \<notin> ks ` set a" "k \<notin> ks ` set b" by (auto simp: h)
  then have f: "filter (\<lambda>x. ks x \<noteq> k) a = a" "filter (\<lambda>x. ks x \<noteq> k) b = b"
    by (auto simp: filter_id_conv)
  have "filter_mset (\<lambda>x. ks x \<noteq> k) (mset h) = mset (filter (\<lambda>x. ks x \<noteq> k) h)" by simp
  also have "filter (\<lambda>x. ks x \<noteq> k) h = a @ b" using f kx by (simp add: h)
  finally show ?thesis unfolding x_def [symmetric] by (simp add: h)
qed

lemma heap_drop_spec:
  assumes "is_heap expiry_sec h" and "distinct (map ks h)"
  shows "is_heap expiry_sec (heap_drop k h)"
    and "mset (heap_drop k h) = filter_mset (\<lambda>x. ks x \<noteq> k) (mset h)"
proof -
  have "is_heap expiry_sec (heap_drop k h) \<and>
      mset (heap_drop k h) = filter_mset (\<lambda>x. ks x \<noteq> k) (mset h)"
  proof (cases "heap_index k h")
    case None
    then have "filter (\<lambda>x. ks x \<noteq> k) h = h" by (auto simp: heap_index_None filter_id_conv)
    with None assms(1) show ?thesis by (simp add: heap_drop_def flip: mset_filter)
  next
    case (Some i)
    from heap_index_Some [OF Some] have "i < length h" "ks (h ! i) = k" by auto
    with heap_remove_spec [OF assms(1)] remove_key_mset [OF assms(2)] Some show ?thesis
      by (simp add: heap_drop_def)
  qed
  then show "is_heap expiry_sec (heap_drop k h)"
    and "mset (heap_drop k h) = filter_mset (\<lambda>x. ks x \<noteq> k) (mset h)" by auto
qed

definition expiring :: "item \<Rightarrow> bool" where
  "expiring x \<longleftrightarrow> it_expires x \<noteq> None"

definition mem_inv :: "memory \<Rightarrow> bool" where
  "mem_inv m \<longleftrightarrow> ordered (mem_tree m) \<and> is_heap expiry_sec (mem_heap m) \<and>
     mset (mem_heap m) = mset (filter expiring (mem_tree m))"

lemma mem_inv_heap_keys: "mem_inv m \<Longrightarrow> distinct (map ks (mem_heap m))"
proof -
  assume "mem_inv m"
  then have "mset (map ks (mem_heap m)) = mset (map ks (filter expiring (mem_tree m)))"
    and "distinct (map ks (filter expiring (mem_tree m)))"
    using ordered_distinct by (auto simp: mem_inv_def mset_map simp del: mset_filter intro: distinct_map_filter)
  then show ?thesis by (metis mset_eq_imp_distinct_iff)
qed

lemma mem_inv_set_heap: "mem_inv m \<Longrightarrow> set (mem_heap m) = {x \<in> set (mem_tree m). expiring x}"
  unfolding mem_inv_def by (metis set_filter set_mset_mset)

lemma mset_expiring_del:
  "mset (filter expiring (tree_del k t)) = filter_mset (\<lambda>x. ks x \<noteq> k) (mset (filter expiring t))"
  by (simp add: tree_del_def filter_filter_mset conj_commute)

lemma mem_inv_new: "mem_inv new_memory"
  by (simp add: mem_inv_def new_memory_def heap_upto_def)

lemma emit_simps [simp]:
  "mem_tree (emit ev m) = mem_tree m" "mem_heap (emit ev m) = mem_heap m"
  "mem_mirror (emit ev m) = mem_mirror m" "mem_events_off (emit ev m) = mem_events_off m"
  by (simp_all add: emit_def)

lemma mem_inv_emit [simp]: "mem_inv (emit ev m) = mem_inv m"
  by (simp add: mem_inv_def)

lemma process_delete_inv:
  assumes "mem_inv m" shows "mem_inv (process_delete k m)"
proof -
  note h = heap_drop_spec [of "mem_heap m" k, OF _ mem_inv_heap_keys [OF assms]]
  from assms h show ?thesis
    unfolding process_delete_def mem_inv_def
    by (simp add: ordered_del mset_expiring_del del: mset_filter)
qed

lemma process_put_inv:
  assumes "mem_inv m" shows "mem_inv (process_put x m)"
proof -
  let ?h = "if mem_get_item m (ks x) = None then mem_heap m else heap_drop (ks x) (mem_heap m)"
  have t: "ordered (mem_tree m)" and hp: "is_heap expiry_sec (mem_heap m)"
    and ms: "mset (mem_heap m) = mset (filter expiring (mem_tree m))"
    using assms by (auto simp: mem_inv_def)
  note h = heap_drop_spec [OF hp mem_inv_heap_keys [OF assms], of "ks x"]
  have "is_heap expiry_sec ?h \<and> mset ?h = mset (filter expiring (tree_del (ks x) (mem_tree m)))"
    using h hp ms tree_get_None [of "ks x" "mem_tree m"]
    by (cases "mem_get_item m (ks x)") (auto simp: tree_del_absent simp flip: mset_expiring_del simp del: mset_filter)
  moreover have "mset (filter expiring (tree_put x (mem_tree m))) =
      (if expiring x then {#x#} else {#}) + mset (filter expiring (tree_del (ks x) (mem_tree m)))"
    using mset_tree_put [OF t, of x] by simp
  ultimately show ?thesis
    using ordered_put [OF t] heap_push_spec [of expiry_sec ?h x]
    by (auto simp: process_put_def mem_inv_def Let_def expiring_def)
qed

lemma store_inv: "mem_inv m \<Longrightarrow> mem_inv (store x m)"
  by (simp add: store_def process_put_inv)

lemma store_get [simp]: "mem_get_item (store x m) k = (if k = ks x then Some x else mem_get_item m k)"
  by (simp add: store_def process_put_def Let_def)

lemma process_delete_get [simp]:
  "mem_get_item (process_delete k' m) k = (if k = k' then None else mem_get_item m k)"
  by (simp add: process_delete_def)

lemma mirror_simps [simp]:
  "mem_mirror (store x m) = mem_mirror m" "mem_mirror (process_delete k m) = mem_mirror m"
  by (simp_all add: store_def process_put_def process_delete_def Let_def)

section \<open>Expiry\<close>

text \<open>What one pass of the expiry loop does: the invariant is kept, an item goes only when its time
  has come, and what is left on the heap expires no earlier than the current second.\<close>

definition expired_at :: "int \<Rightarrow> item \<Rightarrow> bool" where
  "expired_at now x \<longleftrightarrow> (\<exists>e. it_expires x = Some e \<and> e \<le> now)"

lemma not_live: "\<not> live now x \<longleftrightarrow> expired_at now x"
  by (auto simp: live_def expired_at_def split: option.splits)

lemma expire_step_inv:
  assumes "mem_inv m" and h: "mem_heap m = x # h"
  shows "mem_inv (m\<lparr>mem_heap := heap_pop expiry_sec (x # h), mem_tree := tree_del (ks x) (mem_tree m)\<rparr>)"
proof -
  have d: "distinct (map ks (x # h))" using mem_inv_heap_keys [OF assms(1)] h by simp
  from assms heap_pop_spec [of expiry_sec "x # h"] remove_key_mset [OF d, of 0 "ks x"]
  show ?thesis by (simp add: mem_inv_def ordered_del mset_expiring_del del: mset_filter)
qed

lemma expire_loop_spec:
  assumes "mem_inv m"
  shows "mem_inv (expire_loop now m)
    \<and> (\<forall>k. mem_get_item (expire_loop now m) k = mem_get_item m k
         \<or> mem_get_item (expire_loop now m) k = None \<and> (\<exists>x. mem_get_item m k = Some x \<and> expired_at now x))
    \<and> (\<forall>x \<in> set (mem_heap (expire_loop now m)). unix now \<le> expiry_sec x)
    \<and> mem_mirror (expire_loop now m) = mem_mirror m"
  using assms
proof (induction now m rule: expire_loop.induct)
  case (1 now m)
  show ?case
  proof (cases "mem_heap m")
    case Nil
    with "1.prems" show ?thesis by (subst (1 2 3 4 5) expire_loop.simps) simp
  next
    case (Cons x h)
    from Cons "1.prems" have "x \<in> set (mem_tree m)" "expiring x"
      using mem_inv_set_heap [OF "1.prems"] by auto
    then have mx: "mem_get_item m (ks x) = Some x"
      using "1.prems" by (simp add: mem_inv_def tree_get_mem)
    let ?m = "emit (delete_event (it_key x))
      (m\<lparr>mem_heap := heap_pop expiry_sec (mem_heap m), mem_tree := tree_del (ks x) (mem_tree m)\<rparr>)"
    show ?thesis
    proof (cases "live now x")
      case True
      then have e: "expire_loop now m = m"
        using Cons \<open>expiring x\<close> by (subst expire_loop.simps) (simp add: expiring_def)
      have "unix now \<le> expiry_sec x"
        using True \<open>expiring x\<close> by (auto simp: live_def expiry_sec_def expiring_def intro!: unix_mono)
      then have "\<forall>y \<in> set (mem_heap m). unix now \<le> expiry_sec y"
        using heap_head_least [of expiry_sec "mem_heap m"] "1.prems" Cons
        by (fastforce simp: mem_inv_def)
      with e "1.prems" show ?thesis by simp
    next
      case False
      then have e: "expire_loop now m = expire_loop now ?m"
        using Cons by (subst expire_loop.simps) simp
      have inv: "mem_inv ?m" using expire_step_inv [OF "1.prems" Cons] Cons by simp
      note IH = "1.IH" [OF Cons _ inv]
      have "mem_get_item ?m k = mem_get_item m k
        \<or> mem_get_item ?m k = None \<and> (\<exists>x. mem_get_item m k = Some x \<and> expired_at now x)" for k
        using False mx by (simp add: not_live)
      with IH False show ?thesis unfolding e by (simp; metis)
    qed
  qed
qed

lemma remove_expired_inv: "mem_inv m \<Longrightarrow> mem_inv (remove_expired now m)"
  using expire_loop_spec [of m now] by (simp add: remove_expired_def)

lemma remove_expired_mirror [simp]: "mem_inv m \<Longrightarrow> mem_mirror (remove_expired now m) = mem_mirror m"
  using expire_loop_spec [of m now] by (simp add: remove_expired_def)

lemma remove_expired_only:
  "mem_inv m \<Longrightarrow> mem_get_item (remove_expired now m) k = Some x \<Longrightarrow> mem_get_item m k = Some x"
  using expire_loop_spec [of m now] by (auto simp: remove_expired_def split: if_split_asm; metis option.distinct(1))

lemma remove_expired_live:
  "mem_inv m \<Longrightarrow> mem_get_item m k = Some x \<Longrightarrow> live now x \<Longrightarrow> mem_get_item (remove_expired now m) k = Some x"
  using expire_loop_spec [of m now] not_live [of now x]
  by (auto simp: remove_expired_def split: if_split_asm; metis option.inject)

lemma remove_expired_none:
  "mem_inv m \<Longrightarrow> mem_get_item m k = None \<Longrightarrow> mem_get_item (remove_expired now m) k = None"
  using remove_expired_only [where m = m and now = now and k = k] by (cases "mem_get_item (remove_expired now m) k") auto

lemma remove_expired_gone:
  assumes "mem_inv m" and "\<not> mem_mirror m" and "mem_get_item (remove_expired now m) k = Some x"
    and "it_expires x = Some e"
  shows "unix now \<le> unix e"
proof -
  let ?m = "remove_expired now m"
  have "x \<in> set (mem_tree ?m)" using tree_get_Some [OF assms(3)] by simp
  then have "x \<in> set (mem_heap ?m)"
    using mem_inv_set_heap [OF remove_expired_inv [OF assms(1)]] assms(4) by (simp add: expiring_def)
  with expire_loop_spec [OF assms(1)] assms(2,4) show ?thesis
    by (force simp: remove_expired_def expiry_sec_def)
qed

section \<open>The contract of backend.Backend\<close>

text \<open>
  What a client of the backend relies on, for \<^verbatim>\<open>Create\<close> and \<^verbatim>\<open>Get\<close>: an item stays while it is live,
  nothing appears that was not stored, \<^verbatim>\<open>Create\<close> fails with \<^verbatim>\<open>AlreadyExists\<close> while a live item holds
  the key and only then, and an item is gone once the second of its expiry has passed.
\<close>

definition already_exists :: err where
  "already_exists = Err AlreadyExists ''key already exists''"

locale kv_backend =
  fixes create :: "int \<Rightarrow> string \<Rightarrow> item \<Rightarrow> 'm \<Rightarrow> item result \<times> 'm"
    and get :: "int \<Rightarrow> key \<Rightarrow> 'm \<Rightarrow> item result \<times> 'm"
    and view :: "'m \<Rightarrow> string \<Rightarrow> item option"
    and inv :: "'m \<Rightarrow> bool"
  assumes create_inv: "inv m \<Longrightarrow> create now rv it m = (r, m') \<Longrightarrow> inv m'"
    and create_ok: "inv m \<Longrightarrow> create now rv it m = (Inr x, m') \<Longrightarrow>
      x = it\<lparr>it_revision := rv\<rparr> \<and> view m' (ks it) = Some x"
    and create_free: "inv m \<Longrightarrow> \<not> key_is_zero (it_key it) \<Longrightarrow> view m (ks it) = None \<Longrightarrow>
      create now rv it m = (r, m') \<Longrightarrow> r = Inr (it\<lparr>it_revision := rv\<rparr>)"
    and create_taken: "inv m \<Longrightarrow> \<not> key_is_zero (it_key it) \<Longrightarrow> view m (ks it) = Some x \<Longrightarrow> live now x \<Longrightarrow>
      create now rv it m = (r, m') \<Longrightarrow> r = Inl already_exists"
    and create_err: "inv m \<Longrightarrow> create now rv it m = (Inl er, m') \<Longrightarrow> \<not> key_is_zero (it_key it) \<Longrightarrow>
      er = already_exists \<and> (\<exists>x. view m (ks it) = Some x)"
    and create_keeps: "inv m \<Longrightarrow> create now rv it m = (r, m') \<Longrightarrow> view m s = Some x \<Longrightarrow> live now x \<Longrightarrow>
      is_err r \<or> s \<noteq> ks it \<Longrightarrow> view m' s = Some x"
    and create_adds_one: "inv m \<Longrightarrow> create now rv it m = (r, m') \<Longrightarrow> view m' s = Some x \<Longrightarrow>
      is_err r \<or> s \<noteq> ks it \<Longrightarrow> view m s = Some x"
    and get_inv: "inv m \<Longrightarrow> get now k m = (r, m') \<Longrightarrow> inv m'"
    and get_sound: "inv m \<Longrightarrow> get now k m = (Inr x, m') \<Longrightarrow> view m (key_s k) = Some x"
    and get_live: "inv m \<Longrightarrow> \<not> key_is_zero k \<Longrightarrow> view m (key_s k) = Some x \<Longrightarrow> live now x \<Longrightarrow>
      get now k m = (r, m') \<Longrightarrow> r = Inr x"
    and get_gone: "inv m \<Longrightarrow> get now k m = (Inr x, m') \<Longrightarrow> it_expires x = Some e \<Longrightarrow> unix now \<le> unix e"
    and get_keeps: "inv m \<Longrightarrow> get now k m = (r, m') \<Longrightarrow> view m s = Some x \<Longrightarrow> live now x \<Longrightarrow> view m' s = Some x"
    and get_adds_none: "inv m \<Longrightarrow> get now k m = (r, m') \<Longrightarrow> view m' s = Some x \<Longrightarrow> view m s = Some x"

text \<open>The backend of the Auth Service is not a mirror.\<close>

definition mem_auth :: "memory \<Rightarrow> bool" where
  "mem_auth m \<longleftrightarrow> mem_inv m \<and> \<not> mem_mirror m"

lemma mem_create_cases:
  obtains (zero) "key_is_zero (it_key it)" "mem_create now rv it m = (Inl missing_key, m)"
  | (taken) x where "\<not> key_is_zero (it_key it)" "mem_get_item (remove_expired now m) (ks it) = Some x"
      "mem_create now rv it m = (Inl already_exists, remove_expired now m)"
  | (free) "\<not> key_is_zero (it_key it)" "mem_get_item (remove_expired now m) (ks it) = None"
      "mem_create now rv it m =
         (Inr (it\<lparr>it_revision := rv\<rparr>), store (it\<lparr>it_revision := rv\<rparr>) (remove_expired now m))"
  by (cases "key_is_zero (it_key it)"; cases "mem_get_item (remove_expired now m) (ks it)")
     (auto simp: mem_create_def already_exists_def Let_def)

lemma mem_get_cases:
  obtains (zero) "key_is_zero k" "mem_get now k m = (Inl missing_key, m)"
  | (missing) "\<not> key_is_zero k" "mem_get_item (remove_expired now m) (key_s k) = None"
      "mem_get now k m = (Inl key_not_found, remove_expired now m)"
  | (found) x where "\<not> key_is_zero k" "mem_get_item (remove_expired now m) (key_s k) = Some x"
      "mem_get now k m = (Inr x, remove_expired now m)"
  by (cases "key_is_zero k"; cases "mem_get_item (remove_expired now m) (key_s k)")
     (auto simp: mem_get_def Let_def)

lemmas remove_expired_rules =
  remove_expired_inv remove_expired_only remove_expired_live remove_expired_none remove_expired_gone

interpretation mem: kv_backend mem_create mem_get mem_get_item mem_auth
proof
  fix m now rv it r m' x s er
  assume i: "mem_auth m"
  then have inv: "mem_inv m" "\<not> mem_mirror m" by (auto simp: mem_auth_def)
  note mr = remove_expired_rules [OF inv(1)] and aux = mem_auth_def store_inv inv remove_expired_inv
  {
    assume "mem_create now rv it m = (r, m')"
    then show "mem_auth m'"
      using i by (cases rule: mem_create_cases [of it now rv m]) (auto simp: aux dest: mr(2-))
  next
    assume "mem_create now rv it m = (Inr x, m')"
    then show "x = it\<lparr>it_revision := rv\<rparr> \<and> mem_get_item m' (ks it) = Some x"
      by (cases rule: mem_create_cases [of it now rv m]) auto
  next
    assume "\<not> key_is_zero (it_key it)" "mem_get_item m (ks it) = None" "mem_create now rv it m = (r, m')"
    then show "r = Inr (it\<lparr>it_revision := rv\<rparr>)"
      by (cases rule: mem_create_cases [of it now rv m]) (auto simp: aux dest: mr(2-))
  next
    assume "\<not> key_is_zero (it_key it)" "mem_get_item m (ks it) = Some x" "live now x"
      "mem_create now rv it m = (r, m')"
    then show "r = Inl already_exists"
      by (cases rule: mem_create_cases [of it now rv m]) (auto simp: aux dest: mr(2-))
  next
    assume "mem_create now rv it m = (Inl er, m')" "\<not> key_is_zero (it_key it)"
    then show "er = already_exists \<and> (\<exists>x. mem_get_item m (ks it) = Some x)"
      by (cases rule: mem_create_cases [of it now rv m]) (auto simp: aux dest: mr(2-))
  next
    assume "mem_create now rv it m = (r, m')" "mem_get_item m s = Some x" "live now x" "is_err r \<or> s \<noteq> ks it"
    then show "mem_get_item m' s = Some x"
      by (cases rule: mem_create_cases [of it now rv m]) (auto simp: aux dest: mr(2-))
  next
    assume "mem_create now rv it m = (r, m')" "mem_get_item m' s = Some x" "is_err r \<or> s \<noteq> ks it"
    then show "mem_get_item m s = Some x"
      by (cases rule: mem_create_cases [of it now rv m]) (auto simp: aux dest: mr(2-))
  }
next
  fix m now k r m' x e s
  assume i: "mem_auth m"
  then have inv: "mem_inv m" "\<not> mem_mirror m" by (auto simp: mem_auth_def)
  note mr = remove_expired_rules [OF inv(1)] and aux = mem_auth_def inv remove_expired_inv
  {
    assume "mem_get now k m = (r, m')"
    then show "mem_auth m'"
      using i by (cases rule: mem_get_cases [of k now m]) (auto simp: aux dest: mr(2-))
  next
    assume "mem_get now k m = (Inr x, m')"
    then show "mem_get_item m (key_s k) = Some x"
      by (cases rule: mem_get_cases [of k now m]) (auto simp: aux dest: mr(2-))
  next
    assume "\<not> key_is_zero k" "mem_get_item m (key_s k) = Some x" "live now x" "mem_get now k m = (r, m')"
    then show "r = Inr x"
      by (cases rule: mem_get_cases [of k now m]) (auto simp: aux dest: mr(2-))
  next
    assume "mem_get now k m = (Inr x, m')" "it_expires x = Some e"
    then show "unix now \<le> unix e"
      by (cases rule: mem_get_cases [of k now m]) (auto intro: mr(5) [OF inv(2)])
  next
    assume "mem_get now k m = (r, m')" "mem_get_item m s = Some x" "live now x"
    then show "mem_get_item m' s = Some x"
      by (cases rule: mem_get_cases [of k now m]) (auto simp: aux dest: mr(2-))
  next
    assume "mem_get now k m = (r, m')" "mem_get_item m' s = Some x"
    then show "mem_get_item m s = Some x"
      by (cases rule: mem_get_cases [of k now m]) (auto simp: aux dest: mr(2-))
  }
qed

section \<open>The contract of the writing operations\<close>

text \<open>
  \<^verbatim>\<open>Put\<close>, \<^verbatim>\<open>ConditionalUpdate\<close> and \<^verbatim>\<open>Delete\<close>, for the clients that store resources: a write sets one key
  and nothing else, a failed one sets none, a conditional update needs the revision of the stored item.
\<close>

locale crud_backend = kv_backend +
  fixes put :: "int \<Rightarrow> string \<Rightarrow> item \<Rightarrow> 'a \<Rightarrow> item result \<times> 'a"
    and update :: "int \<Rightarrow> string \<Rightarrow> item \<Rightarrow> 'a \<Rightarrow> item result \<times> 'a"
    and delete :: "int \<Rightarrow> key \<Rightarrow> 'a \<Rightarrow> unit result \<times> 'a"
  assumes put_inv: "inv m \<Longrightarrow> put now rv it m = (r, m') \<Longrightarrow> inv m'"
    and put_ok: "inv m \<Longrightarrow> put now rv it m = (Inr x, m') \<Longrightarrow>
      x = it\<lparr>it_revision := rv\<rparr> \<and> view m' (ks it) = Some x"
    and put_adds_one: "inv m \<Longrightarrow> put now rv it m = (r, m') \<Longrightarrow> view m' s = Some x \<Longrightarrow>
      is_err r \<or> s \<noteq> ks it \<Longrightarrow> view m s = Some x"
    and update_inv: "inv m \<Longrightarrow> update now rv it m = (r, m') \<Longrightarrow> inv m'"
    and update_ok: "inv m \<Longrightarrow> update now rv it m = (Inr x, m') \<Longrightarrow>
      x = it\<lparr>it_revision := rv\<rparr> \<and> view m' (ks it) = Some x \<and> it_revision it \<noteq> []
      \<and> (\<exists>old. view m (ks it) = Some old \<and> it_revision old = it_revision it)"
    and update_stale: "inv m \<Longrightarrow> view m (ks it) = Some old \<Longrightarrow> it_revision old \<noteq> it_revision it \<Longrightarrow>
      update now rv it m = (r, m') \<Longrightarrow> r = Inl incorrect_revision"
    and update_adds_one: "inv m \<Longrightarrow> update now rv it m = (r, m') \<Longrightarrow> view m' s = Some x \<Longrightarrow>
      is_err r \<or> s \<noteq> ks it \<Longrightarrow> view m s = Some x"
    and delete_inv: "inv m \<Longrightarrow> delete now k m = (d, m') \<Longrightarrow> inv m'"
    and delete_gone: "inv m \<Longrightarrow> delete now k m = (Inr u, m') \<Longrightarrow> view m' (key_s k) = None"
    and delete_adds_none: "inv m \<Longrightarrow> delete now k m = (d, m') \<Longrightarrow> view m' s = Some x \<Longrightarrow> view m s = Some x"
begin

text \<open>A predicate on the stored items that every write respects is kept.\<close>

definition holds :: "(string \<Rightarrow> item \<Rightarrow> bool) \<Rightarrow> 'a \<Rightarrow> bool" where
  "holds Q m \<longleftrightarrow> (\<forall>s x. view m s = Some x \<longrightarrow> Q s x)"

lemma write_holds:
  assumes "holds Q m" and "Q (ks it) (it\<lparr>it_revision := rv\<rparr>)"
    and "\<And>x. r = Inr x \<Longrightarrow> x = it\<lparr>it_revision := rv\<rparr> \<and> view m' (ks it) = Some x"
    and "\<And>s x. view m' s = Some x \<Longrightarrow> is_err r \<or> s \<noteq> ks it \<Longrightarrow> view m s = Some x"
  shows "holds Q m'"
  unfolding holds_def
proof (intro allI impI)
  fix s x
  assume v: "view m' s = Some x"
  show "Q s x"
  proof (cases "is_err r \<or> s \<noteq> ks it")
    case True
    with v assms(1,4) show ?thesis by (auto simp: holds_def)
  next
    case False
    then obtain y where "r = Inr y" by (cases r) (auto simp: is_err_def)
    with False v assms(2,3) show ?thesis by simp
  qed
qed

lemma create_holds:
  assumes "inv m" and "holds Q m" and "Q (ks it) (it\<lparr>it_revision := rv\<rparr>)" and "create now rv it m = (r, m')"
  shows "holds Q m'"
  by (rule write_holds [OF assms(2,3), of r]) (use assms(1,4) create_ok create_adds_one in blast)+

lemma put_holds:
  assumes "inv m" and "holds Q m" and "Q (ks it) (it\<lparr>it_revision := rv\<rparr>)" and "put now rv it m = (r, m')"
  shows "holds Q m'"
  by (rule write_holds [OF assms(2,3), of r]) (use assms(1,4) put_ok put_adds_one in blast)+

lemma update_holds:
  assumes "inv m" and "holds Q m" and "Q (ks it) (it\<lparr>it_revision := rv\<rparr>)" and "update now rv it m = (r, m')"
  shows "holds Q m'"
  by (rule write_holds [OF assms(2,3), of r]) (use assms(1,4) update_ok update_adds_one in blast)+

lemma delete_holds: "inv m \<Longrightarrow> holds Q m \<Longrightarrow> delete now k m = (d, m') \<Longrightarrow> holds Q m'"
  unfolding holds_def using delete_adds_none by blast

lemma get_holds: "inv m \<Longrightarrow> holds Q m \<Longrightarrow> get now k m = (r, m') \<Longrightarrow> holds Q m'"
  unfolding holds_def using get_adds_none by blast

end

interpretation memw: crud_backend mem_create mem_get mem_get_item mem_auth mem_put mem_conditional_update mem_delete
proof
  fix m now rv it r m' x s old
  assume i: "mem_auth m"
  then have inv: "mem_inv m" "\<not> mem_mirror m" by (auto simp: mem_auth_def)
  note mr = remove_expired_rules [OF inv(1)] and aux = mem_auth_def store_inv inv remove_expired_inv next_revision_def Let_def
  {
    assume "mem_put now rv it m = (r, m')"
    then show "mem_auth m'" using inv
      by (auto simp: mem_put_def mem_auth_def store_inv remove_expired_inv next_revision_def Let_def split: if_split_asm)
  next
    assume "mem_put now rv it m = (Inr x, m')"
    then show "x = it\<lparr>it_revision := rv\<rparr> \<and> mem_get_item m' (ks it) = Some x"
      by (auto simp: mem_put_def aux split: if_split_asm)
  next
    assume "mem_put now rv it m = (r, m')" "mem_get_item m' s = Some x" "is_err r \<or> s \<noteq> ks it"
    then show "mem_get_item m s = Some x"
      by (auto simp: mem_put_def aux split: if_split_asm dest: mr(2-))
  next
    assume "mem_conditional_update now rv it m = (r, m')"
    then show "mem_auth m'"
      using inv by (auto simp: mem_conditional_update_def mem_auth_def store_inv remove_expired_inv next_revision_def
          Let_def split: if_split_asm option.split_asm)
  next
    assume "mem_conditional_update now rv it m = (Inr x, m')"
    then show "x = it\<lparr>it_revision := rv\<rparr> \<and> mem_get_item m' (ks it) = Some x \<and> it_revision it \<noteq> []
      \<and> (\<exists>old. mem_get_item m (ks it) = Some old \<and> it_revision old = it_revision it)"
      by (auto simp: mem_conditional_update_def aux split: if_split_asm option.split_asm dest: mr(2-))
  next
    assume "mem_get_item m (ks it) = Some old" "it_revision old \<noteq> it_revision it"
      "mem_conditional_update now rv it m = (r, m')"
    then show "r = Inl incorrect_revision"
      by (auto simp: mem_conditional_update_def aux split: if_split_asm option.split_asm dest: mr(2-))
  next
    assume "mem_conditional_update now rv it m = (r, m')" "mem_get_item m' s = Some x" "is_err r \<or> s \<noteq> ks it"
    then show "mem_get_item m s = Some x"
      by (auto simp: mem_conditional_update_def aux split: if_split_asm option.split_asm dest: mr(2-))
  }
next
  fix m now k d m' x s u
  assume i: "mem_auth m"
  then have inv: "mem_inv m" "\<not> mem_mirror m" by (auto simp: mem_auth_def)
  note mr = remove_expired_rules [OF inv(1)] and aux = mem_auth_def process_delete_inv inv remove_expired_inv Let_def
  {
    assume "mem_delete now k m = (d, m')"
    then show "mem_auth m'" using inv
      by (auto simp: mem_delete_def mem_auth_def process_delete_inv remove_expired_inv Let_def split: if_split_asm)
  next
    assume "mem_delete now k m = (Inr u, m')"
    then show "mem_get_item m' (key_s k) = None" by (auto simp: mem_delete_def aux split: if_split_asm)
  next
    assume "mem_delete now k m = (d, m')" "mem_get_item m' s = Some x"
    then show "mem_get_item m s = Some x"
      by (auto simp: mem_delete_def aux split: if_split_asm dest: mr(2-))
  }
qed

section \<open>Reachable states\<close>

text \<open>The states of a backend are those its operations reach from \<^verbatim>\<open>New\<close>, at any times.\<close>

inductive mem_step :: "memory \<Rightarrow> memory \<Rightarrow> bool" where
  create: "mem_create now rv it m = (r, m') \<Longrightarrow> mem_step m m'"
| get: "mem_get now k m = (r, m') \<Longrightarrow> mem_step m m'"
| update: "mem_update now rv it m = (r, m') \<Longrightarrow> mem_step m m'"
| put: "mem_put now rv it m = (r, m') \<Longrightarrow> mem_step m m'"
| delete: "mem_delete now k m = (u, m') \<Longrightarrow> mem_step m m'"
| keep_alive: "mem_keep_alive now rv k expires m = (u, m') \<Longrightarrow> mem_step m m'"
| compare_and_swap: "mem_compare_and_swap now rv expected replacement m = (r, m') \<Longrightarrow> mem_step m m'"
| conditional_delete: "mem_conditional_delete now k rv m = (u, m') \<Longrightarrow> mem_step m m'"
| conditional_update: "mem_conditional_update now rv it m = (r, m') \<Longrightarrow> mem_step m m'"

lemma mem_step_inv: "mem_step m m' \<Longrightarrow> mem_inv m \<Longrightarrow> mem_inv m'"
proof (induction rule: mem_step.induct)
  case (create now rv it m r m')
  then show ?case by (cases rule: mem_create_cases [of it now rv m]) (auto intro: store_inv remove_expired_inv)
next
  case (get now k m r m')
  then show ?case by (cases rule: mem_get_cases [of k now m]) (auto intro: remove_expired_inv)
qed (auto simp: mem_update_def mem_put_def mem_delete_def mem_keep_alive_def mem_compare_and_swap_def
    mem_conditional_delete_def mem_conditional_update_def Let_def
    intro!: store_inv process_delete_inv remove_expired_inv split: if_split_asm option.split_asm)

lemma mem_reach_inv: "mem_step\<^sup>*\<^sup>* new_memory m \<Longrightarrow> mem_inv m"
  by (induction rule: rtranclp_induct) (auto intro: mem_inv_new mem_step_inv)


definition sample_item :: "string \<Rightarrow> int \<Rightarrow> item" where
  "sample_item k e = \<lparr>it_key = new_key [k], it_value = ''v'', it_expires = Some e, it_revision = []\<rparr>"

definition sample_memory :: memory where
  "sample_memory = snd (mem_create 0 ''r2'' (sample_item ''b'' 1200000000)
     (snd (mem_create 0 ''r1'' (sample_item ''a'' 1900000000) new_memory)))"

lemma sample_memory_reachable: "mem_step\<^sup>*\<^sup>* new_memory sample_memory"
  unfolding sample_memory_def
  by (intro rtranclp.rtrancl_into_rtrancl [OF r_into_rtranclp]; rule mem_step.create, rule surjective_pairing)

lemma sample_memory_eq:
  "sample_memory = \<lparr>mem_tree = [(sample_item ''a'' 1900000000)\<lparr>it_revision := ''r1''\<rparr>,
       (sample_item ''b'' 1200000000)\<lparr>it_revision := ''r2''\<rparr>],
     mem_heap = [(sample_item ''a'' 1900000000)\<lparr>it_revision := ''r1''\<rparr>,
       (sample_item ''b'' 1200000000)\<lparr>it_revision := ''r2''\<rparr>],
     mem_mirror = False, mem_events_off = False,
     mem_buf = [\<lparr>ev_type = OpPut, ev_item = (sample_item ''a'' 1900000000)\<lparr>it_revision := ''r1''\<rparr>\<rparr>,
       \<lparr>ev_type = OpPut, ev_item = (sample_item ''b'' 1200000000)\<lparr>it_revision := ''r2''\<rparr>\<rparr>]\<rparr>"
  by (simp add: sample_memory_def sample_item_def mem_create_def remove_expired_def expire_loop.simps
      new_memory_def new_key_def key_is_zero_def store_def process_put_def emit_def tree_get_def
      heap_push_def sift_up.simps parent_def less_at_def expiry_sec_def unix_def second_def live_def Let_def)


text \<open>
  In every reachable state of a backend that is not a mirror, \<^verbatim>\<open>Get\<close> finds an item that
  is live and returns it as stored; an item it returns is one that was stored, and its expiry is no
  earlier than the current second.
\<close>

theorem mem_get_expiry:
  assumes "mem_step\<^sup>*\<^sup>* new_memory m" and "\<not> mem_mirror m" and "\<not> key_is_zero k"
  shows "(mem_get_item m (key_s k) = Some x \<and> live now x \<longrightarrow> fst (mem_get now k m) = Inr x)
    \<and> (fst (mem_get now k m) = Inr x \<longrightarrow> mem_get_item m (key_s k) = Some x
         \<and> (\<forall>e. it_expires x = Some e \<longrightarrow> unix now \<le> unix e))"
proof -
  have a: "mem_auth m" using mem_reach_inv [OF assms(1)] assms(2) by (simp add: mem_auth_def)
  obtain r m' where g: "mem_get now k m = (r, m')" by fastforce
  show ?thesis
    unfolding g fst_conv
    using mem.get_live [OF a assms(3) _ _ g, of x] mem.get_sound [OF a, of now k x m']
      mem.get_gone [OF a, of now k x m'] g by blast
qed

lemma sample_expiry_linger:
  "fst (mem_get 1500000000 (new_key [''b'']) sample_memory) =
     Inr ((sample_item ''b'' 1200000000)\<lparr>it_revision := ''r2''\<rparr>)"
  by (simp add: sample_memory_eq sample_item_def mem_get_def remove_expired_def expire_loop.simps
      new_key_def key_is_zero_def tree_get_def live_def)

theorem mem_get_expiry_witness:
  "unix 1500000000 \<le> unix 1200000000 \<and> \<not> mem_mirror sample_memory
    \<and> fst (mem_get 1500000000 (new_key [''b'']) sample_memory) =
        Inr ((sample_item ''b'' 1200000000)\<lparr>it_revision := ''r2''\<rparr>)"
  using mem_get_expiry [OF sample_memory_reachable, of "new_key [''b'']"
      "(sample_item ''b'' 1200000000)\<lparr>it_revision := ''r2''\<rparr>" 1500000000] sample_expiry_linger
  by (simp add: sample_memory_eq new_key_def key_is_zero_def sample_item_def)

text \<open>
  The bound of whole seconds is reached. The heap orders its items by the second of their
  expiry, so the loop that removes expired items stops at a live item that shares its second with an
  expired one: here the item stored under \<^verbatim>\<open>/b\<close> expired 0.3 s ago and is still returned.
\<close>

theorem mem_expired_item_returned:
  "\<exists>m x. mem_step\<^sup>*\<^sup>* new_memory m \<and> \<not> mem_mirror m \<and> it_expires x = Some 1200000000
     \<and> fst (mem_get 1500000000 (new_key [''b'']) m) = Inr x"
  using sample_memory_reachable sample_expiry_linger
  by (intro exI [of _ sample_memory] exI) (auto simp: sample_memory_eq sample_item_def)

section \<open>Round trip of keys\<close>

text \<open>
  A key built from components that hold no separator is read back from its text: parsing
  the text gives the same key, components included, so two such keys with the same text are equal.
\<close>

theorem key_roundtrip:
  assumes "cs \<noteq> []" and "\<forall>w \<in> set cs. CHR ''/'' \<notin> set w"
  shows "key_from_string (key_s (new_key cs)) = new_key cs \<and> key_components (new_key cs) = cs"
proof -
  have "split_on (CHR ''/'') (CHR ''/'' # join_with ''/'' cs) = [] # cs"
    using split_join [OF assms] by simp
  with assms show ?thesis
    by (auto simp: key_from_string_def new_key_def no_end_def Let_def)
qed

theorem key_roundtrip_witness:
  "key_from_string (key_s (new_key [''web'', ''oidc'', ''x''])) = new_key [''web'', ''oidc'', ''x'']"
  using key_roundtrip [of "[''web'', ''oidc'', ''x'']"] by simp

end
