(* ===== verification/BackendRange.thy ===== *)
theory BackendRange
  imports Backend
begin

text \<open>
  Ranges of the in-memory backend: \<^verbatim>\<open>DeleteRange\<close>, the paged iteration \<^verbatim>\<open>Items\<close> and \<^verbatim>\<open>GetRange\<close> of
  \<^verbatim>\<open>lib/backend/memory/memory.go\<close>, and \<^verbatim>\<open>RangeEnd\<close> of \<^verbatim>\<open>lib/backend/backend.go\<close>.

  \<^verbatim>\<open>Items\<close> holds the lock for one page at a time, so others may use the backend between two pages. The
  model takes the time and the memory that each page finds as functions of the number of the page;
  an iteration that nobody disturbs is the case of constant functions. Every page that does not end
  the iteration is full, so the limit, which is never more than \<^verbatim>\<open>DefaultRangeLimit\<close>, bounds the
  recursion.
\<close>

section \<open>The end of a range (backend.go)\<close>

text \<open>The recursion runs over the reversed bytes: it drops the trailing 0xff and increments the byte
  before them.\<close>

fun increment_last :: "string \<Rightarrow> string option" where
  "increment_last [] = None"
| "increment_last (c # cs) = (if of_char c < (255 :: nat) then Some (char_of (of_char c + 1 :: nat) # cs) else increment_last cs)"

definition range_end :: "key \<Rightarrow> key" where
  "range_end k =
     (case increment_last (rev (key_s k)) of
        None \<Rightarrow> zero_key\<lparr>key_no_end := True\<rparr>
      | Some r \<Rightarrow> key_from_string (rev r))"

section \<open>Deleting a range\<close>

definition missing_start :: err where "missing_start = Err BadParameter ''missing parameter startKey''"
definition missing_end :: err where "missing_end = Err BadParameter ''missing parameter endKey''"

definition range_items :: "string \<Rightarrow> string \<Rightarrow> item list \<Rightarrow> item list" where
  "range_items lo hi t = takeWhile (\<lambda>x. \<not> hi < ks x) (dropWhile (\<lambda>x. ks x < lo) t)"

definition delete_one :: "item \<Rightarrow> memory \<Rightarrow> memory" where
  "delete_one it m = emit \<lparr>ev_type = OpDelete, ev_item = it\<rparr> (process_delete (ks it) m)"

definition mem_delete_range :: "int \<Rightarrow> key \<Rightarrow> key \<Rightarrow> memory \<Rightarrow> unit result \<times> memory" where
  "mem_delete_range now start_key end_key m =
     (if key_is_zero start_key then (Inl missing_start, m)
      else if key_is_zero end_key then (Inl missing_end, m)
      else let m1 = remove_expired now m in
        (Inr (), fold delete_one (range_items (key_s start_key) (key_s end_key) (mem_tree m1)) m1))"

section \<open>Iterating over a range\<close>

definition default_range_limit :: nat where "default_range_limit = 2000000"
definition default_page_size :: nat where "default_page_size = 1000"

record items_params =
  ip_start :: key
  ip_end :: key
  ip_descending :: bool
  ip_limit :: int

text \<open>What the B-tree iterator hands out from a start on, and the items of it that are not beyond the
  end. When the start was the last item of the previous page, the first item is dropped if its key
  compares at most equal to it, in either direction.\<close>

definition walk :: "bool \<Rightarrow> string \<Rightarrow> string \<Rightarrow> item list \<Rightarrow> item list" where
  "walk desc start stop t =
     (if desc then takeWhile (\<lambda>x. \<not> ks x < stop) (rev (takeWhile (\<lambda>x. \<not> start < ks x) t))
      else takeWhile (\<lambda>x. \<not> stop < ks x) (dropWhile (\<lambda>x. ks x < start) t))"

definition drop_start :: "bool \<Rightarrow> string \<Rightarrow> item list \<Rightarrow> item list" where
  "drop_start excluded start xs =
     (case xs of [] \<Rightarrow> [] | x # rest \<Rightarrow> if excluded \<and> ks x \<le> start then rest else xs)"

definition page :: "bool \<Rightarrow> string \<Rightarrow> bool \<Rightarrow> string \<Rightarrow> nat \<Rightarrow> item list \<Rightarrow> item list" where
  "page desc start excluded stop n t = take n (drop_start excluded start (walk desc start stop t))"

function pages ::
  "(nat \<Rightarrow> int) \<Rightarrow> (nat \<Rightarrow> memory) \<Rightarrow> nat \<Rightarrow> bool \<Rightarrow> string \<Rightarrow> bool \<Rightarrow> string \<Rightarrow> nat \<Rightarrow> item list" where
  "pages time mem i desc start excluded stop remaining =
     (let n = min remaining default_page_size;
          xs = page desc start excluded stop n (mem_tree (remove_expired (time i) (mem i))) in
      if length xs < n \<or> remaining \<le> n then xs
      else xs @ pages time mem (Suc i) desc (ks (last xs)) True stop (remaining - n))"
  by pat_completeness auto
termination
  by (relation "measure (\<lambda>(time, mem, i, desc, start, excluded, stop, remaining). remaining)")
     (auto simp: default_page_size_def)

declare pages.simps [simp del]

definition mem_items :: "(nat \<Rightarrow> int) \<Rightarrow> (nat \<Rightarrow> memory) \<Rightarrow> items_params \<Rightarrow> item list result" where
  "mem_items time mem p =
     (if key_is_zero (ip_start p) then Inl missing_start
      else if key_is_zero (ip_end p) then Inl missing_end
      else let limit = (if ip_limit p \<le> 0 then default_range_limit else nat (ip_limit p)) in
        Inr (if ip_descending p then pages time mem 0 True (key_s (ip_end p)) False (key_s (ip_start p)) limit
             else pages time mem 0 False (key_s (ip_start p)) False (key_s (ip_end p)) limit))"

definition mem_get_range :: "(nat \<Rightarrow> int) \<Rightarrow> (nat \<Rightarrow> memory) \<Rightarrow> key \<Rightarrow> key \<Rightarrow> int \<Rightarrow> item list result" where
  "mem_get_range time mem start_key end_key limit =
     mem_items time mem \<lparr>ip_start = start_key, ip_end = end_key, ip_descending = False, ip_limit = limit\<rparr>"

section \<open>Ranges of an ordered tree\<close>

lemma takeWhile_sorted:
  assumes "sorted_wrt (<) (map f xs)" and "\<And>x y. f x < f y \<Longrightarrow> P (f y) \<Longrightarrow> P (f x)"
  shows "takeWhile (\<lambda>x. P (f x)) xs = filter (\<lambda>x. P (f x)) xs"
  using assms(1)
proof (induction xs)
  case (Cons a xs)
  show ?case
  proof (cases "P (f a)")
    case False
    then have "\<not> P (f x)" if "x \<in> set xs" for x using Cons.prems assms(2) that by auto
    then have "filter (\<lambda>x. P (f x)) xs = []" by (simp add: filter_empty_conv)
    with False show ?thesis by simp
  qed (use Cons in simp)
qed simp

lemma dropWhile_sorted:
  assumes "sorted_wrt (<) (map f xs)" and "\<And>x y. f x < f y \<Longrightarrow> P (f y) \<Longrightarrow> P (f x)"
  shows "dropWhile (\<lambda>x. P (f x)) xs = filter (\<lambda>x. \<not> P (f x)) xs"
  using assms(1)
proof (induction xs)
  case (Cons a xs)
  show ?case
  proof (cases "P (f a)")
    case False
    then have "\<not> P (f x)" if "x \<in> set xs" for x using Cons.prems assms(2) that by auto
    then have "filter (\<lambda>x. \<not> P (f x)) xs = xs" by (simp add: filter_id_conv)
    with False show ?thesis by simp
  qed (use Cons in simp)
qed simp

lemma ordered_filter: "ordered t \<Longrightarrow> ordered (filter P t)"
  by (induction t) auto

lemma ordered_take: "ordered t \<Longrightarrow> ordered (take n t)"
  by (simp add: take_map [symmetric] sorted_wrt_take)

lemma range_items_eq:
  assumes "ordered t"
  shows "range_items lo hi t = filter (\<lambda>x. lo \<le> ks x \<and> ks x \<le> hi) t"
proof -
  have d: "dropWhile (\<lambda>x. ks x < lo) t = filter (\<lambda>x. \<not> ks x < lo) t"
    by (rule dropWhile_sorted [where P = "\<lambda>k. k < lo", OF assms]) auto
  have "takeWhile (\<lambda>x. \<not> hi < ks x) (filter (\<lambda>x. \<not> ks x < lo) t) = filter (\<lambda>x. \<not> hi < ks x) (filter (\<lambda>x. \<not> ks x < lo) t)"
    by (rule takeWhile_sorted [where P = "\<lambda>k. \<not> hi < k", OF ordered_filter [OF assms]]) auto
  then show ?thesis unfolding range_items_def d by (auto simp: not_less intro: filter_cong)
qed

lemma walk_ascending: "ordered t \<Longrightarrow> walk False start stop t = filter (\<lambda>x. start \<le> ks x \<and> ks x \<le> stop) t"
  using range_items_eq [of t start stop] by (simp add: walk_def range_items_def)

lemma walk_descending:
  assumes "ordered t"
  shows "walk True start stop t = rev (filter (\<lambda>x. stop \<le> ks x \<and> ks x \<le> start) t)"
proof -
  have d: "takeWhile (\<lambda>x. \<not> start < ks x) t = filter (\<lambda>x. \<not> start < ks x) t"
    by (rule takeWhile_sorted [where P = "\<lambda>k. \<not> start < k", OF assms]) auto
  have t: "takeWhile P (rev xs) = rev (filter P xs)"
    if "sorted_wrt (<) (map ks xs)" "\<And>x y. ks x < ks y \<Longrightarrow> P x \<Longrightarrow> P y" for P xs
    using that(1)
  proof (induction xs rule: rev_induct)
    case (snoc a xs)
    show ?case
    proof (cases "P a")
      case False
      then have "\<not> P x" if "x \<in> set xs" for x
        using snoc.prems \<open>\<And>x y. ks x < ks y \<Longrightarrow> P x \<Longrightarrow> P y\<close> that by (auto simp: sorted_wrt_append)
      then have "filter P xs = []" by (simp add: filter_empty_conv)
      with False show ?thesis by simp
    qed (use snoc in \<open>simp add: sorted_wrt_append\<close>)
  qed simp
  have "takeWhile (\<lambda>x. \<not> ks x < stop) (rev (filter (\<lambda>x. \<not> start < ks x) t)) =
      rev (filter (\<lambda>x. \<not> ks x < stop) (filter (\<lambda>x. \<not> start < ks x) t))"
    by (rule t) (use ordered_filter [OF assms] in auto)
  then show ?thesis unfolding walk_def d by (auto simp: not_less conj_commute intro: filter_cong)
qed

section \<open>Deleting a range, exactly\<close>

lemma delete_all_get:
  "mem_get_item (fold delete_one xs m) s = (if s \<in> ks ` set xs then None else mem_get_item m s)"
  by (induction xs arbitrary: m) (auto simp: delete_one_def)

lemma delete_all_inv: "mem_inv m \<Longrightarrow> mem_inv (fold delete_one xs m)"
  by (induction xs arbitrary: m) (simp_all add: delete_one_def process_delete_inv)

lemma process_delete_frame [simp]:
  "mem_buf (process_delete k m) = mem_buf m" "mem_events_off (process_delete k m) = mem_events_off m"
  by (simp_all add: process_delete_def)

lemma delete_all_events:
  "mem_events_off (fold delete_one xs m) = mem_events_off m \<and>
   mem_buf (fold delete_one xs m) =
     (if mem_events_off m then mem_buf m else mem_buf m @ map (\<lambda>x. \<lparr>ev_type = OpDelete, ev_item = x\<rparr>) xs)"
  by (induction xs arbitrary: m) (auto simp: delete_one_def emit_def)

text \<open>
  \<^verbatim>\<open>DeleteRange\<close> removes exactly the items between its two keys, both included, leaves
  every other item, keeps the backend well-formed, and emits one delete event per removed item, in key
  order (the comment in the code says that no events are produced).
\<close>

theorem delete_range_exact:
  assumes "mem_inv m" and "\<not> key_is_zero lo" and "\<not> key_is_zero hi"
    and "mem_delete_range now lo hi m = (r, m')"
  shows "r = Inr () \<and> mem_inv m'
    \<and> (\<forall>s. mem_get_item m' s = (if key_s lo \<le> s \<and> s \<le> key_s hi then None else mem_get_item (remove_expired now m) s))
    \<and> mem_buf m' = mem_buf (remove_expired now m) @
        (if mem_events_off (remove_expired now m) then []
         else map (\<lambda>x. \<lparr>ev_type = OpDelete, ev_item = x\<rparr>)
           (filter (\<lambda>x. key_s lo \<le> ks x \<and> ks x \<le> key_s hi) (mem_tree (remove_expired now m))))"
proof -
  let ?m = "remove_expired now m"
  let ?xs = "filter (\<lambda>x. key_s lo \<le> ks x \<and> ks x \<le> key_s hi) (mem_tree ?m)"
  have i: "mem_inv ?m" by (rule remove_expired_inv [OF assms(1)])
  then have o: "ordered (mem_tree ?m)" by (simp add: mem_inv_def)
  have m': "r = Inr ()" "m' = fold delete_one ?xs ?m"
    using assms(2-4) by (auto simp: mem_delete_range_def range_items_eq [OF o] Let_def)
  have "mem_get_item m' s = (if key_s lo \<le> s \<and> s \<le> key_s hi then None else mem_get_item ?m s)" for s
  proof (cases "mem_get_item ?m s")
    case None
    then show ?thesis unfolding m'(2) delete_all_get by simp
  next
    case (Some x)
    from tree_get_Some [OF this] have "x \<in> set (mem_tree ?m)" "ks x = s" by auto
    then have "s \<in> ks ` set ?xs \<longleftrightarrow> key_s lo \<le> s \<and> s \<le> key_s hi" by force
    then show ?thesis unfolding m'(2) delete_all_get by simp
  qed
  with m' delete_all_inv [OF i] delete_all_events [of ?xs ?m] show ?thesis by simp
qed

section \<open>Undisturbed iteration\<close>

definition in_range :: "string \<Rightarrow> string \<Rightarrow> item list \<Rightarrow> item list" where
  "in_range lo hi t = filter (\<lambda>x. lo \<le> ks x \<and> ks x \<le> hi) t"

lemma ordered_in_range: "ordered t \<Longrightarrow> ordered (in_range lo hi t)"
  unfolding in_range_def by (rule ordered_filter)

lemma in_range_from:
  assumes "ordered t" and "in_range lo hi t = xs @ x # ys"
  shows "in_range (ks x) hi t = x # ys"
proof -
  have o: "ordered (xs @ x # ys)" using ordered_in_range [OF assms(1), of lo hi] unfolding assms(2) .
  have "x \<in> set (in_range lo hi t)" by (simp add: assms(2))
  then have lo: "lo \<le> ks x" by (simp add: in_range_def)
  have "in_range (ks x) hi t = filter (\<lambda>y. ks x \<le> ks y) (in_range lo hi t)"
    unfolding in_range_def using lo by (auto intro: filter_cong)
  moreover have "filter (\<lambda>y. ks x \<le> ks y) xs = []" "filter (\<lambda>y. ks x \<le> ks y) ys = ys"
    using o by (auto simp: sorted_wrt_append filter_empty_conv filter_id_conv not_le intro: less_imp_le)
  ultimately show ?thesis unfolding assms(2) by simp
qed

text \<open>The items still to come after the item \<open>x\<close>, in either direction.\<close>

lemma after_ascending:
  assumes "ordered t" and "in_range lo hi t = xs @ x # ys"
  shows "drop_start True (ks x) (walk False (ks x) hi t) = ys"
  using in_range_from [OF assms] unfolding walk_ascending [OF assms(1)] in_range_def by (simp add: drop_start_def)

lemma after_descending:
  assumes "ordered t" and "rev (in_range lo hi t) = xs @ x # ys"
  shows "drop_start True (ks x) (walk True (ks x) lo t) = ys"
proof -
  from arg_cong [OF assms(2), of rev] have eq: "in_range lo hi t = rev ys @ x # rev xs" by simp
  have o: "ordered (rev ys @ x # rev xs)" using ordered_in_range [OF assms(1), of lo hi] unfolding eq .
  have "x \<in> set (in_range lo hi t)" by (simp add: eq)
  then have hi: "ks x \<le> hi" by (simp add: in_range_def)
  have "walk True (ks x) lo t = rev (filter (\<lambda>y. ks y \<le> ks x) (in_range lo hi t))"
    unfolding walk_descending [OF assms(1)] in_range_def using hi by (auto intro: filter_cong)
  also have "\<dots> = x # ys"
  proof -
    have "filter (\<lambda>y. ks y \<le> ks x) (rev xs) = []" "filter (\<lambda>y. ks y \<le> ks x) (rev ys) = rev ys"
      using o by (auto simp: sorted_wrt_append filter_empty_conv filter_id_conv not_le intro: less_imp_le)
    then show ?thesis unfolding eq by simp
  qed
  finally show ?thesis by (simp add: drop_start_def)
qed

lemma pages_undisturbed:
  assumes const: "\<And>i. mem_tree (remove_expired (time i) (mem i)) = t"
    and after: "\<And>xs x ys. sequence = xs @ x # ys \<Longrightarrow> drop_start True (ks x) (walk desc (ks x) stop t) = ys"
  shows "sequence = before @ rest \<Longrightarrow> drop_start excluded start (walk desc start stop t) = rest \<Longrightarrow>
    pages time mem i desc start excluded stop remaining = take remaining rest"
proof (induction remaining arbitrary: before rest i start excluded rule: less_induct)
  case (less remaining)
  let ?n = "min remaining default_page_size"
  let ?xs = "take ?n rest"
  have p: "page desc start excluded stop ?n (mem_tree (remove_expired (time i) (mem i))) = ?xs"
    using less.prems(2) by (simp add: page_def const)
  show ?case
  proof (cases "length ?xs < ?n \<or> remaining \<le> ?n")
    case True
    then have "pages time mem i desc start excluded stop remaining = ?xs"
      by (subst pages.simps) (simp add: p Let_def)
    also have "?xs = take remaining rest"
    proof (cases "remaining \<le> default_page_size")
      case False
      with True have "length rest < default_page_size" by (auto simp: min_def split: if_split_asm)
      with False show ?thesis by simp
    qed (simp add: min_def)
    finally show ?thesis .
  next
    case False
    then have n: "?n = default_page_size" "default_page_size < remaining" "default_page_size \<le> length rest"
      by (auto simp: min_def split: if_split_asm)
    have pos: "0 < default_page_size" by (simp add: default_page_size_def)
    with n(3) have ne: "take default_page_size rest \<noteq> []" by (cases rest) auto
    let ?h = "take default_page_size rest"
    have "sequence = (before @ butlast ?h) @ last ?h # drop default_page_size rest"
      using less.prems(1) ne by (metis append.assoc append_Cons append_Nil append_butlast_last_id append_take_drop_id)
    from after [OF this] have d: "drop_start True (ks (last ?h)) (walk desc (ks (last ?h)) stop t) = drop default_page_size rest" .
    have s: "sequence = (before @ ?h) @ drop default_page_size rest" using less.prems(1) by simp
    have "pages time mem (Suc i) desc (ks (last ?h)) True stop (remaining - default_page_size) =
        take (remaining - default_page_size) (drop default_page_size rest)"
      by (rule less.IH [OF _ s d]) (use pos n(2) in simp)
    moreover have "pages time mem i desc start excluded stop remaining =
        ?h @ pages time mem (Suc i) desc (ks (last ?h)) True stop (remaining - default_page_size)"
      using False n by (subst pages.simps) (simp add: p [unfolded n(1)] Let_def)
    moreover have "take remaining rest = ?h @ take (remaining - default_page_size) (drop default_page_size rest)"
      using n(2) by (metis le_add_diff_inverse less_imp_le take_add)
    ultimately show ?thesis by simp
  qed
qed

text \<open>The specification of a range query: the items of the range in the order asked for, up to the limit.\<close>

definition range_query :: "items_params \<Rightarrow> item list \<Rightarrow> item list" where
  "range_query p t =
     (let xs = in_range (key_s (ip_start p)) (key_s (ip_end p)) t in
      take (if ip_limit p \<le> 0 then default_range_limit else nat (ip_limit p)) (if ip_descending p then rev xs else xs))"

lemma items_range_query:
  assumes "\<And>i. mem_tree (remove_expired (time i) (mem i)) = t" and "ordered t"
    and "\<not> key_is_zero (ip_start p)" and "\<not> key_is_zero (ip_end p)"
  shows "mem_items time mem p = Inr (range_query p t)"
proof (cases "ip_descending p")
  case True
  have "pages time mem 0 True (key_s (ip_end p)) False (key_s (ip_start p)) n =
      take n (rev (in_range (key_s (ip_start p)) (key_s (ip_end p)) t))" for n
    by (rule pages_undisturbed [where before = "[]", OF assms(1) after_descending [OF assms(2)]])
       (auto simp: walk_descending [OF assms(2)] in_range_def drop_start_def split: list.split)
  with True assms(3,4) show ?thesis by (simp add: mem_items_def range_query_def Let_def)
next
  case False
  have "pages time mem 0 False (key_s (ip_start p)) False (key_s (ip_end p)) n =
      take n (in_range (key_s (ip_start p)) (key_s (ip_end p)) t)" for n
    by (rule pages_undisturbed [where before = "[]", OF assms(1) after_ascending [OF assms(2)]])
       (auto simp: walk_ascending [OF assms(2)] in_range_def drop_start_def split: list.split)
  with False assms(3,4) show ?thesis by (simp add: mem_items_def range_query_def Let_def)
qed


text \<open>
  Property C36: an iteration over a range that nobody disturbs refines the range query: over however
  many pages it takes, \<^verbatim>\<open>Items\<close> yields the items of the range in the order asked for, each once, up
  to the limit, in both directions. The paging leaves no trace.
\<close>

theorem items_refine_range_query:
  assumes "\<And>i. mem_tree (remove_expired (time i) (mem i)) = t" and "ordered t"
    and "\<not> key_is_zero (ip_start p)" and "\<not> key_is_zero (ip_end p)"
  shows "mem_items time mem p = Inr (range_query p t)"
  by (rule items_range_query [OF assms])

section \<open>Iteration beside other users\<close>

abbreviation page_tree :: "(nat \<Rightarrow> int) \<Rightarrow> (nat \<Rightarrow> memory) \<Rightarrow> nat \<Rightarrow> item list" where
  "page_tree time mem i \<equiv> mem_tree (remove_expired (time i) (mem i))"

definition from_start :: "bool \<Rightarrow> string \<Rightarrow> string \<Rightarrow> bool" where
  "from_start excluded start k \<longleftrightarrow> (if excluded then start < k else start \<le> k)"

lemma drop_start_included [simp]: "drop_start False start xs = xs"
  by (simp add: drop_start_def split: list.split)

lemma drop_start_ascending:
  assumes "ordered t"
  shows "drop_start excluded start (walk False start stop t) =
    filter (\<lambda>x. from_start excluded start (ks x) \<and> ks x \<le> stop) t"
proof -
  let ?w = "filter (\<lambda>x. start \<le> ks x \<and> ks x \<le> stop) t"
  have o: "ordered ?w" by (rule ordered_filter [OF assms])
  have "drop_start True start ?w = filter (\<lambda>x. start < ks x) ?w"
  proof (cases ?w)
    case (Cons a w)
    then have a: "start \<le> ks a" by (metis (mono_tags, lifting) filter_eq_ConsD)
    have w: "ks a < ks x" if "x \<in> set w" for x using o Cons that by simp
    then have "filter (\<lambda>x. start < ks x) w = w" using a by (auto simp: filter_id_conv intro: le_less_trans)
    then show ?thesis using a unfolding drop_start_def Cons by auto
  qed (simp add: drop_start_def)
  also have "\<dots> = filter (\<lambda>x. start < ks x \<and> ks x \<le> stop) t" by (auto intro: filter_cong)
  finally have excluded: "drop_start True start ?w = filter (\<lambda>x. start < ks x \<and> ks x \<le> stop) t" .
  then show ?thesis by (cases excluded) (simp_all add: walk_ascending [OF assms] from_start_def)
qed

lemma page_ascending:
  "ordered t \<Longrightarrow> page False start excluded stop n t =
     take n (filter (\<lambda>x. from_start excluded start (ks x) \<and> ks x \<le> stop) t)"
  by (simp add: page_def drop_start_ascending)

lemma from_start_trans: "from_start excluded start k \<Longrightarrow> k < k' \<Longrightarrow> from_start excluded start k'"
  by (auto simp: from_start_def split: if_split_asm)

abbreviation ahead :: "bool \<Rightarrow> string \<Rightarrow> string \<Rightarrow> item list \<Rightarrow> item list" where
  "ahead excluded start stop t \<equiv> filter (\<lambda>x. from_start excluded start (ks x) \<and> ks x \<le> stop) t"

lemma pages_cases:
  assumes "ordered (page_tree time mem i)"
  obtains (final) n where "pages time mem i False start excluded stop remaining =
        take n (ahead excluded start stop (page_tree time mem i))"
      "length (take n (ahead excluded start stop (page_tree time mem i))) < remaining \<Longrightarrow>
        take n (ahead excluded start stop (page_tree time mem i)) = ahead excluded start stop (page_tree time mem i)"
    | (more) n xs where "0 < n" "n < remaining" "length xs = n"
      "xs = take n (ahead excluded start stop (page_tree time mem i))"
      "pages time mem i False start excluded stop remaining =
        xs @ pages time mem (Suc i) False (ks (last xs)) True stop (remaining - n)"
proof -
  define n where "n = min remaining default_page_size"
  define xs where "xs = take n (ahead excluded start stop (page_tree time mem i))"
  have p: "page False start excluded stop n (page_tree time mem i) = xs"
    unfolding xs_def by (rule page_ascending [OF assms])
  have step: "pages time mem i False start excluded stop remaining =
      (if length xs < n \<or> remaining \<le> n then xs
       else xs @ pages time mem (Suc i) False (ks (last xs)) True stop (remaining - n))"
    by (subst pages.simps) (simp only: n_def [symmetric] p Let_def)
  show thesis
  proof (cases "length xs < n \<or> remaining \<le> n")
    case True
    have "xs = ahead excluded start stop (page_tree time mem i)" if "length xs < remaining"
    proof -
      have "length xs < n" using True that by auto
      then show ?thesis unfolding xs_def by simp
    qed
    with True step final [of n] show ?thesis unfolding xs_def by presburger
  next
    case False
    then have "length xs = n" "n < remaining" unfolding xs_def by auto
    moreover from this have "0 < n" by (simp add: n_def default_page_size_def)
    ultimately show ?thesis using more [of n xs] False step by (simp add: xs_def)
  qed
qed

lemma ordered_upto_last: "ordered xs \<Longrightarrow> x \<in> set xs \<Longrightarrow> ks x \<le> ks (last xs)"
  by (induction xs rule: rev_induct) (auto simp: sorted_wrt_append intro: less_imp_le)

lemma take_upto_last:
  assumes "ordered xs" and "x \<in> set xs" and "take n xs \<noteq> []" and "\<not> ks (last (take n xs)) < ks x"
  shows "x \<in> set (take n xs)"
proof (rule ccontr)
  assume "x \<notin> set (take n xs)"
  then have "x \<in> set (drop n xs)" using assms(2) by (metis Un_iff append_take_drop_id set_append)
  moreover from assms(1) have "ordered (take n xs @ drop n xs)" by (simp only: append_take_drop_id)
  ultimately have "ks (last (take n xs)) < ks x"
    using last_in_set [OF assms(3)] unfolding map_append sorted_wrt_append by auto
  with assms(4) show False by blast
qed

lemma pages_ascending:
  assumes "\<And>i. ordered (page_tree time mem i)"
  shows "ordered (pages time mem i False start excluded stop remaining) \<and>
    (\<forall>x \<in> set (pages time mem i False start excluded stop remaining).
       from_start excluded start (ks x) \<and> ks x \<le> stop \<and> (\<exists>j. x \<in> set (page_tree time mem j)))"
proof (induction remaining arbitrary: i start excluded rule: less_induct)
  case (less remaining)
  have prefix: "ordered (take n (ahead excluded start stop (page_tree time mem i)))"
    "\<And>x. x \<in> set (take n (ahead excluded start stop (page_tree time mem i))) \<Longrightarrow>
       from_start excluded start (ks x) \<and> ks x \<le> stop \<and> x \<in> set (page_tree time mem i)" for n
    by (rule ordered_take [OF ordered_filter [OF assms]]) (auto dest: in_set_takeD)
  show ?case
  proof (cases rule: pages_cases [where time = time and mem = mem and i = i and start = start
      and excluded = excluded and stop = stop and remaining = remaining, OF assms, case_names 1 2])
    case (1 n)
    show ?thesis unfolding 1(1) using prefix by blast
  next
    case (2 n xs)
    let ?rest = "pages time mem (Suc i) False (ks (last xs)) True stop (remaining - n)"
    have xs: "ordered xs" "\<And>x. x \<in> set xs \<Longrightarrow> from_start excluded start (ks x) \<and> ks x \<le> stop \<and> x \<in> set (page_tree time mem i)"
      unfolding 2(4) using prefix by blast+
    have l: "last xs \<in> set xs" using 2(1,3) by auto
    have rest: "ordered ?rest" "\<And>x. x \<in> set ?rest \<Longrightarrow> ks (last xs) < ks x \<and> ks x \<le> stop \<and> (\<exists>j. x \<in> set (page_tree time mem j))"
      using less.IH [of "remaining - n" "Suc i" "ks (last xs)" True] 2(1,2) by (auto simp: from_start_def)
    have "ks x < ks y" if "x \<in> set xs" "y \<in> set ?rest" for x y
      using ordered_upto_last [OF xs(1) that(1)] rest(2) [OF that(2)] by (auto intro: le_less_trans)
    moreover have "from_start excluded start (ks y)" if "y \<in> set ?rest" for y
      using from_start_trans xs(2) [OF l] rest(2) [OF that] by blast
    moreover have "\<exists>j. x \<in> set (page_tree time mem j)" if "x \<in> set xs" for x using xs(2) [OF that] by blast
    ultimately show ?thesis using xs rest unfolding 2(5) by (auto simp: sorted_wrt_append)
  qed
qed

lemma pages_complete:
  assumes "\<And>i. ordered (page_tree time mem i)" and "\<And>i. k \<in> ks ` set (page_tree time mem i)" and "k \<le> stop"
  shows "from_start excluded start k \<Longrightarrow>
    length (pages time mem i False start excluded stop remaining) < remaining \<Longrightarrow>
    k \<in> ks ` set (pages time mem i False start excluded stop remaining)"
proof (induction remaining arbitrary: i start excluded rule: less_induct)
  case (less remaining)
  let ?f = "ahead excluded start stop (page_tree time mem i)"
  obtain x where x: "x \<in> set ?f" "ks x = k" using assms(2) [of i] assms(3) less.prems(1) by auto
  show ?case
  proof (cases rule: pages_cases [where time = time and mem = mem and i = i and start = start
      and excluded = excluded and stop = stop and remaining = remaining, OF assms(1), case_names 1 2])
    case (1 n)
    with less.prems(2) x show ?thesis by auto
  next
    case (2 n xs)
    show ?thesis
    proof (cases "ks (last xs) < k")
      case True
      have "k \<in> ks ` set (pages time mem (Suc i) False (ks (last xs)) True stop (remaining - n))"
        by (rule less.IH) (use 2 less.prems(2) True in \<open>simp_all add: from_start_def\<close>)
      then show ?thesis unfolding 2(5) by auto
    next
      case False
      have "x \<in> set xs" unfolding 2(4)
        by (rule take_upto_last [OF ordered_filter [OF assms(1)] x(1)]) (use 2 False x(2) in auto)
      with x(2) show ?thesis unfolding 2(5) by auto
    qed
  qed
qed


text \<open>
  An ascending iteration is reliable beside other users. Whatever they do to the backend
  between two pages, \<^verbatim>\<open>Items\<close> yields items of the range only, in strictly ascending key order and so
  none twice, each of them an item that was stored when its page was read; and unless the limit is
  reached, it yields the key of every item that is there at every page.
\<close>

theorem ascending_items_reliable:
  assumes "\<And>i. mem_inv (mem i)" and "\<not> ip_descending p"
    and "mem_items time mem p = Inr xs"
  shows "sorted_wrt (<) (map ks xs)
    \<and> (\<forall>x \<in> set xs. key_s (ip_start p) \<le> ks x \<and> ks x \<le> key_s (ip_end p)
         \<and> (\<exists>i. x \<in> set (mem_tree (remove_expired (time i) (mem i)))))
    \<and> (\<forall>k. key_s (ip_start p) \<le> k \<and> k \<le> key_s (ip_end p)
         \<and> (\<forall>i. mem_get_item (remove_expired (time i) (mem i)) k \<noteq> None)
         \<and> length xs < (if ip_limit p \<le> 0 then default_range_limit else nat (ip_limit p))
         \<longrightarrow> k \<in> ks ` set xs)"
proof -
  let ?n = "if ip_limit p \<le> 0 then default_range_limit else nat (ip_limit p)"
  have o: "ordered (page_tree time mem i)" for i
    using remove_expired_inv [OF assms(1)] by (simp add: mem_inv_def)
  have xs: "xs = pages time mem 0 False (key_s (ip_start p)) False (key_s (ip_end p)) ?n"
    using assms(2,3) by (simp add: mem_items_def Let_def split: if_split_asm)
  have sound: "ordered xs" "\<forall>x \<in> set xs. key_s (ip_start p) \<le> ks x \<and> ks x \<le> key_s (ip_end p)
      \<and> (\<exists>i. x \<in> set (page_tree time mem i))"
    using pages_ascending [where time = time and mem = mem, OF o] unfolding xs by (auto simp: from_start_def)
  have "k \<in> ks ` set xs"
    if "key_s (ip_start p) \<le> k" "k \<le> key_s (ip_end p)"
      "\<And>i. mem_get_item (remove_expired (time i) (mem i)) k \<noteq> None" "length xs < ?n" for k
  proof -
    have "k \<in> ks ` set (page_tree time mem i)" for i
      using that(3) [of i] by (auto dest: tree_get_Some intro: rev_image_eqI)
    from pages_complete [where time = time and mem = mem, OF o this that(2)] that(1,4) show ?thesis
      unfolding xs by (simp add: from_start_def)
  qed
  with sound show ?thesis by blast
qed

text \<open>
  A descending iteration is not. The test that skips the item a page starts from, when it
  was the last of the page before, compares in the ascending sense; so when that item is deleted between
  two pages, the next page skips the item below it instead, which was there all along. Here a range
  of 1001 items is read while the second lowest is deleted after the first page: the lowest is never
  yielded.
\<close>

theorem descending_items_skip:
  assumes "sorted_wrt (<) (map ks (x0 # x1 # xs))" and "length xs = 999"
    and "list_all (\<lambda>x. key_s (ip_start p) \<le> ks x \<and> ks x \<le> key_s (ip_end p)) (x0 # x1 # xs)"
    and "\<not> key_is_zero (ip_start p)" and "\<not> key_is_zero (ip_end p)" and "ip_descending p" and "ip_limit p = 0"
    and "mem_tree (remove_expired (time 0) (mem 0)) = x0 # x1 # xs"
    and "mem_tree (remove_expired (time 1) (mem 1)) = x0 # xs"
  shows "mem_items time mem p = Inr (rev xs @ [x1]) \<and> x0 \<notin> set (rev xs @ [x1])"
proof -
  let ?hi = "key_s (ip_end p)" and ?lo = "key_s (ip_start p)"
  have o: "ordered (x0 # x1 # xs)" "ordered (x0 # xs)" using assms(1) by auto
  have "walk True ?hi ?lo (x0 # x1 # xs) = rev (x0 # x1 # xs)"
    using assms(3) by (subst walk_descending [OF o(1)]) (auto simp: list_all_iff filter_id_conv)
  then have first: "page True ?hi False ?lo 1000 (page_tree time mem 0) = rev xs @ [x1]"
    unfolding assms(8) page_def by (simp add: drop_start_included assms(2))
  have "walk True (ks x1) ?lo (x0 # xs) = [x0]"
    using assms(1,3) by (subst walk_descending [OF o(2)]) (auto simp: list_all_iff filter_empty_conv not_le)
  then have second: "page True (ks x1) True ?lo 1000 (page_tree time mem 1) = []"
    using assms(1) unfolding assms(9) page_def by (simp add: drop_start_def less_imp_le)
  have last_pages: "pages time mem 1 True (ks x1) True ?lo 1999000 = []"
    by (subst pages.simps) (use second in \<open>simp add: default_page_size_def\<close>)
  have "pages time mem 0 True ?hi False ?lo 2000000 = rev xs @ [x1]"
    using first last_pages by (subst pages.simps) (simp add: default_page_size_def assms(2) One_nat_def [symmetric] del: One_nat_def)
  then have "mem_items time mem p = Inr (rev xs @ [x1])"
    using assms(4-7) by (simp add: mem_items_def default_range_limit_def)
  moreover have "x0 \<notin> set (rev xs @ [x1])" using o(1) by auto
  ultimately show ?thesis by blast
qed

section \<open>The range of a prefix\<close>

lemma increment_last_snoc:
  "increment_last (xs @ [c]) = (case increment_last xs of Some r \<Rightarrow> Some (r @ [c]) | None \<Rightarrow> increment_last [c])"
  by (induction xs) auto

lemma char_le_255: "of_char c \<le> (255 :: nat)"
  using nat_of_char_less_256 [of c] by linarith

lemma char_ff: "of_char c = (255 :: nat) \<longleftrightarrow> c = CHR 0xFF"
proof -
  have "of_char c = (of_char (CHR 0xFF) :: nat) \<longleftrightarrow> c = CHR 0xFF" by (simp only: of_char_eq_iff)
  then show ?thesis by simp
qed

lemma increment_last_None: "increment_last xs = None \<longleftrightarrow> (\<forall>c \<in> set xs. of_char c = (255 :: nat))"
proof (induction xs)
  case (Cons c xs)
  have "of_char c \<le> (255 :: nat)" by (rule char_le_255)
  with Cons show ?case by auto
qed simp

lemma all_ff_prefix: "\<forall>c \<in> set q. of_char c = (255 :: nat) \<Longrightarrow> q \<le> s \<longleftrightarrow> starts_with q s"
proof (induction q arbitrary: s)
  case (Cons c q)
  show ?case
  proof (cases s)
    case (Cons d t)
    have "of_char d \<le> (255 :: nat)" by (rule char_le_255)
    then have "\<not> c < d" using Cons.prems by (simp add: less_char_def)
    with Cons Cons.IH Cons.prems show ?thesis by (auto simp: starts_with_def)
  qed (simp add: starts_with_def)
qed (simp add: starts_with_def)

lemma next_char: "of_char c < (255 :: nat) \<Longrightarrow> of_char (char_of (of_char c + 1 :: nat)) = of_char c + (1 :: nat)"
  by simp

lemma increment_last_range:
  "increment_last (rev q) = Some r \<Longrightarrow> (q \<le> s \<and> s < rev r) \<longleftrightarrow> starts_with q s"
proof (induction q arbitrary: r s)
  case (Cons c q)
  show ?case
  proof (cases s)
    case Nil
    then show ?thesis by (simp add: starts_with_def)
  next
    case s: (Cons d t)
    show ?thesis
    proof (cases "increment_last (rev q)")
      case None
      then have ff: "\<forall>c \<in> set q. of_char c = (255 :: nat)" by (simp add: increment_last_None)
      from Cons.prems None have c: "of_char c < (255 :: nat)" and r: "rev r = [char_of (of_char c + 1 :: nat)]"
        by (auto simp: increment_last_snoc split: if_split_asm)
      have "d < char_of (of_char c + 1 :: nat) \<longleftrightarrow> d \<le> c"
        unfolding less_char_def less_eq_char_def next_char [OF c] by auto
      then show ?thesis unfolding r s using all_ff_prefix [OF ff, of t]
        by (auto simp: starts_with_def not_less)
    next
      case (Some r')
      with Cons.prems have "rev r = c # rev r'" by (auto simp: increment_last_snoc)
      then show ?thesis unfolding s using Cons.IH [OF Some, of t] by (auto simp: starts_with_def)
    qed
  qed
qed simp

lemma increment_last_le: "increment_last (rev q) = Some r \<Longrightarrow> q \<le> rev r"
  using increment_last_range [of q r q] by (simp add: starts_with_def less_imp_le)

text \<open>
  The range from a key to its \<^verbatim>\<open>RangeEnd\<close> is the range of the prefix. Unless every byte of
  the key is 0xff, the keys that a range query over it sees are those that have the key as a prefix and,
  as both ends of a range are included, the end itself; a key of 0xff bytes only has no end, and a
  range query to it is refused.
\<close>

theorem range_end_is_prefix_range:
  "if list_all (\<lambda>c. c = CHR 0xFF) (key_s k)
   then key_is_zero (range_end k) \<and> key_string (range_end k) = [CHR 0x00]
     \<and> mem_get_range time mem start (range_end k) limit = Inl (if key_is_zero start then missing_start else missing_end)
   else \<forall>s. (key_s k \<le> s \<and> s \<le> key_s (range_end k)) \<longleftrightarrow> (starts_with (key_s k) s \<or> s = key_s (range_end k))"
proof (cases "increment_last (rev (key_s k))")
  case None
  then have "list_all (\<lambda>c. c = CHR 0xFF) (key_s k)"
    by (simp add: increment_last_None char_ff list_all_iff)
  with None show ?thesis
    by (simp add: range_end_def key_is_zero_def zero_key_def key_string_def no_end_def mem_get_range_def mem_items_def)
next
  case (Some r)
  then have ne: "\<not> list_all (\<lambda>c. c = CHR 0xFF) (key_s k)"
    using increment_last_None [of "rev (key_s k)"] by (simp add: char_ff list_all_iff)
  have e: "key_s (range_end k) = rev r" by (simp add: range_end_def Some key_from_string_def Let_def)
  have "key_s k \<le> s \<and> s \<le> rev r \<longleftrightarrow> starts_with (key_s k) s \<or> s = rev r" for s
    using increment_last_range [OF Some, of s] increment_last_le [OF Some] le_less [of s "rev r"] by blast
  then show ?thesis unfolding e if_not_P [OF ne] by blast
qed

lemma pages_read:
  assumes "\<forall>j. i \<le> j \<and> j \<le> i + remaining div default_page_size \<longrightarrow> time j = time' j \<and> mem j = mem' j"
  shows "pages time mem i desc start excluded stop remaining = pages time' mem' i desc start excluded stop remaining
    \<and> length (pages time mem i desc start excluded stop remaining) \<le> remaining"
  using assms
proof (induction remaining arbitrary: i start excluded rule: less_induct)
  case (less remaining)
  let ?n = "min remaining default_page_size"
  let ?xs = "page desc start excluded stop ?n (mem_tree (remove_expired (time i) (mem i)))"
  have x: "page desc start excluded stop ?n (mem_tree (remove_expired (time' i) (mem' i))) = ?xs"
    using less.prems by simp
  have l: "length ?xs \<le> ?n" unfolding page_def length_take by (rule min.cobounded2)
  show ?case
  proof (cases "length ?xs < ?n \<or> remaining \<le> ?n")
    case True
    with x l show ?thesis by (subst (1 2 3) pages.simps) (auto simp: Let_def)
  next
    case False
    then have n: "?n = default_page_size" "default_page_size < remaining" by (auto simp: min_def split: if_split_asm)
    have pos: "0 < default_page_size" by (simp add: default_page_size_def)
    have "remaining div default_page_size = Suc ((remaining - default_page_size) div default_page_size)"
      using n(2) pos by (simp add: le_div_geq)
    with less.prems have "\<forall>j. Suc i \<le> j \<and> j \<le> Suc i + (remaining - default_page_size) div default_page_size \<longrightarrow> time j = time' j \<and> mem j = mem' j"
      by auto
    with less.IH [of "remaining - ?n" "Suc i" "ks (last ?xs)" True] n pos False x l show ?thesis
      by (subst (1 2 3) pages.simps) (auto simp: Let_def)
  qed
qed

text \<open>
  Property C37: an iteration ends. Whatever others do meanwhile, even if they add items faster than they are
  read, \<^verbatim>\<open>Items\<close> looks at the backend at most once more than its limit has full pages of a thousand, and yields at
  most the limit: what it yields is determined by the state of the backend at those times. Without a limit of
  the caller the limit is two million.
\<close>

theorem items_end_within_limit:
  defines "limit p \<equiv> if ip_limit p \<le> 0 then 2000000 else nat (ip_limit p)"
  assumes "\<forall>i \<le> limit p div 1000. time i = time' i \<and> mem i = mem' i"
  shows "mem_items time mem p = mem_items time' mem' p
    \<and> (case mem_items time mem p of Inl _ \<Rightarrow> True | Inr xs \<Rightarrow> length xs \<le> limit p)"
proof -
  have "\<forall>j. 0 \<le> j \<and> j \<le> 0 + limit p div default_page_size \<longrightarrow> time j = time' j \<and> mem j = mem' j"
    using assms(2) by (simp add: default_page_size_def)
  note r = pages_read [OF this]
  have r': "length (pages time' mem' 0 desc start excluded stop (limit p)) \<le> limit p" for desc start excluded stop
    using r by metis
  have l: "(if ip_limit p \<le> 0 then default_range_limit else nat (ip_limit p)) = limit p"
    by (simp add: limit_def default_range_limit_def)
  show ?thesis unfolding mem_items_def l Let_def using r r' by simp
qed

section \<open>Concrete ranges\<close>

text \<open>Items whose keys are runs of one letter, so that the longer key is the greater one.\<close>

definition run_item :: "nat \<Rightarrow> item" where
  "run_item n = \<lparr>it_key = key_from_string (replicate n CHR ''a''), it_value = ''v'', it_expires = None, it_revision = ''r''\<rparr>"

definition run_memory :: "item list \<Rightarrow> memory" where
  "run_memory t = new_memory\<lparr>mem_tree := t\<rparr>"

definition run_range :: "bool \<Rightarrow> int \<Rightarrow> items_params" where
  "run_range desc limit = \<lparr>ip_start = key_from_string ''a'', ip_end = key_from_string ''b'', ip_descending = desc, ip_limit = limit\<rparr>"

lemma key_s_from_string [simp]: "key_s (key_from_string s) = s"
  by (simp add: key_from_string_def Let_def)

lemma ks_run [simp]: "ks (run_item n) = replicate n CHR ''a''"
  by (simp add: run_item_def)

lemma replicate_less: "m < n \<Longrightarrow> replicate m (c :: char) < replicate n c"
proof (induction m arbitrary: n)
  case 0
  then show ?case by (cases n) auto
next
  case (Suc m)
  then show ?case by (cases n) auto
qed

lemma ordered_runs: "sorted_wrt (<) ns \<Longrightarrow> ordered (map run_item ns)"
  by (auto simp: sorted_wrt_map comp_def intro: sorted_wrt_mono_rel [rotated] replicate_less)

lemma run_in_range: "0 < n \<Longrightarrow> ''a'' \<le> replicate n CHR ''a'' \<and> replicate n CHR ''a'' \<le> ''b''"
  by (cases n) (auto simp: less_char_def)

lemma run_memory_tree [simp]: "mem_tree (remove_expired now (run_memory t)) = t"
  by (simp add: remove_expired_def run_memory_def new_memory_def expire_loop.simps)

lemma run_memory_inv: "list_all (\<lambda>x. it_expires x = None) t \<Longrightarrow> ordered t \<Longrightarrow> mem_inv (run_memory t)"
  by (auto simp: mem_inv_def run_memory_def new_memory_def heap_upto_def expiring_def list_all_iff filter_empty_conv)

lemma run_range_nonzero [simp]:
  "\<not> key_is_zero (ip_start (run_range desc limit))" "\<not> key_is_zero (ip_end (run_range desc limit))"
  by (simp_all add: run_range_def key_is_zero_def)

lemma delete_range_exact_witness:
  "\<exists>m'. mem_delete_range 0 (key_from_string ''aa'') (key_from_string ''aaa'') (run_memory (map run_item [1, 2, 3, 4])) = (Inr (), m')
     \<and> mem_inv m' \<and> mem_get_item m' ''aa'' = None \<and> mem_get_item m' ''aaaa'' = Some (run_item 4)
     \<and> map ev_item (mem_buf m') = [run_item 2, run_item 3]"
proof -
  let ?m = "run_memory (map run_item [1, 2, 3, 4])"
  let ?lo = "key_from_string ''aa''" and ?hi = "key_from_string ''aaa''"
  have z: "\<not> key_is_zero ?lo" "\<not> key_is_zero ?hi" by (simp_all add: key_is_zero_def)
  obtain r m' where d: "mem_delete_range 0 ?lo ?hi ?m = (r, m')" by fastforce
  have i: "mem_inv ?m" by (rule run_memory_inv) (simp add: run_item_def, rule ordered_runs, simp)
  have e: "mem_buf (remove_expired 0 ?m) = []" "\<not> mem_events_off (remove_expired 0 ?m)"
    by (simp_all add: remove_expired_def run_memory_def new_memory_def expire_loop.simps)
  note p = delete_range_exact [OF i z d, THEN conjunct1] delete_range_exact [OF i z d, THEN conjunct2]
  have "mem_get_item m' s = (if ''aa'' \<le> s \<and> s \<le> ''aaa'' then None else tree_get s (map run_item [1, 2, 3, 4]))" for s
    using p(2) by simp
  note g = this [of "''aa''"] this [of "''aaaa''"]
  have b: "map ev_item (mem_buf m') = [run_item 2, run_item 3]"
    using p(2) e by (simp add: less_char_def numeral_eq_Suc)
  have "mem_get_item m' ''aaaa'' = Some (run_item 4)"
    using g(2) by (simp add: numeral_eq_Suc less_char_def tree_get_def)
  with d p g(1) b show ?thesis by auto
qed

lemma items_refine_range_query_witness:
  "mem_items (\<lambda>i. 0) (\<lambda>i. run_memory (map run_item [1, 2, 3])) (run_range True 2) = Inr [run_item 3, run_item 2]"
proof -
  have o: "ordered (map run_item [1, 2, 3])" by (rule ordered_runs) simp
  have "mem_items (\<lambda>i. 0) (\<lambda>i. run_memory (map run_item [1, 2, 3])) (run_range True 2) =
      Inr (range_query (run_range True 2) (map run_item [1, 2, 3]))"
    by (rule items_refine_range_query [OF run_memory_tree o]) simp_all
  then show ?thesis
    by (simp add: range_query_def run_range_def in_range_def numeral_eq_Suc less_char_def)
qed

lemma ascending_items_reliable_witness:
  "\<exists>xs. mem_items (\<lambda>i. 0) (\<lambda>i. run_memory (map run_item [1, 2, 3])) (run_range False 9) = Inr xs
     \<and> sorted_wrt (<) (map ks xs) \<and> (length xs < 9 \<longleftrightarrow> length xs < 9 \<and> ''aa'' \<in> ks ` set xs)"
proof -
  let ?mem = "\<lambda>i :: nat. run_memory (map run_item [1, 2, 3])"
  have i: "mem_inv (?mem i)" for i
    by (rule run_memory_inv) (simp add: run_item_def, rule ordered_runs, simp)
  obtain xs where xs: "mem_items (\<lambda>i. 0) ?mem (run_range False 9) = Inr xs"
    by (simp add: mem_items_def Let_def)
  have "\<not> ip_descending (run_range False 9)" by (simp add: run_range_def)
  note a = ascending_items_reliable [where mem = ?mem, OF i this xs]
  have "mem_get_item (remove_expired 0 (?mem 0)) ''aa'' \<noteq> None"
    by (simp add: numeral_eq_Suc tree_get_def)
  moreover have "key_s (ip_start (run_range False 9)) \<le> ''aa''" "''aa'' \<le> key_s (ip_end (run_range False 9))"
    "ip_limit (run_range False 9) = 9"
    by (simp_all add: run_range_def less_char_def)
  ultimately have "length xs < 9 \<Longrightarrow> ''aa'' \<in> ks ` set xs" using a by simp
  with xs a show ?thesis by blast
qed

lemma descending_items_skip_witness:
  "\<exists>xs. mem_items (\<lambda>i. 0) (\<lambda>i. run_memory (map run_item (if i = 0 then 1 # 2 # [3 ..< 1002] else 1 # [3 ..< 1002]))) (run_range True 0) = Inr xs
     \<and> run_item 1 \<notin> set xs"
proof -
  define ns :: "nat list" where "ns = [3 ..< 1002]"
  have ns: "sorted_wrt (<) (1 # 2 # ns)" "length ns = 999" "n \<in> set ns \<Longrightarrow> 0 < n" for n
    unfolding ns_def by (auto simp del: upt_rec_numeral)
  let ?mem = "\<lambda>i :: nat. run_memory (map run_item (if i = 0 then 1 # 2 # ns else 1 # ns))"
  from ordered_runs [OF ns(1)] have o: "ordered (run_item 1 # run_item 2 # map run_item ns)" by (simp only: list.map)
  have "list_all (\<lambda>x. ''a'' \<le> ks x \<and> ks x \<le> ''b'') (map run_item (1 # 2 # ns))"
    unfolding list_all_iff set_map using run_in_range ns(3) by (auto simp del: replicate.simps)
  then have r: "list_all (\<lambda>x. key_s (ip_start (run_range True 0)) \<le> ks x \<and> ks x \<le> key_s (ip_end (run_range True 0)))
      (run_item 1 # run_item 2 # map run_item ns)"
    by (simp only: run_range_def items_params.simps key_s_from_string list.map)
  have "mem_items (\<lambda>i. 0) ?mem (run_range True 0) = Inr (rev (map run_item ns) @ [run_item 2])
      \<and> run_item 1 \<notin> set (rev (map run_item ns) @ [run_item 2])"
    by (rule descending_items_skip [OF o _ r]) (simp_all add: ns(2), simp_all add: run_range_def)
  then show ?thesis unfolding ns_def by blast
qed

lemma items_end_within_limit_witness:
  "mem_items (\<lambda>i. 0) (\<lambda>i. if i = 0 then run_memory [run_item 1] else undefined) (run_range False 9) =
   mem_items (\<lambda>i. 0) (\<lambda>i. run_memory [run_item 1]) (run_range False 9)"
  using items_end_within_limit [of "run_range False 9" "\<lambda>i. 0" "\<lambda>i. 0" "\<lambda>i. if i = 0 then run_memory [run_item 1] else undefined"
      "\<lambda>i. run_memory [run_item 1]"]
  by (simp add: run_range_def)

end
