(* ===== verification/AtomicWrite.thy ===== *)
theory AtomicWrite
  imports BackendRange
begin

text \<open>
  Batches of conditional writes: \<^verbatim>\<open>lib/backend/atomicwrite.go\<close> and \<^verbatim>\<open>lib/backend/memory/atomicwrite.go\<close>; and what the
  events of the in-memory backend tell about its items. The kinds of a condition and of an action are integers
  in Go, with zero for unset; the constructors \<open>CondUnset\<close>, \<open>CondUnknown\<close>, \<open>ActUnset\<close> and \<open>ActUnknown\<close> stand for
  zero and for the values without a name.
\<close>

section \<open>Conditional actions (lib/backend/atomicwrite.go)\<close>

datatype condition_kind = CondUnset | KindWhatever | KindExists | KindNotExists | KindRevision | CondUnknown
datatype action_kind = ActUnset | KindNop | KindPut | KindDelete | ActUnknown

record condition =
  cd_revision :: string
  cd_kind :: condition_kind

record action =
  ac_item :: item
  ac_kind :: action_kind

record conditional_action =
  ca_key :: key
  ca_condition :: condition
  ca_action :: action

definition err_condition_failed :: err where
  "err_condition_failed = Err CompareFailed ''condition failed, one or more resources were concurrently created|modified|deleted; please reload the current state and try again''"

definition condition_check :: "condition \<Rightarrow> err option" where
  "condition_check c =
     (if cd_kind c \<in> {KindWhatever, KindExists, KindNotExists, KindRevision} then None
      else Some (Err BadParameter ''unexpected condition kind''))"

definition action_check :: "action \<Rightarrow> err option" where
  "action_check a =
     (case ac_kind a of
        KindNop \<Rightarrow> None
      | KindDelete \<Rightarrow> None
      | KindPut \<Rightarrow> if it_value (ac_item a) = [] then Some (Err BadParameter ''missing required put parameter Item.Value'') else None
      | _ \<Rightarrow> Some (Err BadParameter ''unexpected action kind''))"

definition is_write :: "action \<Rightarrow> bool" where
  "is_write a \<longleftrightarrow> ac_kind a = KindPut \<or> ac_kind a = KindDelete"

definition conditional_action_check :: "conditional_action \<Rightarrow> err option" where
  "conditional_action_check c =
     (if key_s (ca_key c) = [] then Some (Err BadParameter ''conditional action missing required parameter Key'')
      else if cd_kind (ca_condition c) = CondUnset then Some (Err BadParameter ''conditional action missing required parameter Condition'')
      else if ac_kind (ca_action c) = ActUnset then Some (Err BadParameter ''conditional action missing required parameter Action'')
      else if condition_check (ca_condition c) \<noteq> None then Some (Err BadParameter ''conditional action contains malformed condition'')
      else if action_check (ca_action c) \<noteq> None then Some (Err BadParameter ''conditional action contains malformed action'')
      else if cd_kind (ca_condition c) = KindWhatever \<and> ac_kind (ca_action c) = KindNop
      then Some (Err BadParameter ''conditional action is ineffectual (Condition=Whatever,Action=Nop)'')
      else None)"

definition max_atomic_write_size :: nat where "max_atomic_write_size = 64"

text \<open>The loop of \<^verbatim>\<open>ValidateAtomicWrite\<close>, with the keys seen so far and whether there was a write.\<close>

fun validate_condacts :: "string set \<Rightarrow> bool \<Rightarrow> conditional_action list \<Rightarrow> err option" where
  "validate_condacts keys contains_write [] =
     (if contains_write then None else Some (Err BadParameter ''no conditional actions contain writes''))"
| "validate_condacts keys contains_write (c # cs) =
     (case conditional_action_check c of
        Some e \<Rightarrow> Some e
      | None \<Rightarrow>
          let k = key_string (ca_key c) in
          if k \<in> keys then Some (Err BadParameter ''multiple conditional actions target key'')
          else validate_condacts (insert k keys) (contains_write \<or> is_write (ca_action c)) cs)"

definition validate_atomic_write :: "conditional_action list \<Rightarrow> err option" where
  "validate_atomic_write cs =
     (if length cs > max_atomic_write_size then Some (Err BadParameter ''too many conditional actions for atomic application'')
      else if cs = [] then Some (Err BadParameter ''empty conditional action list'')
      else validate_condacts {} False cs)"

section \<open>The atomic write (lib/backend/memory/atomicwrite.go)\<close>

definition holds_condition :: "memory \<Rightarrow> conditional_action \<Rightarrow> err option" where
  "holds_condition m c =
     (let found = mem_get_item m (key_s (ca_key c)) in
      case cd_kind (ca_condition c) of
        KindWhatever \<Rightarrow> None
      | KindExists \<Rightarrow> if found = None then Some err_condition_failed else None
      | KindNotExists \<Rightarrow> if found \<noteq> None then Some err_condition_failed else None
      | KindRevision \<Rightarrow>
          (case found of
             None \<Rightarrow> Some err_condition_failed
           | Some it \<Rightarrow> if it_revision it \<noteq> cd_revision (ca_condition c) then Some err_condition_failed else None)
      | _ \<Rightarrow> Some (Err BadParameter ''unexpected condition kind in conditional action''))"

text \<open>The events of one action, on the items as they are before the batch.\<close>

definition action_events :: "memory \<Rightarrow> string \<Rightarrow> conditional_action \<Rightarrow> event list result" where
  "action_events m revision c =
     (case ac_kind (ca_action c) of
        KindNop \<Rightarrow> Inr []
      | KindPut \<Rightarrow> Inr [\<lparr>ev_type = OpPut, ev_item = (ac_item (ca_action c))\<lparr>it_key := ca_key c, it_revision := revision\<rparr>\<rparr>]
      | KindDelete \<Rightarrow> Inr (if mem_get_item m (key_s (ca_key c)) = None then [] else [delete_event (ca_key c)])
      | _ \<Rightarrow> Inl (Err BadParameter ''unexpected action kind in conditional action''))"

fun plan_writes :: "memory \<Rightarrow> string \<Rightarrow> bool \<Rightarrow> event list \<Rightarrow> conditional_action list \<Rightarrow> (bool \<times> event list) result" where
  "plan_writes m revision includes_put events [] = Inr (includes_put, events)"
| "plan_writes m revision includes_put events (c # cs) =
     (case holds_condition m c of
        Some e \<Rightarrow> Inl e
      | None \<Rightarrow>
          (case action_events m revision c of
             Inl e \<Rightarrow> Inl e
           | Inr evs \<Rightarrow> plan_writes m revision (includes_put \<or> ac_kind (ca_action c) = KindPut) (events @ evs) cs))"

definition process_event :: "event \<Rightarrow> memory \<Rightarrow> memory" where
  "process_event ev m =
     (case ev_type ev of OpPut \<Rightarrow> process_put (ev_item ev) m | OpDelete \<Rightarrow> process_delete (ks (ev_item ev)) m)"

definition mem_atomic_write :: "int \<Rightarrow> string \<Rightarrow> conditional_action list \<Rightarrow> memory \<Rightarrow> string result \<times> memory" where
  "mem_atomic_write now revision cs m =
     (case validate_atomic_write cs of
        Some e \<Rightarrow> (Inl e, m)
      | None \<Rightarrow>
          let m1 = remove_expired now m in
          (case plan_writes m1 revision False [] cs of
             Inl e \<Rightarrow> (Inl e, m1)
           | Inr (includes_put, events) \<Rightarrow>
               (Inr (if includes_put then revision else []), fold (\<lambda>ev m. emit ev (process_event ev m)) events m1)))"

section \<open>Events and items\<close>

text \<open>What a reader of the events knows of the items: the last event of a key decides.\<close>

definition apply_change :: "event \<Rightarrow> (string \<Rightarrow> item option) \<Rightarrow> string \<Rightarrow> item option" where
  "apply_change ev v =
     (case ev_type ev of OpPut \<Rightarrow> v(ks (ev_item ev) \<mapsto> ev_item ev) | OpDelete \<Rightarrow> v(ks (ev_item ev) := None))"

lemma process_put_get [simp]: "mem_get_item (process_put x m) k = (if k = ks x then Some x else mem_get_item m k)"
  by (simp add: process_put_def Let_def)

lemma process_event_get: "mem_get_item (process_event ev m) = apply_change ev (mem_get_item m)"
  by (auto simp: process_event_def apply_change_def fun_eq_iff split: event_type.split)

lemma process_event_inv: "mem_inv m \<Longrightarrow> mem_inv (process_event ev m)"
  by (simp add: process_event_def process_put_inv process_delete_inv split: event_type.split)

lemma process_event_frame [simp]:
  "mem_buf (process_event ev m) = mem_buf m" "mem_events_off (process_event ev m) = mem_events_off m"
  by (simp_all add: process_event_def process_put_def Let_def split: event_type.split)

abbreviation apply_events :: "event list \<Rightarrow> memory \<Rightarrow> memory" where
  "apply_events \<equiv> fold (\<lambda>ev m. emit ev (process_event ev m))"

lemma apply_events_get: "mem_get_item (apply_events evs m) s = fold apply_change evs (mem_get_item m) s"
  by (induction evs arbitrary: m) (simp_all add: process_event_get)

lemma apply_events_inv: "mem_inv m \<Longrightarrow> mem_inv (apply_events evs m)"
  by (induction evs arbitrary: m) (simp_all add: process_event_inv)

lemma apply_events_emitted:
  "mem_events_off (apply_events evs m) = mem_events_off m \<and>
   mem_buf (apply_events evs m) = mem_buf m @ (if mem_events_off m then [] else evs)"
  by (induction evs arbitrary: m) (auto simp: emit_def)

lemma replay_untouched: "s \<notin> (\<lambda>ev. ks (ev_item ev)) ` set evs \<Longrightarrow> fold apply_change evs v s = v s"
  by (induction evs arbitrary: v) (auto simp: apply_change_def split: event_type.split)

section \<open>All or nothing\<close>

text \<open>A key of the package: only the key without an end carries that flag.\<close>

definition key_wf :: "key \<Rightarrow> bool" where
  "key_wf k \<longleftrightarrow> (key_no_end k \<longrightarrow> key_s k = [] \<or> key_s k = no_end)"

lemma key_wf_constructors:
  "key_wf zero_key" "key_wf (new_key cs)" "key_wf (exact_key cs)" "key_wf (key_from_string s)"
  "key_wf k \<Longrightarrow> key_wf (key_to_exact k)" "key_wf k \<Longrightarrow> key_wf p \<Longrightarrow> key_wf (key_append k p)" "key_wf (range_end k)"
  by (simp_all add: key_wf_def zero_key_def new_key_def exact_key_def key_from_string_def key_to_exact_def key_append_def
      range_end_def Let_def split: option.split)

lemma key_string_wf: "key_wf k \<Longrightarrow> key_s k \<noteq> [] \<Longrightarrow> key_string k = key_s k"
  by (auto simp: key_wf_def key_string_def)

definition satisfied :: "memory \<Rightarrow> conditional_action \<Rightarrow> bool" where
  "satisfied m c \<longleftrightarrow>
     (case cd_kind (ca_condition c) of
        KindWhatever \<Rightarrow> True
      | KindExists \<Rightarrow> mem_get_item m (key_s (ca_key c)) \<noteq> None
      | KindNotExists \<Rightarrow> mem_get_item m (key_s (ca_key c)) = None
      | KindRevision \<Rightarrow> map_option it_revision (mem_get_item m (key_s (ca_key c))) = Some (cd_revision (ca_condition c))
      | _ \<Rightarrow> False)"

definition written :: "string \<Rightarrow> conditional_action \<Rightarrow> item option \<Rightarrow> item option" where
  "written revision c old =
     (case ac_kind (ca_action c) of
        KindPut \<Rightarrow> Some ((ac_item (ca_action c))\<lparr>it_key := ca_key c, it_revision := revision\<rparr>)
      | KindDelete \<Rightarrow> None
      | _ \<Rightarrow> old)"

definition valid_batch :: "conditional_action list \<Rightarrow> bool" where
  "valid_batch cs \<longleftrightarrow> cs \<noteq> [] \<and> length cs \<le> 64 \<and> (\<forall>c \<in> set cs. conditional_action_check c = None)
     \<and> distinct (map (\<lambda>c. key_string (ca_key c)) cs) \<and> (\<exists>c \<in> set cs. is_write (ca_action c))"

lemma validate_condacts_None:
  "validate_condacts keys w cs = None \<longleftrightarrow> (\<forall>c \<in> set cs. conditional_action_check c = None \<and> key_string (ca_key c) \<notin> keys)
     \<and> distinct (map (\<lambda>c. key_string (ca_key c)) cs) \<and> (w \<or> (\<exists>c \<in> set cs. is_write (ca_action c)))"
  proof (induction keys w cs rule: validate_condacts.induct)
  case (2 keys w c cs)
  then show ?case by (cases "conditional_action_check c") (auto simp: Let_def image_iff)
qed simp

lemma validate_atomic_write_None: "validate_atomic_write cs = None \<longleftrightarrow> valid_batch cs"
  by (auto simp: validate_atomic_write_def valid_batch_def validate_condacts_None max_atomic_write_size_def)

lemma holds_condition_None: "holds_condition m c = None \<longleftrightarrow> satisfied m c"
  by (auto simp: holds_condition_def satisfied_def Let_def split: condition_kind.split option.split)

lemma action_events_ok:
  assumes "conditional_action_check c = None"
  obtains evs where "action_events m rv c = Inr evs" and "(\<lambda>ev. ks (ev_item ev)) ` set evs \<subseteq> {key_s (ca_key c)}"
    and "\<And>v. v (key_s (ca_key c)) = mem_get_item m (key_s (ca_key c)) \<Longrightarrow>
      fold apply_change evs v (key_s (ca_key c)) = written rv c (mem_get_item m (key_s (ca_key c)))"
  using assms
  by (auto simp: conditional_action_check_def action_check_def action_events_def written_def apply_change_def delete_event_def
      split: if_split_asm action_kind.split_asm)

lemma plan_writes_err: "\<exists>c \<in> set cs. \<not> satisfied m c \<Longrightarrow> is_err (plan_writes m rv p evs cs)"
  by (induction cs arbitrary: p evs) (auto split: option.split sum.split simp flip: holds_condition_None)

lemma plan_writes_keys:
  "plan_writes m rv p acc cs = Inr (q, evs) \<Longrightarrow>
     (\<lambda>ev. ks (ev_item ev)) ` set evs \<subseteq> (\<lambda>ev. ks (ev_item ev)) ` set acc \<union> (\<lambda>c. key_s (ca_key c)) ` set cs"
proof (induction cs arbitrary: p acc)
  case (Cons c cs)
  from Cons.prems obtain e where e: "action_events m rv c = Inr e"
    "plan_writes m rv (p \<or> ac_kind (ca_action c) = KindPut) (acc @ e) cs = Inr (q, evs)"
    by (auto split: option.split_asm sum.split_asm)
  then have "(\<lambda>ev. ks (ev_item ev)) ` set e \<subseteq> {key_s (ca_key c)}"
    by (auto simp: action_events_def delete_event_def split: action_kind.split_asm if_split_asm)
  with Cons.IH [OF e(2)] show ?case by (simp add: image_Un) blast
qed simp

text \<open>The keys of a valid batch are different, so what an earlier action does is not seen by a later one.\<close>

lemma plan_writes_ok:
  assumes "\<forall>c \<in> set cs. conditional_action_check c = None \<and> satisfied m c" and "distinct (map (\<lambda>c. key_s (ca_key c)) cs)"
  obtains evs where "plan_writes m rv p acc cs = Inr (p \<or> (\<exists>c \<in> set cs. ac_kind (ca_action c) = KindPut), acc @ evs)"
    and "(\<lambda>ev. ks (ev_item ev)) ` set evs \<subseteq> (\<lambda>c. key_s (ca_key c)) ` set cs"
    and "\<And>c v. c \<in> set cs \<Longrightarrow> v (key_s (ca_key c)) = mem_get_item m (key_s (ca_key c)) \<Longrightarrow>
      fold apply_change evs v (key_s (ca_key c)) = written rv c (mem_get_item m (key_s (ca_key c)))"
  using assms
proof (induction cs arbitrary: p acc thesis)
  case (Cons c cs)
  let ?k = "key_s (ca_key c)"
  obtain e1 where e1: "action_events m rv c = Inr e1" "(\<lambda>ev. ks (ev_item ev)) ` set e1 \<subseteq> {?k}"
    "\<And>v. v ?k = mem_get_item m ?k \<Longrightarrow> fold apply_change e1 v ?k = written rv c (mem_get_item m ?k)"
    using action_events_ok [of c m rv] Cons.prems(2) by auto
  obtain e2 where e2: "plan_writes m rv (p \<or> ac_kind (ca_action c) = KindPut) (acc @ e1) cs =
      Inr ((p \<or> ac_kind (ca_action c) = KindPut) \<or> (\<exists>c \<in> set cs. ac_kind (ca_action c) = KindPut), (acc @ e1) @ e2)"
    "(\<lambda>ev. ks (ev_item ev)) ` set e2 \<subseteq> (\<lambda>c. key_s (ca_key c)) ` set cs"
    "\<And>c v. c \<in> set cs \<Longrightarrow> v (key_s (ca_key c)) = mem_get_item m (key_s (ca_key c)) \<Longrightarrow>
      fold apply_change e2 v (key_s (ca_key c)) = written rv c (mem_get_item m (key_s (ca_key c)))"
    by (rule Cons.IH [of "p \<or> ac_kind (ca_action c) = KindPut" "acc @ e1"]) (use Cons.prems(2,3) in auto)
  have "?k \<notin> (\<lambda>ev. ks (ev_item ev)) ` set e2" using e2(2) Cons.prems(3) by auto
  moreover have "key_s (ca_key d) \<notin> (\<lambda>ev. ks (ev_item ev)) ` set e1" if "d \<in> set cs" for d
    using e1(2) Cons.prems(3) that by (fastforce simp: image_iff subset_iff)
  ultimately have w: "fold apply_change (e1 @ e2) v (key_s (ca_key d)) = written rv d (mem_get_item m (key_s (ca_key d)))"
    if "d \<in> set (c # cs)" "v (key_s (ca_key d)) = mem_get_item m (key_s (ca_key d))" for d v
    using that e1(3) [of v] e2(3) [of d "fold apply_change e1 v"] by (auto simp: replay_untouched)
  have "holds_condition m c = None" using Cons.prems(2) by (simp add: holds_condition_None)
  then have "plan_writes m rv p acc (c # cs) = Inr (p \<or> (\<exists>c \<in> set (c # cs). ac_kind (ca_action c) = KindPut), acc @ e1 @ e2)"
    using e1(1) e2(1) by (simp add: disj_assoc)
  then show ?case by (rule Cons.prems(1)) (use e1(2) e2(2) w in auto)
qed simp

text \<open>
  Property C33: an atomic write happens as a whole or not at all. The batch is applied exactly when it is
  well-formed and every condition holds of the unexpired items: then each of its keys has what its action
  says, with one new revision for all that were put, and no other key is changed. Otherwise an error is returned and
  nothing is changed, apart from the removal of expired items. The backend stays well-formed.
\<close>

theorem atomic_write_all_or_nothing:
  assumes "mem_inv m" and "\<forall>c \<in> set cs. key_wf (ca_key c)" and "mem_atomic_write now rv cs m = (r, m')"
  shows "mem_inv m' \<and>
    (if valid_batch cs \<and> (\<forall>c \<in> set cs. satisfied (remove_expired now m) c)
     then r = Inr (if \<exists>c \<in> set cs. ac_kind (ca_action c) = KindPut then rv else [])
       \<and> (\<forall>c \<in> set cs. mem_get_item m' (key_s (ca_key c)) = written rv c (mem_get_item (remove_expired now m) (key_s (ca_key c))))
       \<and> (\<forall>s. s \<notin> (\<lambda>c. key_s (ca_key c)) ` set cs \<longrightarrow> mem_get_item m' s = mem_get_item (remove_expired now m) s)
     else is_err r \<and> (m' = m \<or> m' = remove_expired now m))"
proof (cases "valid_batch cs \<and> (\<forall>c \<in> set cs. satisfied (remove_expired now m) c)")
  case True
  let ?m = "remove_expired now m"
  have "\<forall>c \<in> set cs. key_string (ca_key c) = key_s (ca_key c)"
    using True assms(2) by (auto simp: valid_batch_def conditional_action_check_def intro!: key_string_wf split: if_split_asm)
  then have "distinct (map (\<lambda>c. key_s (ca_key c)) cs)" using True by (simp add: valid_batch_def cong: map_cong)
  with True obtain evs where
    p: "plan_writes ?m rv False [] cs = Inr (False \<or> (\<exists>c \<in> set cs. ac_kind (ca_action c) = KindPut), [] @ evs)"
    and k: "(\<lambda>ev. ks (ev_item ev)) ` set evs \<subseteq> (\<lambda>c. key_s (ca_key c)) ` set cs"
    and w: "\<And>c v. c \<in> set cs \<Longrightarrow> v (key_s (ca_key c)) = mem_get_item ?m (key_s (ca_key c)) \<Longrightarrow>
      fold apply_change evs v (key_s (ca_key c)) = written rv c (mem_get_item ?m (key_s (ca_key c)))"
    using plan_writes_ok [of cs ?m rv False "[]"] unfolding valid_batch_def by blast
  have m': "r = Inr (if \<exists>c \<in> set cs. ac_kind (ca_action c) = KindPut then rv else [])" "m' = apply_events evs ?m"
    using True assms(3) p by (auto simp: mem_atomic_write_def validate_atomic_write_None [THEN iffD2] Let_def)
  then have "mem_inv m'" by (simp add: apply_events_inv remove_expired_inv assms(1))
  with True m' k w show ?thesis by (auto simp: apply_events_get intro!: replay_untouched)
next
  case False
  then have "is_err r \<and> (m' = m \<or> m' = remove_expired now m)"
    using assms(3) plan_writes_err [of cs "remove_expired now m" rv False "[]"] validate_atomic_write_None [of cs]
    by (auto simp: mem_atomic_write_def is_err_def Let_def split: option.split_asm sum.split_asm)
  with False assms(1) remove_expired_inv show ?thesis by auto
qed

section \<open>The events tell the store\<close>

text \<open>From one state to another, the events in between turn the old items into the new ones.\<close>

definition logged :: "memory \<Rightarrow> memory \<Rightarrow> bool" where
  "logged m m' \<longleftrightarrow> mem_events_off m' = mem_events_off m \<and> (\<not> mem_events_off m \<longrightarrow>
     (\<exists>evs. mem_buf m' = mem_buf m @ evs \<and> (\<forall>s. mem_get_item m' s = fold apply_change evs (mem_get_item m) s)))"

lemma logged_refl [simp]: "logged m m"
  by (auto simp: logged_def intro: exI [of _ "[]"])

lemma logged_trans: "logged a b \<Longrightarrow> logged b c \<Longrightarrow> logged a c"
  unfolding logged_def by (auto simp: fun_eq_iff [symmetric])

lemma logged_apply: "logged m (apply_events evs m)"
  using apply_events_emitted [of evs m] by (auto simp: logged_def apply_events_get)

lemma logged_one: "logged m (emit ev (process_event ev m))"
  using logged_apply [of m "[ev]"] by simp

lemma logged_store: "logged m (store x m)"
  using logged_one [of m "\<lparr>ev_type = OpPut, ev_item = x\<rparr>"] by (simp add: store_def process_event_def)

lemma logged_delete: "logged m (emit (delete_event k) (process_delete (key_s k) m))"
  using logged_one [of m "delete_event k"] by (simp add: process_event_def delete_event_def)

lemma logged_delete_all: "logged m (fold delete_one xs m)"
proof (induction xs arbitrary: m)
  case (Cons x xs)
  have "logged m (delete_one x m)"
    using logged_one [of m "\<lparr>ev_type = OpDelete, ev_item = x\<rparr>"] by (simp add: delete_one_def process_event_def)
  with Cons show ?case by (auto intro: logged_trans)
qed simp

lemma logged_expire: "logged m (expire_loop now m)"
proof (induction now m rule: expire_loop.induct)
  case (1 now m)
  show ?case
  proof (cases "mem_heap m")
    case Nil
    then show ?thesis by (simp add: expire_loop.simps)
  next
    case (Cons x h)
    let ?m = "emit (delete_event (it_key x))
      (m\<lparr>mem_heap := heap_pop expiry_sec (mem_heap m), mem_tree := tree_del (ks x) (mem_tree m)\<rparr>)"
    have "logged m ?m" by (auto simp: logged_def emit_def apply_change_def delete_event_def intro!: exI [of _ "[delete_event (it_key x)]"])
    then show ?thesis using "1.IH" [OF Cons] Cons by (subst expire_loop.simps) (auto intro: logged_trans)
  qed
qed

lemma logged_remove_expired: "logged m (remove_expired now m)"
  by (simp add: remove_expired_def logged_expire)

text \<open>Every operation on the items of the backend.\<close>

inductive mem_change :: "memory \<Rightarrow> memory \<Rightarrow> bool" where
  single: "mem_step m m' \<Longrightarrow> mem_change m m'"
| delete_range: "mem_delete_range now lo hi m = (u, m') \<Longrightarrow> mem_change m m'"
| atomic_write: "mem_atomic_write now rv cs m = (r, m') \<Longrightarrow> mem_change m m'"

lemma mem_step_logged: "mem_step m m' \<Longrightarrow> logged m m'"
  by (induction rule: mem_step.induct)
    (auto simp: mem_create_def mem_get_def mem_update_def mem_put_def mem_delete_def mem_keep_alive_def mem_compare_and_swap_def
      mem_conditional_delete_def mem_conditional_update_def Let_def split: if_split_asm option.split_asm
      intro: logged_remove_expired logged_trans [OF logged_remove_expired logged_store] logged_trans [OF logged_remove_expired logged_delete])

lemma mem_change_logged: "mem_change m m' \<Longrightarrow> logged m m'"
proof (induction rule: mem_change.induct)
  case (delete_range now lo hi m u m')
  then show ?case
    by (auto simp: mem_delete_range_def Let_def split: if_split_asm intro: logged_trans [OF logged_remove_expired logged_delete_all])
next
  case (atomic_write now rv cs m r m')
  then show ?case
    by (auto simp: mem_atomic_write_def Let_def split: option.split_asm sum.split_asm prod.split_asm
        intro: logged_remove_expired logged_trans [OF logged_remove_expired logged_apply])
qed (rule mem_step_logged)

lemma mem_change_inv: "mem_change m m' \<Longrightarrow> mem_inv m \<Longrightarrow> mem_inv m'"
proof (induction rule: mem_change.induct)
  case (delete_range now lo hi m u m')
  then show ?case
    by (auto simp: mem_delete_range_def Let_def split: if_split_asm intro: delete_all_inv remove_expired_inv)
next
  case (atomic_write now rv cs m r m')
  then show ?case
    by (auto simp: mem_atomic_write_def Let_def split: option.split_asm sum.split_asm prod.split_asm
        intro: remove_expired_inv apply_events_inv)
qed (rule mem_step_inv)

section \<open>A concrete batch\<close>

definition put_action :: "string \<Rightarrow> condition_kind \<Rightarrow> conditional_action" where
  "put_action k c = \<lparr>ca_key = new_key [k], ca_condition = \<lparr>cd_revision = [], cd_kind = c\<rparr>,
     ca_action = \<lparr>ac_item = sample_item k 9000000000, ac_kind = KindPut\<rparr>\<rparr>"

definition delete_action :: "string \<Rightarrow> string \<Rightarrow> conditional_action" where
  "delete_action k rv = \<lparr>ca_key = new_key [k], ca_condition = \<lparr>cd_revision = rv, cd_kind = KindRevision\<rparr>,
     ca_action = \<lparr>ac_item = sample_item k 0, ac_kind = KindDelete\<rparr>\<rparr>"

lemma atomic_write_all_or_nothing_witness:
  "map_option it_revision (mem_get_item (snd (mem_atomic_write 0 ''r3'' [put_action ''c'' KindNotExists, delete_action ''b'' ''r2''] sample_memory)) ''/c'') = Some ''r3''
   \<and> mem_get_item (snd (mem_atomic_write 0 ''r3'' [put_action ''c'' KindNotExists, delete_action ''b'' ''r2''] sample_memory)) ''/b'' = None
   \<and> is_err (fst (mem_atomic_write 0 ''r3'' [put_action ''c'' KindNotExists, delete_action ''b'' ''r9''] sample_memory))"
proof -
  have e: "remove_expired 0 sample_memory = sample_memory"
    by (simp add: sample_memory_eq remove_expired_def expire_loop.simps sample_item_def live_def)
  have i: "mem_inv sample_memory" by (rule mem_reach_inv [OF sample_memory_reachable])
  note d = valid_batch_def put_action_def delete_action_def conditional_action_check_def condition_check_def action_check_def is_write_def
    key_string_def new_key_def sample_item_def satisfied_def written_def sample_memory_eq tree_get_def
  have "valid_batch [put_action ''c'' KindNotExists, delete_action ''b'' rv]" for rv by (simp add: d)
  moreover have "\<forall>c \<in> set [put_action ''c'' KindNotExists, delete_action ''b'' rv]. key_wf (ca_key c)" for rv
    by (simp add: d key_wf_def)
  ultimately show ?thesis
    using atomic_write_all_or_nothing [OF i _ surjective_pairing, of "[put_action ''c'' KindNotExists, delete_action ''b'' ''r2'']" 0 "''r3''"]
      atomic_write_all_or_nothing [OF i _ surjective_pairing, of "[put_action ''c'' KindNotExists, delete_action ''b'' ''r9'']" 0 "''r3''"]
    unfolding e by (simp add: d)
qed

end
