(* ===== verification/GoText.thy ===== *)
theory GoText
  imports Prelude
begin

text \<open>
  The parts of the Go packages \<^verbatim>\<open>unicode/utf8\<close>, \<^verbatim>\<open>unicode\<close> and \<^verbatim>\<open>strings\<close> that decode
  text. A rune is a natural number. Decoding follows \<^verbatim>\<open>utf8.DecodeRuneInString\<close>: a byte
  that starts no well-formed sequence is the rune U+FFFD of width one. The case tables of
  Unicode beyond ASCII are data of the standard and not code: they are the argument
  \<^verbatim>\<open>U\<close> of every function that folds case, and the lemmas hold for every table.
\<close>

section \<open>UTF-8\<close>

definition rune_error :: nat where
  "rune_error = 65533"

abbreviation byte :: "char \<Rightarrow> nat" where
  "byte c \<equiv> of_char c"

definition is_cont :: "nat \<Rightarrow> bool" where
  "is_cont b \<longleftrightarrow> 128 \<le> b \<and> b \<le> 191"

text \<open>\<^verbatim>\<open>utf8.DecodeRuneInString\<close> of a non-empty string, as the bytes of its head: rune, width.\<close>

definition decode_two :: "nat \<Rightarrow> nat list \<Rightarrow> nat \<times> nat" where
  "decode_two b0 bs =
     (case bs of b1 # _ \<Rightarrow> if is_cont b1 then ((b0 - 192) * 64 + (b1 - 128), 2) else (rune_error, 1)
      | [] \<Rightarrow> (rune_error, 1))"

definition decode_three :: "nat \<Rightarrow> nat list \<Rightarrow> nat \<times> nat" where
  "decode_three b0 bs =
     (case bs of b1 # b2 # _ \<Rightarrow>
        if (if b0 = 224 then 160 else 128) \<le> b1 \<and> b1 \<le> (if b0 = 237 then 159 else 191) \<and> is_cont b2
        then ((b0 - 224) * 4096 + (b1 - 128) * 64 + (b2 - 128), 3) else (rune_error, 1)
      | _ \<Rightarrow> (rune_error, 1))"

definition decode_four :: "nat \<Rightarrow> nat list \<Rightarrow> nat \<times> nat" where
  "decode_four b0 bs =
     (case bs of b1 # b2 # b3 # _ \<Rightarrow>
        if (if b0 = 240 then 144 else 128) \<le> b1 \<and> b1 \<le> (if b0 = 244 then 143 else 191)
           \<and> is_cont b2 \<and> is_cont b3
        then ((b0 - 240) * 262144 + (b1 - 128) * 4096 + (b2 - 128) * 64 + (b3 - 128), 4)
        else (rune_error, 1)
      | _ \<Rightarrow> (rune_error, 1))"

definition decode_rune :: "nat \<Rightarrow> nat list \<Rightarrow> nat \<times> nat" where
  "decode_rune b0 bs =
     (if b0 < 128 then (b0, 1)
      else if 194 \<le> b0 \<and> b0 \<le> 223 then decode_two b0 bs
      else if 224 \<le> b0 \<and> b0 \<le> 239 then decode_three b0 bs
      else if 240 \<le> b0 \<and> b0 \<le> 244 then decode_four b0 bs
      else (rune_error, 1))"

lemma decode_rune_width: "decode_rune b0 bs = (r, w) \<Longrightarrow> 1 \<le> w \<and> w \<le> Suc (length bs)"
  by (auto simp: decode_rune_def decode_two_def decode_three_def decode_four_def
      split: if_splits list.splits)

text \<open>The loop \<^verbatim>\<open>for _, r := range s\<close>: each rune with the bytes it was decoded from.\<close>

function decode :: "string \<Rightarrow> (nat \<times> string) list" where
  "decode [] = []"
| "decode (c # s) =
     (let (r, w) = decode_rune (byte c) (map byte s)
      in (r, c # take (w - 1) s) # decode (drop (w - 1) s))"
  by pat_completeness auto
termination
  by (relation "measure length") auto

definition runes :: "string \<Rightarrow> nat list" where
  "runes s = map fst (decode s)"

definition valid_utf8 :: "string \<Rightarrow> bool" where
  "valid_utf8 s \<longleftrightarrow> list_all (\<lambda>(r, bs). \<not> (r = rune_error \<and> length bs = 1)) (decode s)"

text \<open>\<^verbatim>\<open>utf8.AppendRune\<close>: a value that is no rune is written as U+FFFD.\<close>

definition encode_rune :: "nat \<Rightarrow> string" where
  "encode_rune r =
     (if r < 128 then [char_of r]
      else if r < 2048 then [char_of (192 + r div 64), char_of (128 + r mod 64)]
      else if 1114112 \<le> r \<or> 55296 \<le> r \<and> r \<le> 57343
        then [char_of (239::nat), char_of (191::nat), char_of (189::nat)]
      else if r < 65536
        then [char_of (224 + r div 4096), char_of (128 + r div 64 mod 64), char_of (128 + r mod 64)]
      else [char_of (240 + r div 262144), char_of (128 + r div 4096 mod 64),
            char_of (128 + r div 64 mod 64), char_of (128 + r mod 64)])"

definition is_ascii :: "string \<Rightarrow> bool" where
  "is_ascii s \<longleftrightarrow> list_all (\<lambda>c. byte c < 128) s"

lemma is_ascii_simps [simp]:
  "is_ascii []" "is_ascii (c # s) \<longleftrightarrow> byte c < 128 \<and> is_ascii s"
  "is_ascii (s @ t) \<longleftrightarrow> is_ascii s \<and> is_ascii t"
  by (simp_all add: is_ascii_def)

lemma decode_ascii_Cons [simp]:
  "byte c < 128 \<Longrightarrow> decode (c # s) = (byte c, [c]) # decode s"
  by (simp add: decode_rune_def)

lemma decode_ascii: "is_ascii s \<Longrightarrow> decode s = map (\<lambda>c. (byte c, [c])) s"
  by (induction s) (auto simp del: decode.simps(2))

lemma runes_ascii: "is_ascii s \<Longrightarrow> runes s = map byte s"
  by (simp add: runes_def decode_ascii)

lemma runes_Nil [simp]: "runes [] = []"
  by (simp add: runes_def)

lemma concat_decode [simp]: "concat (map snd (decode s)) = s"
proof (induction s rule: decode.induct)
  case (2 c s)
  obtain r w where rw: "decode_rune (byte c) (map byte s) = (r, w)" by fastforce
  with "2" show ?case by simp
qed simp

lemma decode_segment_nonempty: "(r, bs) \<in> set (decode s) \<Longrightarrow> bs \<noteq> []"
  by (induction s rule: decode.induct) (auto simp: Let_def split: prod.splits)

text \<open>An ASCII byte ends every segment before it.\<close>

lemma decode_rune_stop:
  assumes "\<not> is_cont c" "c < 128"
  shows "decode_rune b0 (bs @ c # r) = decode_rune b0 bs"
proof -
  have n: "\<not> 144 \<le> c" "\<not> 160 \<le> c" "\<not> 128 \<le> c" using assms(2) by auto
  have two: "decode_two b0 (bs @ c # r) = decode_two b0 bs" 
    using assms by (cases bs) (auto simp: decode_two_def)
  have three: "decode_three b0 (bs @ c # r) = decode_three b0 bs"
    using assms n by (cases bs; cases "tl bs") (auto simp: decode_three_def split: list.splits)
  have four: "decode_four b0 (bs @ c # r) = decode_four b0 bs"
    using assms n by (cases bs; cases "tl bs"; cases "tl (tl bs)") (auto simp: decode_four_def split: list.splits)
  show ?thesis by (simp add: decode_rune_def two three four)
qed

lemma decode_split_ascii:
  assumes "byte c < 128"
  shows "decode (a @ c # b) = decode a @ (byte c, [c]) # decode b"
proof (induction a rule: decode.induct)
  case 1
  with assms show ?case by (simp del: decode.simps(2))
next
  case (2 x s)
  obtain r w where rw: "decode_rune (byte x) (map byte s) = (r, w)" by fastforce
  have nc: "\<not> is_cont (byte c)" using assms by (simp add: is_cont_def)
  have rw': "decode_rune (byte x) (map byte (s @ c # b)) = (r, w)"
    using decode_rune_stop [OF nc assms, of "byte x" "map byte s" "map byte b"] rw by simp
  have w: "w - 1 \<le> length s" using decode_rune_width [OF rw] by auto
  from "2" [OF rw [symmetric] refl] have IH: "decode (drop (w - 1) s @ c # b) =
      decode (drop (w - 1) s) @ (byte c, [c]) # decode b" .
  show ?case using rw rw' w IH by simp
qed

lemma runes_split_ascii: "byte c < 128 \<Longrightarrow> runes (a @ c # b) = runes a @ byte c # runes b"
  by (simp add: runes_def decode_split_ascii)

text \<open>A segment is one ASCII byte, or only bytes with the high bit set.\<close>

lemma decode_rune_high:
  assumes "decode_rune b0 bs = (r, w)" and "128 \<le> b0"
  shows "128 \<le> r \<and> (\<forall>b \<in> set (take (w - 1) bs). 128 \<le> b)"
  using assms
  by (auto simp: decode_rune_def decode_two_def decode_three_def decode_four_def is_cont_def
      rune_error_def take_Cons' split: if_splits list.splits)

lemma decode_segment_cases:
  assumes "(r, bs) \<in> set (decode s)"
  shows "(\<exists>c. byte c < 128 \<and> r = byte c \<and> bs = [c]) \<or> (128 \<le> r \<and> (\<forall>c \<in> set bs. 128 \<le> byte c))"
  using assms
proof (induction s rule: decode.induct)
  case (2 c s)
  obtain r' w where rw: "decode_rune (byte c) (map byte s) = (r', w)" by fastforce
  show ?case
  proof (cases "byte c < 128")
    case True
    with "2" rw show ?thesis by (auto simp: decode_rune_def)
  next
    case False
    with decode_rune_high [OF rw]
    have high: "128 \<le> r' \<and> (\<forall>x \<in> set (c # take (w - 1) s). 128 \<le> byte x)"
      by (auto simp: take_map)
    from "2.prems" rw have "(r = r' \<and> bs = c # take (w - 1) s) \<or> (r, bs) \<in> set (decode (drop (w - 1) s))"
      by auto
    with high "2.IH" [OF rw [symmetric] refl] show ?thesis by auto
  qed
qed simp

lemma mem_decode: "c \<in> set s \<longleftrightarrow> (\<exists>q bs. (q, bs) \<in> set (decode s) \<and> c \<in> set bs)"
  by (subst concat_decode [of s, symmetric]) (force simp del: concat_decode)

lemma mem_runes: "r \<in> set (runes s) \<longleftrightarrow> (\<exists>bs. (r, bs) \<in> set (decode s))"
  by (force simp: runes_def)

lemma set_ascii_runes:
  assumes "r < 128" shows "r \<in> set (runes s) \<longleftrightarrow> char_of r \<in> set s"
proof
  assume "r \<in> set (runes s)"
  then obtain bs where bs: "(r, bs) \<in> set (decode s)" by (auto simp: mem_runes)
  with decode_segment_cases [OF bs] assms have "bs = [char_of r]" by auto
  with bs show "char_of r \<in> set s" using mem_decode [of "char_of r" s] by (metis list.set_intros(1))
next
  assume "char_of r \<in> set s"
  then obtain q bs where q: "(q, bs) \<in> set (decode s)" "char_of r \<in> set bs"
    using mem_decode [of "char_of r" s] by blast
  with decode_segment_cases [OF q(1)] assms have "q = r" by (fastforce simp: not_le)
  with q show "r \<in> set (runes s)" by (auto simp: mem_runes)
qed

text \<open>Whatever is checked to be ASCII rune by rune is ASCII byte by byte.\<close>

lemma runes_lt_128_ascii:
  assumes "\<forall>r \<in> set (runes s). r < 128" shows "is_ascii s"
proof -
  have "byte c < 128" if c: "c \<in> set s" for c
  proof -
    from c obtain q bs where q: "(q, bs) \<in> set (decode s)" "c \<in> set bs"
      using mem_decode [of c s] by blast
    from q(1) have "q \<in> set (runes s)" by (auto simp: mem_runes)
    with assms decode_segment_cases [OF q(1)] q(2) show ?thesis by fastforce
  qed
  then show ?thesis by (simp add: is_ascii_def list_all_iff)
qed

text \<open>On well-formed text, writing the decoded runes back gives the same bytes.\<close>

lemma is_contE: "is_cont b \<Longrightarrow> (\<And>x. b = 128 + x \<Longrightarrow> x < 64 \<Longrightarrow> P) \<Longrightarrow> P"
  by (auto simp: is_cont_def dest!: le_Suc_ex)

lemma radix64: "y < 64 \<Longrightarrow> (q * 64 + y) div 64 = q" "y < 64 \<Longrightarrow> (q * 64 + y) mod 64 = (y::nat)"
  by simp_all

lemma encode_three:
  assumes "a < 16" "x < 64" "y < 64" "a = 0 \<longrightarrow> 32 \<le> x" "a = 13 \<longrightarrow> x < 32"
  shows "encode_rune (a * 4096 + x * 64 + y) = [char_of (224 + a), char_of (128 + x), char_of (128 + y)]"
proof -
  let ?r = "a * 4096 + x * 64 + y"
  have low: "x * 64 + y < 4096" using assms by linarith
  have d: "?r div 4096 = a" "?r div 64 = a * 64 + x" "?r mod 64 = y" "(a * 64 + x) mod 64 = x"
  proof -
    have r: "?r = (a * 64 + x) * 64 + y" by (simp add: algebra_simps)
    show "?r div 64 = a * 64 + x" "?r mod 64 = y" "(a * 64 + x) mod 64 = x"
      unfolding r using assms(2,3) by (simp_all only: radix64)
    have "?r div 4096 = ?r div 64 div 64" by (simp add: div_mult2_eq [symmetric])
    then show "?r div 4096 = a" unfolding r using assms(2,3) by (simp only: radix64)
  qed
  have "2048 \<le> ?r" using assms by (cases "a = 0") auto
  moreover have "?r < 65536" using assms low by linarith
  moreover have "?r < 55296 \<or> 57343 < ?r"
  proof -
    consider "a \<le> 12" | "a = 13" | "14 \<le> a" by linarith
    then show ?thesis using low assms by cases auto
  qed
  ultimately show ?thesis using d by (auto simp: encode_rune_def)
qed

lemma encode_four:
  assumes "a \<le> 4" "x < 64" "y < 64" "z < 64" "a = 0 \<longrightarrow> 16 \<le> x" "a = 4 \<longrightarrow> x < 16"
  shows "encode_rune (a * 262144 + x * 4096 + y * 64 + z) =
    [char_of (240 + a), char_of (128 + x), char_of (128 + y), char_of (128 + z)]"
proof -
  let ?r = "a * 262144 + x * 4096 + y * 64 + z"
  have low: "x * 4096 + y * 64 + z < 262144" "y * 64 + z < 4096" using assms by linarith+
  have d: "?r div 262144 = a" "?r div 4096 = a * 64 + x" "?r div 64 = (a * 64 + x) * 64 + y"
    "?r mod 64 = z" "(a * 64 + x) mod 64 = x" "((a * 64 + x) * 64 + y) mod 64 = y"
  proof -
    have r: "?r = ((a * 64 + x) * 64 + y) * 64 + z" by (simp add: algebra_simps)
    show "?r div 64 = (a * 64 + x) * 64 + y" "?r mod 64 = z" "(a * 64 + x) mod 64 = x"
      "((a * 64 + x) * 64 + y) mod 64 = y"
      unfolding r using assms(2-4) by (simp_all only: radix64)
    have "?r div 4096 = ?r div 64 div 64" "?r div 262144 = ?r div 64 div 64 div 64"
      by (simp_all add: div_mult2_eq [symmetric])
    then show "?r div 4096 = a * 64 + x" "?r div 262144 = a"
      unfolding r using assms(2-4) by (simp_all only: radix64)
  qed
  have "65536 \<le> ?r" using assms by (cases "a = 0") auto
  moreover have "?r < 1114112" using low assms by (cases "a = 4") auto
  ultimately show ?thesis using d by (simp add: encode_rune_def)
qed

lemma encode_decode_rune:
  assumes "decode_rune b0 bs = (r, w)" and "\<not> (r = rune_error \<and> w = 1)" and "b0 < 256"
  shows "encode_rune r = map char_of (b0 # take (w - 1) bs)"
proof -
  consider (one) "b0 < 128" | (two) "194 \<le> b0" "b0 \<le> 223" | (three) "224 \<le> b0" "b0 \<le> 239"
    | (four) "240 \<le> b0" "b0 \<le> 244" | (bad) "128 \<le> b0" "b0 < 194 \<or> 244 < b0"
    by linarith
  then show ?thesis
  proof cases
    case two
    with assms obtain x bs' where "bs = (128 + x) # bs'" "x < 64" "r = (b0 - 192) * 64 + x" "w = 2"
      by (auto simp: decode_rune_def decode_two_def elim!: is_contE split: if_splits list.splits)
    moreover from this two have "r div 64 = b0 - 192" "r mod 64 = x" "128 \<le> r" "r < 2048"
      by auto
    ultimately show ?thesis using two by (simp add: encode_rune_def)
  next
    case three
    with assms obtain b1 b2 bs' where bs: "bs = b1 # b2 # bs'" and c: "is_cont b1" "is_cont b2"
      and b1: "b0 = 224 \<longrightarrow> 160 \<le> b1" "b0 = 237 \<longrightarrow> b1 \<le> 159"
      and r: "r = (b0 - 224) * 4096 + (b1 - 128) * 64 + (b2 - 128)" and w: "w = 3"
      by (auto simp: decode_rune_def decode_three_def is_cont_def split: if_splits list.splits)
    from c b1 three
    have "encode_rune r = [char_of (224 + (b0 - 224)), char_of (128 + (b1 - 128)), char_of (128 + (b2 - 128))]"
      unfolding r by (intro encode_three) (auto simp: is_cont_def)
    with bs w c three show ?thesis by (simp add: is_cont_def)
  next
    case four
    with assms obtain b1 b2 b3 bs' where bs: "bs = b1 # b2 # b3 # bs'"
      and c: "is_cont b1" "is_cont b2" "is_cont b3"
      and b1: "b0 = 240 \<longrightarrow> 144 \<le> b1" "b0 = 244 \<longrightarrow> b1 \<le> 143"
      and r: "r = (b0 - 240) * 262144 + (b1 - 128) * 4096 + (b2 - 128) * 64 + (b3 - 128)" and w: "w = 4"
      by (auto simp: decode_rune_def decode_four_def is_cont_def split: if_splits list.splits)
    from c b1 four
    have "encode_rune r = [char_of (240 + (b0 - 240)), char_of (128 + (b1 - 128)),
        char_of (128 + (b2 - 128)), char_of (128 + (b3 - 128))]"
      unfolding r by (intro encode_four) (auto simp: is_cont_def)
    with bs w c four show ?thesis by (simp add: is_cont_def)
  qed (use assms in \<open>auto simp: decode_rune_def encode_rune_def\<close>)
qed

lemma encode_decode:
  "valid_utf8 s \<Longrightarrow> map (\<lambda>(r, bs). encode_rune r) (decode s) = map snd (decode s)"
proof (induction s rule: decode.induct)
  case (2 c s)
  obtain r w where rw: "decode_rune (byte c) (map byte s) = (r, w)" by fastforce
  from decode_rune_width [OF rw] have w: "1 \<le> w" "w - 1 \<le> length s" by auto
  from "2.prems" rw w have ok: "\<not> (r = rune_error \<and> w = 1)"
    and rest: "valid_utf8 (drop (w - 1) s)"
    by (auto simp: valid_utf8_def)
  have "encode_rune r = map char_of (byte c # take (w - 1) (map byte s))"
    by (rule encode_decode_rune [OF rw ok]) simp
  also have "\<dots> = c # take (w - 1) s" by (simp add: take_map [symmetric] comp_def)
  finally show ?case using rw "2.IH" [OF rw [symmetric] refl rest] by simp
qed simp

lemma encode_runes: "valid_utf8 s \<Longrightarrow> concat (map encode_rune (runes s)) = s"
proof -
  assume "valid_utf8 s"
  then have "concat (map (\<lambda>(r, bs). encode_rune r) (decode s)) = s"
    by (simp only: encode_decode concat_decode)
  then show ?thesis by (simp add: runes_def comp_def case_prod_unfold)
qed

section \<open>Case and white space\<close>

text \<open>
  \<open>uc_lower\<close> is \<^verbatim>\<open>unicode.ToLower\<close> and \<open>uc_fold\<close> picks one member of each orbit of
  \<^verbatim>\<open>unicode.SimpleFold\<close>, both for runes above ASCII. Nothing is assumed of them: U+212A
  (the Kelvin sign) may lower to an ASCII letter, as it does in the real table.
  \<open>ipv6_literal\<close> is \<^verbatim>\<open>netip.ParseAddr\<close> accepting an IPv6 address; only the host part of a
  URL written in brackets asks it. \<open>uc_word\<close> is \<^verbatim>\<open>unicode.IsLetter || unicode.IsDigit\<close> above ASCII.
  \<open>raw_regexp\<close> is \<^verbatim>\<open>regexp.Compile\<close> of an expression written as a raw regular expression, with its
  case flag: what it matches and what \<^verbatim>\<open>ReplaceAllString\<close> then returns for an input and a template.
\<close>

record golib =
  uc_lower :: "nat \<Rightarrow> nat"
  uc_fold :: "nat \<Rightarrow> nat"
  ipv6_literal :: "string \<Rightarrow> bool"
  uc_word :: "nat \<Rightarrow> bool"
  raw_regexp :: "bool \<Rightarrow> string \<Rightarrow> (string \<Rightarrow> string \<Rightarrow> string option) option"

definition ascii_lower :: "nat \<Rightarrow> nat" where
  "ascii_lower r = (if 65 \<le> r \<and> r \<le> 90 then r + 32 else r)"

definition lower_char :: "char \<Rightarrow> char" where
  "lower_char c = char_of (ascii_lower (byte c))"

definition to_lower_rune :: "golib \<Rightarrow> nat \<Rightarrow> nat" where
  "to_lower_rune U r = (if r < 128 then ascii_lower r else uc_lower U r)"

definition fold_rune :: "golib \<Rightarrow> nat \<Rightarrow> nat" where
  "fold_rune U r = (if r < 128 then ascii_lower r else uc_fold U r)"

text \<open>\<^verbatim>\<open>strings.ToLower\<close> and \<^verbatim>\<open>strings.EqualFold\<close>.\<close>

definition to_lower :: "golib \<Rightarrow> string \<Rightarrow> string" where
  "to_lower U s = concat (map (\<lambda>r. encode_rune (to_lower_rune U r)) (runes s))"

definition equal_fold :: "golib \<Rightarrow> string \<Rightarrow> string \<Rightarrow> bool" where
  "equal_fold U s t \<longleftrightarrow> map (fold_rune U) (runes s) = map (fold_rune U) (runes t)"

text \<open>\<^verbatim>\<open>unicode.IsSpace\<close> and \<^verbatim>\<open>strings.TrimSpace\<close>.\<close>

definition is_space :: "nat \<Rightarrow> bool" where
  "is_space r \<longleftrightarrow> r \<in> {9, 10, 11, 12, 13, 32, 133, 160, 5760, 8232, 8233, 8239, 8287, 12288}
     \<or> 8192 \<le> r \<and> r \<le> 8202"

definition trim_space :: "string \<Rightarrow> string" where
  "trim_space s =
     concat (map snd (rev (dropWhile (\<lambda>p. is_space (fst p))
       (rev (dropWhile (\<lambda>p. is_space (fst p)) (decode s))))))"

text \<open>The tables of a world with no case beyond ASCII, for concrete inputs.\<close>

definition ascii_tables :: golib where
  "ascii_tables = \<lparr>uc_lower = (\<lambda>r. r), uc_fold = (\<lambda>r. r), ipv6_literal = (\<lambda>_. False),
     uc_word = (\<lambda>_. False), raw_regexp = (\<lambda>_ _. None)\<rparr>"

lemma ascii_lower_simps [simp]:
  "ascii_lower (ascii_lower r) = ascii_lower r" "r < 128 \<Longrightarrow> ascii_lower r < 128"
  by (auto simp: ascii_lower_def)

lemma byte_lower_char [simp]: "byte c < 128 \<Longrightarrow> byte (lower_char c) = ascii_lower (byte c)"
  by (simp add: lower_char_def ascii_lower_def)

lemma lower_char_idem [simp]: "byte c < 128 \<Longrightarrow> lower_char (lower_char c) = lower_char c"
  by (simp add: lower_char_def [of "lower_char c"]) (simp add: lower_char_def)

lemma is_ascii_lower: "is_ascii s \<Longrightarrow> is_ascii (map lower_char s)"
  by (simp add: is_ascii_def list_all_iff)

lemma to_lower_ascii: "is_ascii s \<Longrightarrow> to_lower U s = map lower_char s"
  by (induction s)
    (auto simp: to_lower_def runes_def to_lower_rune_def encode_rune_def lower_char_def
      simp del: decode.simps(2))

lemma to_lower_ascii_idem: "is_ascii s \<Longrightarrow> to_lower U (to_lower U s) = to_lower U s"
  by (simp add: to_lower_ascii is_ascii_lower) (simp add: is_ascii_def list_all_iff)

lemma equal_fold_ascii:
  assumes "is_ascii s" and "is_ascii t"
  shows "equal_fold U s t \<longleftrightarrow> map lower_char s = map lower_char t"
proof -
  have f: "map (fold_rune U) (runes u) = map (\<lambda>c. ascii_lower (byte c)) u" if "is_ascii u" for u
    using that by (auto simp: runes_ascii fold_rune_def is_ascii_def list_all_iff)
  have l: "map (\<lambda>c. ascii_lower (byte c)) u = map byte (map lower_char u)" if "is_ascii u" for u
    using that by (auto simp: is_ascii_def list_all_iff)
  show ?thesis
    by (simp only: equal_fold_def f [OF assms(1)] f [OF assms(2)] l [OF assms(1)] l [OF assms(2)])
       (rule inj_map_eq_map, simp add: inj_on_def)
qed

lemma equal_fold_refl [simp]: "equal_fold U s s"
  by (simp add: equal_fold_def)

lemma equal_fold_sym: "equal_fold U s t \<longleftrightarrow> equal_fold U t s"
  by (auto simp: equal_fold_def)

lemma equal_fold_trans: "equal_fold U s t \<Longrightarrow> equal_fold U t v \<Longrightarrow> equal_fold U s v"
  by (simp add: equal_fold_def)

text \<open>Trimming keeps an infix of the text.\<close>

lemma trim_space_infix: "\<exists>a b. s = a @ trim_space s @ b"
proof -
  let ?P = "\<lambda>p. is_space (fst p)"
  let ?d = "dropWhile ?P (decode s)"
  have 1: "decode s = takeWhile ?P (decode s) @ ?d" by simp
  have 2: "?d = rev (dropWhile ?P (rev ?d)) @ rev (takeWhile ?P (rev ?d))"
    by (metis rev_append rev_rev_ident takeWhile_dropWhile_id)
  have "concat (map snd (decode s)) = concat (map snd (takeWhile ?P (decode s))) @ trim_space s
      @ concat (map snd (rev (takeWhile ?P (rev ?d))))"
    unfolding trim_space_def by (subst 1, subst 2) (simp only: map_append concat_append append_assoc)
  then show ?thesis unfolding concat_decode by blast
qed

lemma trim_space_chars: "set (trim_space s) \<subseteq> set s"
  using trim_space_infix [of s] by (metis Un_iff set_append subsetI)

lemma trim_space_no_space:
  assumes "\<forall>r \<in> set (runes s). \<not> is_space r" shows "trim_space s = s"
proof -
  from assms have d: "dropWhile (\<lambda>p. is_space (fst p)) (decode s) = decode s"
    by (auto simp: dropWhile_eq_self_iff runes_def)
  from assms have "dropWhile (\<lambda>p. is_space (fst p)) (rev (decode s)) = rev (decode s)"
    by (auto simp: dropWhile_eq_self_iff runes_def hd_rev)
  with d show ?thesis by (simp add: trim_space_def)
qed

text \<open>Rules that evaluate the text functions on ASCII literals.\<close>

lemma lower_char_eval:
  "byte c < 128 \<Longrightarrow> lower_char c = (if 65 \<le> byte c \<and> byte c \<le> 90 then char_of (byte c + 32) else c)"
  by (simp add: lower_char_def ascii_lower_def)

lemmas go_eval = lower_char_eval char_of_def bit_0 to_lower_ascii trim_space_def is_space_def
  starts_with_def ends_with_def contains_any_def append_new_def

end
