(* ===== verification/GoURL.thy ===== *)
theory GoURL
  imports GoText
begin

text \<open>
  The parts of the Go packages \<^verbatim>\<open>net/url\<close> and \<^verbatim>\<open>net\<close> the login code relies on:
  \<^verbatim>\<open>url.Parse\<close> with the accessors \<^verbatim>\<open>Hostname\<close>, \<^verbatim>\<open>Port\<close>, \<^verbatim>\<open>EscapedPath\<close> and \<^verbatim>\<open>IsAbs\<close>, and
  \<^verbatim>\<open>net.SplitHostPort\<close>. A parse error is \<open>None\<close>. The main result is the shape of every raw
  URL that parses to an https URL with a plain, unescaped path: scheme, authority and path
  stand in the raw text as they are.
\<close>

record url =
  url_scheme :: string
  url_opaque :: string
  url_user :: bool
  url_host :: string
  url_path :: string
  url_raw_path :: string
  url_force_query :: bool
  url_raw_query :: string
  url_fragment :: string

datatype encoding = EncodePath | EncodeHost | EncodeFragment | EncodeUserPassword | EncodeQuery

section \<open>Percent encoding\<close>

definition is_alnum :: "nat \<Rightarrow> bool" where
  "is_alnum b \<longleftrightarrow> 97 \<le> b \<and> b \<le> 122 \<or> 65 \<le> b \<and> b \<le> 90 \<or> 48 \<le> b \<and> b \<le> 57"

definition is_hex :: "char \<Rightarrow> bool" where
  "is_hex c = (let b = byte c in 48 \<le> b \<and> b \<le> 57 \<or> 97 \<le> b \<and> b \<le> 102 \<or> 65 \<le> b \<and> b \<le> 70)"

definition un_hex :: "char \<Rightarrow> nat" where
  "un_hex c = (let b = byte c in
     if 48 \<le> b \<and> b \<le> 57 then b - 48 else if 97 \<le> b \<and> b \<le> 102 then b - 87 else b - 55)"

definition upper_hex :: "nat \<Rightarrow> char" where
  "upper_hex n = char_of (if n < 10 then 48 + n else 55 + n)"

definition should_escape :: "encoding \<Rightarrow> char \<Rightarrow> bool" where
  "should_escape m c =
     (if is_alnum (byte c) then False
      else if m = EncodeHost \<and> c \<in> set ''!$&'' \<union> {CHR 0x27} \<union> set ''()*+,;=:[]<>'' \<union> {CHR 0x22} then False
      else if c \<in> set ''-_.~'' then False
      else if c \<in> set ''$&+,/:;=?@'' then
        (case m of EncodePath \<Rightarrow> c = CHR ''?'' | EncodeUserPassword \<Rightarrow> c \<in> set ''@/?:''
         | EncodeQuery \<Rightarrow> True | EncodeFragment \<Rightarrow> False | EncodeHost \<Rightarrow> True)
      else if m = EncodeFragment then c \<notin> set ''!()*''
      else True)"

fun unescape :: "encoding \<Rightarrow> string \<Rightarrow> string option" where
  "unescape m [] = Some []"
| "unescape m (c # s) =
     (if c = CHR ''%'' then
        (case s of a # b # t \<Rightarrow>
           if is_hex a \<and> is_hex b \<and> (m = EncodeHost \<longrightarrow> 8 \<le> un_hex a \<or> a = CHR ''2'' \<and> b = CHR ''5'')
           then map_option (\<lambda>r. char_of (16 * un_hex a + un_hex b) # r) (unescape m t) else None
         | _ \<Rightarrow> None)
      else if m = EncodeHost \<and> byte c < 128 \<and> should_escape m c then None
      else map_option (\<lambda>r. (if m = EncodeQuery \<and> c = CHR ''+'' then CHR '' '' else c) # r) (unescape m s))"

definition escape_char :: "encoding \<Rightarrow> char \<Rightarrow> string" where
  "escape_char m c =
     (if should_escape m c then [CHR ''%'', upper_hex (byte c div 16), upper_hex (byte c mod 16)] else [c])"

definition escape :: "encoding \<Rightarrow> string \<Rightarrow> string" where
  "escape m s = concat (map (escape_char m) s)"

definition valid_encoded :: "encoding \<Rightarrow> string \<Rightarrow> bool" where
  "valid_encoded m s \<longleftrightarrow>
     list_all (\<lambda>c. c \<in> set ''!$&()*+,;=:@[]%'' \<union> {CHR 0x27} \<or> \<not> should_escape m c) s"

section \<open>url.Parse\<close>

text \<open>\<^verbatim>\<open>getScheme\<close>: \<open>None\<close> is the error of a leading colon, an empty scheme is no scheme.\<close>

definition scheme_alpha :: "char \<Rightarrow> bool" where
  "scheme_alpha c \<longleftrightarrow> 97 \<le> byte c \<and> byte c \<le> 122 \<or> 65 \<le> byte c \<and> byte c \<le> 90"

definition scheme_other :: "char \<Rightarrow> bool" where
  "scheme_other c \<longleftrightarrow> 48 \<le> byte c \<and> byte c \<le> 57 \<or> c \<in> set ''+-.''"

fun scheme_prefix :: "bool \<Rightarrow> string \<Rightarrow> string option" where
  "scheme_prefix first [] = None"
| "scheme_prefix first (c # s) =
     (if scheme_alpha c then map_option ((#) c) (scheme_prefix False s)
      else if scheme_other c \<and> \<not> first then map_option ((#) c) (scheme_prefix False s)
      else if c = CHR '':'' then Some [] else None)"

definition get_scheme :: "string \<Rightarrow> (string \<times> string) option" where
  "get_scheme raw =
     (case scheme_prefix True raw of
        None \<Rightarrow> Some ([], raw)
      | Some sch \<Rightarrow> if sch = [] then None else Some (sch, drop (Suc (length sch)) raw))"

definition valid_optional_port :: "string \<Rightarrow> bool" where
  "valid_optional_port p =
     (case p of [] \<Rightarrow> True | c # ds \<Rightarrow> c = CHR '':'' \<and> list_all (\<lambda>d. 48 \<le> byte d \<and> byte d \<le> 57) ds)"

definition last_cut :: "char \<Rightarrow> string \<Rightarrow> (string \<times> string) option" where
  "last_cut c s =
     (if c \<in> set s
      then Some (rev (drop 1 (dropWhile (\<lambda>x. x \<noteq> c) (rev s))), rev (takeWhile (\<lambda>x. x \<noteq> c) (rev s)))
      else None)"

definition parse_host :: "golib \<Rightarrow> string \<Rightarrow> string option" where
  "parse_host U host =
     (if starts_with ''['' host then
        (case last_cut (CHR '']'') (drop 1 host) of
           None \<Rightarrow> None
         | Some (lit, port) \<Rightarrow>
             if CHR ''['' \<notin> set lit \<and> valid_optional_port port then
               (case unescape EncodeHost lit of
                  None \<Rightarrow> None
                | Some l \<Rightarrow> if ipv6_literal U l then Some (''['' @ l @ '']'' @ port) else None)
             else None)
      else if CHR ''['' \<in> set host then None
      else if CHR '':'' \<in> set host \<and> \<not> valid_optional_port (dropWhile (\<lambda>c. c \<noteq> CHR '':'') host) then None
      else unescape EncodeHost host)"

definition valid_userinfo :: "string \<Rightarrow> bool" where
  "valid_userinfo s \<longleftrightarrow>
     list_all (\<lambda>c. is_alnum (byte c) \<or> c \<in> set ''-._:~!$&()*+,;=%@'' \<union> {CHR 0x27}) s"

definition parse_authority :: "golib \<Rightarrow> string \<Rightarrow> (bool \<times> string) option" where
  "parse_authority U authority =
     (case last_cut (CHR ''@'') authority of
        None \<Rightarrow> map_option (Pair False) (parse_host U authority)
      | Some (userinfo, host) \<Rightarrow>
          (case parse_host U host of
             None \<Rightarrow> None
           | Some h \<Rightarrow> if valid_userinfo userinfo \<and> unescape EncodeUserPassword userinfo \<noteq> None
                      then Some (True, h) else None))"

definition has_ctl :: "string \<Rightarrow> bool" where
  "has_ctl s \<longleftrightarrow> list_ex (\<lambda>c. byte c < 32 \<or> byte c = 127) s"

definition split_query :: "string \<Rightarrow> string \<times> bool \<times> string" where
  "split_query rest =
     (if ends_with ''?'' rest \<and> count_list rest (CHR ''?'') = 1
      then (take (length rest - 1) rest, True, [])
      else let (a, b, _) = cut (CHR ''?'') rest in (a, False, b))"

definition no_url :: url where
  "no_url = \<lparr>url_scheme = [], url_opaque = [], url_user = False, url_host = [], url_path = [],
     url_raw_path = [], url_force_query = False, url_raw_query = [], url_fragment = []\<rparr>"

definition set_path :: "string \<Rightarrow> url \<Rightarrow> url option" where
  "set_path p u =
     map_option (\<lambda>path. u\<lparr>url_path := path, url_raw_path := (if escape EncodePath path = p then [] else p)\<rparr>)
       (unescape EncodePath p)"

definition parse_hierarchy :: "golib \<Rightarrow> url \<Rightarrow> string \<Rightarrow> url option" where
  "parse_hierarchy U u rest =
     (if \<not> starts_with ''/'' rest \<and> url_scheme u \<noteq> [] then Some (u\<lparr>url_opaque := rest\<rparr>)
      else if \<not> starts_with ''/'' rest \<and> CHR '':'' \<in> set (takeWhile (\<lambda>c. c \<noteq> CHR ''/'') rest) then None
      else if (url_scheme u \<noteq> [] \<or> \<not> starts_with ''///'' rest) \<and> starts_with ''//'' rest then
        (let authority = takeWhile (\<lambda>c. c \<noteq> CHR ''/'') (drop 2 rest);
             path = dropWhile (\<lambda>c. c \<noteq> CHR ''/'') (drop 2 rest)
         in case parse_authority U authority of
              None \<Rightarrow> None
            | Some (user, host) \<Rightarrow> set_path path (u\<lparr>url_user := user, url_host := host\<rparr>))
      else set_path rest u)"

definition parse_no_fragment :: "golib \<Rightarrow> string \<Rightarrow> url option" where
  "parse_no_fragment U raw =
     (if has_ctl raw then None
      else if raw = ''*'' then Some (no_url\<lparr>url_path := ''*''\<rparr>)
      else case get_scheme raw of
          None \<Rightarrow> None
        | Some (scheme, rest) \<Rightarrow>
            (let (rest', force, query) = split_query rest
             in parse_hierarchy U
                  (no_url\<lparr>url_scheme := to_lower U scheme, url_force_query := force,
                     url_raw_query := query\<rparr>) rest'))"

definition url_parse :: "golib \<Rightarrow> string \<Rightarrow> url option" where
  "url_parse U raw =
     (let (r, frag, _) = cut (CHR ''#'') raw
      in case parse_no_fragment U r of
           None \<Rightarrow> None
         | Some u \<Rightarrow> if frag = [] then Some u
                    else map_option (\<lambda>f. u\<lparr>url_fragment := f\<rparr>) (unescape EncodeFragment frag))"

section \<open>Accessors\<close>

definition split_host_port_url :: "string \<Rightarrow> string \<times> string" where
  "split_host_port_url hostport =
     (let (h, p) = (case last_cut (CHR '':'') hostport of
             None \<Rightarrow> (hostport, [])
           | Some (h, p) \<Rightarrow> if valid_optional_port ('':'' @ p) then (h, p) else (hostport, []))
      in (if starts_with ''['' h \<and> ends_with '']'' h then take (length h - 2) (drop 1 h) else h, p))"

definition hostname :: "url \<Rightarrow> string" where
  "hostname u = fst (split_host_port_url (url_host u))"

definition port :: "url \<Rightarrow> string" where
  "port u = snd (split_host_port_url (url_host u))"

definition escaped_path :: "url \<Rightarrow> string" where
  "escaped_path u =
     (if url_raw_path u \<noteq> [] \<and> valid_encoded EncodePath (url_raw_path u)
         \<and> unescape EncodePath (url_raw_path u) = Some (url_path u) then url_raw_path u
      else if url_path u = ''*'' then ''*''
      else escape EncodePath (url_path u))"

definition is_abs :: "url \<Rightarrow> bool" where
  "is_abs u \<longleftrightarrow> url_scheme u \<noteq> []"

text \<open>\<^verbatim>\<open>net.SplitHostPort\<close>; \<open>None\<close> is its error.\<close>

definition split_host_port :: "string \<Rightarrow> (string \<times> string) option" where
  "split_host_port hp =
     (case last_cut (CHR '':'') hp of
        None \<Rightarrow> None
      | Some (h, p) \<Rightarrow>
          if starts_with ''['' hp then
            (if CHR '']'' \<notin> set hp then None
             else let lit = takeWhile (\<lambda>c. c \<noteq> CHR '']'') (drop 1 hp)
                  in if length h = length lit + 2 \<and> CHR ''['' \<notin> set (drop 1 hp) \<and> CHR '']'' \<notin> set p
                     then Some (lit, p) else None)
          else if CHR '':'' \<in> set h \<or> CHR ''['' \<in> set hp \<or> CHR '']'' \<in> set hp then None
          else Some (h, p))"

lemma last_cut_Some: "last_cut c s = Some (a, b) \<longleftrightarrow> s = a @ c # b \<and> c \<notin> set b"
proof
  assume l: "last_cut c s = Some (a, b)"
  then have c: "c \<in> set (rev s)" by (auto simp: last_cut_def split: if_split_asm)
  obtain x y f where xy: "cut c (rev s) = (x, y, f)" by (metis prod_cases3)
  from cut_found [OF c xy] have r: "rev s = x @ c # y" "c \<notin> set x" by auto
  from l xy have "a = rev y" "b = rev x" by (auto simp: last_cut_def cut_def split: if_split_asm)
  moreover from r(1) have "s = rev y @ c # rev x" by (metis rev_rev_ident rev.simps(2) rev_append append.assoc append_Cons append_Nil)
  ultimately show "s = a @ c # b \<and> c \<notin> set b" using r(2) by simp
next
  assume s: "s = a @ c # b \<and> c \<notin> set b"
  then have "cut c (rev s) = (rev b, rev a, True)" by simp
  with s show "last_cut c s = Some (a, b)" by (auto simp: last_cut_def cut_def)
qed

section \<open>The raw text of an accepted URL\<close>

definition plain_path :: "string \<Rightarrow> bool" where
  "plain_path p \<longleftrightarrow> list_all (\<lambda>c. \<not> should_escape EncodePath c \<and> c \<noteq> CHR ''%'') p"

lemma hex_no_escape: "is_hex c \<Longrightarrow> \<not> should_escape m c"
  by (auto simp: is_hex_def should_escape_def is_alnum_def Let_def)

lemma unescape_no_percent: "CHR ''%'' \<notin> set p \<Longrightarrow> unescape EncodePath p = Some p"
  by (induction p) auto

lemma unescape_chars:
  "unescape EncodePath p = Some q \<Longrightarrow> c \<in> set p \<Longrightarrow> c = CHR ''%'' \<or> is_hex c \<or> c \<in> set q"
proof (induction EncodePath p arbitrary: q rule: unescape.induct)
  case (2 d s)
  show ?case
  proof (cases "d = CHR ''%''")
    case True
    with "2.prems"(1) obtain a b t q' where s: "s = a # b # t" "is_hex a" "is_hex b"
      and q': "unescape EncodePath t = Some q'" "q = char_of (16 * un_hex a + un_hex b) # q'"
      by (auto split: if_split_asm list.split_asm)
    with "2.hyps"(1) [OF True s(1) refl] True "2.prems"(2) show ?thesis by auto
  next
    case False
    with "2.prems"(1) obtain q' where q': "unescape EncodePath s = Some q'" "q = d # q'" by auto
    with "2.hyps"(2) [OF False _ q'(1)] "2.prems"(2) show ?thesis by auto
  qed
qed simp

lemma escape_plain: "plain_path p \<Longrightarrow> escape EncodePath p = p"
  by (induction p) (auto simp: plain_path_def escape_def escape_char_def)

lemma set_path_plain:
  assumes "set_path p u = Some v" and "url_path v = q" and "escaped_path v = q" and q: "plain_path q"
  shows "p = q"
proof (cases "CHR ''%'' \<in> set p")
  case False
  with assms(1,2) show ?thesis by (auto simp: set_path_def unescape_no_percent)
next
  case True
  from assms(1,2) have un: "unescape EncodePath p = Some q"
    and raw: "url_raw_path v = (if escape EncodePath q = p then [] else p)"
    by (auto simp: set_path_def)
  from True q have "p \<noteq> q" by (auto simp: plain_path_def list_all_iff)
  with q raw have raw: "url_raw_path v = p" by (simp add: escape_plain)
  have "\<forall>c \<in> set q. \<not> should_escape EncodePath c" using q by (simp add: plain_path_def list_all_iff)
  then have "c = CHR ''%'' \<or> \<not> should_escape EncodePath c" if "c \<in> set p" for c
    using unescape_chars [OF un that] hex_no_escape by blast
  then have "valid_encoded EncodePath p" by (auto simp: valid_encoded_def list_all_iff)
  with True raw un assms(2) have "escaped_path v = p" by (auto simp: escaped_path_def)
  with assms(3) show ?thesis by simp
qed

lemma scheme_ascii: "scheme_alpha c \<or> scheme_other c \<Longrightarrow> byte c < 128"
  by (auto simp: scheme_alpha_def scheme_other_def)

lemma scheme_prefix_Some:
  "scheme_prefix first raw = Some sch \<Longrightarrow> is_ascii sch \<and> (\<exists>rest. raw = sch @ '':'' @ rest)"
proof (induction first raw arbitrary: sch rule: scheme_prefix.induct)
  case (2 first c s)
  show ?case
  proof (cases "scheme_alpha c \<or> scheme_other c \<and> \<not> first")
    case True
    with "2.prems" obtain t where t: "scheme_prefix False s = Some t" "sch = c # t"
      by (auto split: if_split_asm)
    with True "2.IH" scheme_ascii show ?thesis by (cases "scheme_alpha c") fastforce+
  next
    case False
    with "2.prems" show ?thesis by (auto split: if_split_asm)
  qed
qed simp

lemma get_scheme_Some:
  assumes "get_scheme raw = Some (sch, rest)" and "sch \<noteq> []"
  shows "raw = sch @ '':'' @ rest" and "is_ascii sch"
  using assms scheme_prefix_Some [of True raw]
  by (auto simp: get_scheme_def split: option.splits if_splits)

lemma to_lower_Nil [simp]: "to_lower U [] = []"
  by (simp add: to_lower_def)

lemma split_query_none:
  assumes "split_query rest = (r, False, [])" shows "r = rest" and "CHR ''?'' \<notin> set rest"
proof -
  from assms have br: "\<not> (ends_with ''?'' rest \<and> count_list rest (CHR ''?'') = 1)"
    by (auto simp: split_query_def split: if_splits)
  obtain a b f where c: "cut (CHR ''?'') rest = (a, b, f)" by (metis prod_cases3)
  from assms br c have ab: "a = r" "b = []" by (auto simp: split_query_def split: if_splits)
  show n: "CHR ''?'' \<notin> set rest"
  proof
    assume q: "CHR ''?'' \<in> set rest"
    from cut_found [OF q c] ab have "rest = a @ ''?''" "CHR ''?'' \<notin> set a" by auto
    with br show False by (simp add: ends_with_iff)
  qed
  have "takeWhile (\<lambda>x. x \<noteq> CHR ''?'') rest = rest" using n by (intro takeWhile_eq_all_conv [THEN iffD2]) auto
  with c ab show "r = rest" by (simp add: cut_def)
qed

lemma parse_hierarchy_https:
  assumes "parse_hierarchy U u rest = Some v" and "url_scheme u \<noteq> []" and "url_host v \<noteq> []"
    and "url_host u = []" and "\<not> url_user v"
  obtains auth path where "rest = ''//'' @ auth @ path" and "CHR ''/'' \<notin> set auth"
    and "CHR ''@'' \<notin> set auth" and "parse_host U auth = Some (url_host v)"
    and "set_path path (u\<lparr>url_user := False, url_host := url_host v\<rparr>) = Some v"
proof -
  from assms have sw: "starts_with ''//'' rest"
    by (auto simp: parse_hierarchy_def set_path_def split: if_splits)
  then obtain tl where rest: "rest = ''//'' @ tl" by (auto simp: starts_with_iff)
  define auth where "auth = takeWhile (\<lambda>c. c \<noteq> CHR ''/'') tl"
  define path where "path = dropWhile (\<lambda>c. c \<noteq> CHR ''/'') tl"
  from assms(1,2) sw rest obtain user host where pa: "parse_authority U auth = Some (user, host)"
    and sp: "set_path path (u\<lparr>url_user := user, url_host := host\<rparr>) = Some v"
    by (auto simp: parse_hierarchy_def auth_def path_def Let_def starts_with_def
        split: if_splits option.splits)
  from sp have v: "url_user v = user" "url_host v = host" by (auto simp: set_path_def)
  with assms(5) pa have "CHR ''@'' \<notin> set auth" "parse_host U auth = Some host"
    by (auto simp: parse_authority_def last_cut_def split: if_splits option.splits)
  moreover have "CHR ''/'' \<notin> set auth" by (auto simp: auth_def dest: set_takeWhileD)
  moreover have "rest = ''//'' @ auth @ path" by (simp add: rest auth_def path_def)
  ultimately show ?thesis using that sp v assms(5) by auto
qed

lemma set_path_frame:
  assumes "set_path p u = Some v"
  shows "url_scheme v = url_scheme u \<and> url_force_query v = url_force_query u
    \<and> url_raw_query v = url_raw_query u"
  using assms by (auto simp: set_path_def)

lemma parse_hierarchy_frame:
  assumes "parse_hierarchy U u rest = Some v"
  shows "url_scheme v = url_scheme u \<and> url_force_query v = url_force_query u
    \<and> url_raw_query v = url_raw_query u"
  using assms set_path_frame unfolding parse_hierarchy_def Let_def
  by (simp split: if_split_asm option.split_asm prod.split_asm) force+

lemma url_parse_plain:
  assumes "url_parse U raw = Some u" and "CHR ''#'' \<notin> set raw"
    and "url_scheme u \<noteq> []" and "url_host u \<noteq> []" and "\<not> url_user u"
    and "url_raw_query u = []" and "\<not> url_force_query u"
    and "url_path u = q" and "escaped_path u = q" and "plain_path q"
  obtains sch auth where "raw = sch @ ''://'' @ auth @ q" and "url_scheme u = map lower_char sch"
    and "is_ascii sch" and "CHR ''/'' \<notin> set auth" and "CHR ''@'' \<notin> set auth"
    and "CHR ''?'' \<notin> set auth" and "parse_host U auth = Some (url_host u)"
proof -
  from assms(2) have c: "cut (CHR ''#'') raw = (raw, [], False)"
    by (induction raw) (auto simp: cut_def)
  with assms(1) have pn: "parse_no_fragment U raw = Some u"
    by (auto simp: url_parse_def split: option.splits)
  with assms(3) have ns: "\<not> has_ctl raw" "raw \<noteq> ''*''"
    by (auto simp: parse_no_fragment_def no_url_def split: if_splits)
  from ns pn obtain scheme rest where gs: "get_scheme raw = Some (scheme, rest)"
    by (auto simp: parse_no_fragment_def split: option.splits)
  obtain r f qy where sq: "split_query rest = (r, f, qy)" by (metis prod_cases3)
  define u0 where "u0 = no_url\<lparr>url_scheme := to_lower U scheme, url_force_query := f, url_raw_query := qy\<rparr>"
  from pn ns gs sq have ph: "parse_hierarchy U u0 r = Some u"
    by (simp add: parse_no_fragment_def u0_def)
  then have u: "url_scheme u = to_lower U scheme" "url_force_query u = f" "url_raw_query u = qy"
    using parse_hierarchy_frame by (fastforce simp: u0_def)+
  with assms(3,6,7) sq have sn: "scheme \<noteq> []" and sq: "split_query rest = (r, False, [])" by auto
  from split_query_none [OF sq] have r: "r = rest" "CHR ''?'' \<notin> set rest" .
  from get_scheme_Some [OF gs sn] have raw: "raw = scheme @ '':'' @ rest" and asc: "is_ascii scheme" .
  from assms(3) u have u0: "url_scheme u0 \<noteq> []" "url_host u0 = []" by (auto simp: u0_def no_url_def)
  from parse_hierarchy_https [OF ph u0(1) assms(4) u0(2) assms(5)] obtain auth path
    where a: "r = ''//'' @ auth @ path" "CHR ''/'' \<notin> set auth" "CHR ''@'' \<notin> set auth"
      "parse_host U auth = Some (url_host u)"
      "set_path path (u0\<lparr>url_user := False, url_host := url_host u\<rparr>) = Some u" by blast
  from set_path_plain [OF a(5) assms(8-10)] have "path = q" .
  with that [of scheme auth] raw r a asc u show ?thesis by (auto simp: to_lower_ascii)
qed

end
