(* ===== verification/Connector.thy ===== *)
theory Connector
  imports GoURL
begin

text \<open>
  The OIDC connector and the OIDC auth request of \<^verbatim>\<open>api/types/oidc.go\<close>. A connector is its
  metadata (name and labels) and its spec; the getters and the checks that the login code
  calls are the definitions below, with the source's names. Durations are nanoseconds.
\<close>

record claim_mapping =
  cm_claim :: string
  cm_value :: string
  cm_roles :: "string list"

record trait_mapping =
  tm_trait :: string
  tm_value :: string
  tm_roles :: "string list"

record redirect_settings =
  insecure_allowed_cidr_ranges :: "string list"
  allowed_https_hostnames :: "string list"

record mfa_settings =
  mfa_enabled :: bool
  mfa_client_id :: string
  mfa_client_secret :: string
  mfa_acr_values :: string
  mfa_prompt :: string
  mfa_max_age :: int
  mfa_request_object_mode :: string

record entra_provider =
  entra_disabled :: bool
  entra_group_type :: string
  entra_graph_endpoint :: string

record oidc_spec =
  issuer_url :: string
  client_id :: string
  client_secret :: string
  redirect_urls :: "string list"
  acr :: string
  provider :: string
  display :: string
  scope :: "string list"
  prompt :: string
  claims_to_roles :: "claim_mapping list"
  username_claim :: string
  google_service_account_uri :: string
  google_service_account :: string
  google_admin_email :: string
  allow_unverified_email :: bool
  max_age :: "int option"
  client_redirect_settings :: "redirect_settings option"
  mfa_settings_of :: "mfa_settings option"
  pkce_mode :: string
  request_object_mode :: string
  user_matchers :: "string list"
  entra_groups_provider :: "entra_provider option"

record oidc_connector =
  con_name :: string
  con_labels :: "(string \<times> string) list"
  con_version :: string
  con_spec :: oidc_spec

text \<open>The auth request, \<^verbatim>\<open>types.OIDCAuthRequest\<close>: the fields the login code reads or writes.\<close>

record oidc_auth_request =
  connector_id :: string
  state_token :: string
  csrf_token :: string
  redirect_url :: string
  ssh_public_key :: string
  tls_public_key :: string
  cert_ttl :: int
  create_web_session :: bool
  client_redirect_url :: string
  compatibility :: string
  route_to_cluster :: string
  kubernetes_cluster :: string
  sso_test_flow :: bool
  connector_spec :: "oidc_spec option"
  proxy_address :: string
  client_login_ip :: string
  client_user_agent :: string
  pkce_verifier :: string
  login_hint :: string
  req_scope :: string

section \<open>Getters\<close>

definition label_of :: "oidc_connector \<Rightarrow> string \<Rightarrow> string" where
  "label_of c k = (case map_of (con_labels c) k of None \<Rightarrow> [] | Some v \<Rightarrow> v)"

definition get_prompt :: "oidc_connector \<Rightarrow> string" where
  "get_prompt c =
     (if prompt (con_spec c) = [] then ''select_account''
      else if prompt (con_spec c) = ''none'' then []
      else prompt (con_spec c))"

definition get_display :: "oidc_connector \<Rightarrow> string" where
  "get_display c = (if display (con_spec c) \<noteq> [] then display (con_spec c) else con_name c)"

definition get_claims :: "oidc_connector \<Rightarrow> string list" where
  "get_claims c = deduplicate (map cm_claim (claims_to_roles (con_spec c)))"

definition get_trait_mappings :: "oidc_connector \<Rightarrow> trait_mapping list" where
  "get_trait_mappings c =
     map (\<lambda>m. \<lparr>tm_trait = cm_claim m, tm_value = cm_value m, tm_roles = cm_roles m\<rparr>)
       (claims_to_roles (con_spec c))"

definition is_mfa_enabled :: "oidc_connector \<Rightarrow> bool" where
  "is_mfa_enabled c = (case mfa_settings_of (con_spec c) of None \<Rightarrow> False | Some m \<Rightarrow> mfa_enabled m)"

definition is_pkce_enabled :: "oidc_connector \<Rightarrow> bool" where
  "is_pkce_enabled c \<longleftrightarrow> pkce_mode (con_spec c) = ''enabled''"

text \<open>
  \<^verbatim>\<open>WithoutSecrets\<close> copies the connector by value, but the copy shares the MFA settings with
  its receiver through a pointer. The pair is the receiver after the call and the result.
\<close>

definition clear_mfa_secret :: "oidc_spec \<Rightarrow> oidc_spec" where
  "clear_mfa_secret s =
     s\<lparr>mfa_settings_of := map_option (\<lambda>m. m\<lparr>mfa_client_secret := []\<rparr>) (mfa_settings_of s)\<rparr>"

definition without_secrets :: "oidc_connector \<Rightarrow> oidc_connector \<times> oidc_connector" where
  "without_secrets c =
     (if client_secret (con_spec c) = [] \<and> google_service_account (con_spec c) = [] then (c, c)
      else (c\<lparr>con_spec := clear_mfa_secret (con_spec c)\<rparr>,
            c\<lparr>con_spec := (clear_mfa_secret (con_spec c))\<lparr>client_secret := [],
              google_service_account := []\<rparr>\<rparr>))"

text \<open>
  \<^verbatim>\<open>WithMFASettings\<close>; the argument is the parsed environment variable
  \<^verbatim>\<open>TELEPORT_OIDC_OMIT_MFA_MAX_AGE\<close>.
\<close>

definition with_mfa_settings :: "bool \<Rightarrow> oidc_connector \<Rightarrow> oidc_connector result" where
  "with_mfa_settings omit_max_age c =
     (case mfa_settings_of (con_spec c) of
        None \<Rightarrow> Inl (Err BadParameter ''this connector does not have MFA enabled'')
      | Some m \<Rightarrow>
          if \<not> mfa_enabled m then Inl (Err BadParameter ''this connector does not have MFA enabled'')
          else Inr (c\<lparr>con_spec := (con_spec c)\<lparr>
            client_id := mfa_client_id m, client_secret := mfa_client_secret m,
            acr := mfa_acr_values m, prompt := mfa_prompt m,
            request_object_mode := (if mfa_request_object_mode m \<noteq> [] then mfa_request_object_mode m
                                    else request_object_mode (con_spec c)),
            max_age := (if omit_max_age then None else Some (mfa_max_age m))\<rparr>\<rparr>))"

section \<open>Checks\<close>

definition system_connectors :: "string list" where
  "system_connectors = [''local'', ''passwordless'', ''headless'']"

text \<open>A duration has whole seconds when \<^verbatim>\<open>Round(time.Second)\<close> leaves it as it is; the longest duration,
  2^63 - 1 nanoseconds, is left too, because rounding it up overflows.\<close>

definition bad_age :: "int \<Rightarrow> err option" where
  "bad_age d =
     (if d < 0 then Some (Err BadParameter ''max_age cannot be negative'')
      else if d mod second \<noteq> 0 \<and> d \<noteq> 2 ^ 63 - 1 then Some (Err BadParameter ''max_age is invalid, cannot have sub-second units'')
      else None)"

text \<open>\<^verbatim>\<open>utils.ParseSessionsURI\<close>: the scheme, file when there is none.\<close>

definition parse_sessions_uri :: "golib \<Rightarrow> string \<Rightarrow> string result" where
  "parse_sessions_uri U s =
     (if s = [] then Inl (Err BadParameter ''uri is empty'')
      else case url_parse U s of
          None \<Rightarrow> Inl (Err BadParameter ''failed to parse URI'')
        | Some u \<Rightarrow> Inr (if url_scheme u = [] then ''file'' else url_scheme u))"

definition check_google_account :: "golib \<Rightarrow> oidc_spec \<Rightarrow> err option" where
  "check_google_account U s =
     (if google_service_account_uri s \<noteq> [] \<and> google_service_account s \<noteq> []
      then Some (Err BadParameter ''one of either google_service_account_uri or google_service_account is supported, not both'')
      else if google_service_account_uri s \<noteq> [] then
        (case parse_sessions_uri U (google_service_account_uri s) of
           Inl e \<Rightarrow> Some e
         | Inr sch \<Rightarrow>
             if sch \<noteq> ''file'' then Some (Err BadParameter ''only file:// scheme is supported for google_service_account_uri'')
             else if google_admin_email s = []
             then Some (Err BadParameter ''google_admin_email should be set as well'') else None)
      else if google_service_account s \<noteq> [] \<and> google_admin_email s = []
      then Some (Err BadParameter ''google_admin_email should be set as well'')
      else None)"

text \<open>\<^verbatim>\<open>CheckAndSetDefaults\<close> on the spec of a connector with a given name.\<close>

definition check_connector_spec :: "golib \<Rightarrow> string \<Rightarrow> oidc_spec \<Rightarrow> err option" where
  "check_connector_spec U name s =
     (if name = [] then Some (Err BadParameter ''missing parameter Name'')
      else if name \<in> set system_connectors then Some (Err BadParameter ''ID: invalid connector name'')
      else if client_id s = [] then Some (Err BadParameter ''OIDC connector is missing required client_id'')
      else if client_secret s = [] then Some (Err BadParameter ''OIDC connector is missing required client_secret'')
      else if starts_with ''file://'' (client_secret s)
      then Some (Err BadParameter ''the client_secret must be a literal value, file:// URLs are not supported'')
      else if list_ex (\<lambda>m. cm_roles m = []) (claims_to_roles s)
      then Some (Err BadParameter ''add roles in claims_to_roles'')
      else if url_parse U (issuer_url s) = None then Some (Err BadParameter ''bad IssuerURL'')
      else if redirect_urls s = [] then Some (Err BadParameter ''RedirectURL: missing redirect_url'')
      else if list_ex (\<lambda>r. url_parse U r = None) (redirect_urls s) then Some (Err BadParameter ''bad RedirectURL'')
      else case check_google_account U s of
          Some e \<Rightarrow> Some e
        | None \<Rightarrow>
            (case Option.bind (max_age s) bad_age of
               Some e \<Rightarrow> Some e
             | None \<Rightarrow> Option.bind (mfa_settings_of s) (\<lambda>m. bad_age (mfa_max_age m))))"

text \<open>\<^verbatim>\<open>NewOIDCConnector\<close>: the metadata holds the name and nothing else.\<close>

definition new_oidc_connector :: "golib \<Rightarrow> string \<Rightarrow> oidc_spec \<Rightarrow> oidc_connector result" where
  "new_oidc_connector U name s =
     (case check_connector_spec U name s of
        Some e \<Rightarrow> Inl e
      | None \<Rightarrow> Inr \<lparr>con_name = name, con_labels = [], con_version = ''v3'', con_spec = s\<rparr>)"

definition min_cert_duration :: int where "min_cert_duration = 60 * second"
definition max_cert_duration :: int where "max_cert_duration = 30 * 3600 * second"

text \<open>\<^verbatim>\<open>OIDCAuthRequest.Check\<close>; \<^verbatim>\<open>ssh.ParseAuthorizedKey\<close> is the argument.\<close>

definition check_auth_request :: "(string \<Rightarrow> bool) \<Rightarrow> oidc_auth_request \<Rightarrow> err option" where
  "check_auth_request ssh_key_ok r =
     (if connector_id r = [] then Some (Err BadParameter ''ConnectorID: missing value'')
      else if state_token r = [] then Some (Err BadParameter ''StateToken: missing value'')
      else if sso_test_flow r \<and> connector_spec r = None
      then Some (Err BadParameter ''ConnectorSpec cannot be nil when SSOTestFlow is true'')
      else if \<not> sso_test_flow r \<and> connector_spec r \<noteq> None
      then Some (Err BadParameter ''ConnectorSpec must be nil when SSOTestFlow is false'')
      else if ssh_public_key r \<noteq> [] \<and> \<not> ssh_key_ok (ssh_public_key r)
      then Some (Err BadParameter ''bad SSH public key'')
      else if (ssh_public_key r \<noteq> [] \<or> tls_public_key r \<noteq> [])
              \<and> (cert_ttl r > max_cert_duration \<or> cert_ttl r < min_cert_duration)
      then Some (Err BadParameter ''wrong CertTTL'')
      else None)"

lemma new_oidc_connector_labels [simp]:
  "new_oidc_connector U name s = Inr c \<Longrightarrow> con_labels c = [] \<and> con_name c = name \<and> con_spec c = s"
  by (auto simp: new_oidc_connector_def split: option.splits)

lemma label_of_no_labels [simp]: "con_labels c = [] \<Longrightarrow> label_of c k = []"
  by (simp add: label_of_def)

lemma set_get_claims: "set (get_claims c) = cm_claim ` set (claims_to_roles (con_spec c))"
  by (simp add: get_claims_def)

end
