(* ===== verification/StateStore.thy ===== *)
theory StateStore
  imports AtomicWrite Connector
begin

text \<open>
  Single-use login state: \<^verbatim>\<open>lib/googleoidc/state.go\<close> and the storage of auth requests in
  \<^verbatim>\<open>lib/services/local/users.go\<close>. Every operation goes to the backend through its \<^verbatim>\<open>Create\<close> and \<^verbatim>\<open>Get\<close>,
  which are arguments here, so that the lemmas hold for every backend that satisfies the contract
  \<open>kv_backend\<close>; the properties are stated for the in-memory backend. The SHA-256 digest and the JSON
  encoding of a request are arguments too.
\<close>

section \<open>Keys of the fork (state.go)\<close>

definition fork_keyspace :: string where
  "fork_keyspace = ''fork_google_oidc''"

definition hex_digit :: "nat \<Rightarrow> char" where
  "hex_digit n = ''0123456789abcdef'' ! n"

definition hex_encode :: "string \<Rightarrow> string" where
  "hex_encode s = concat (map (\<lambda>c. [hex_digit (of_char c div 16), hex_digit (of_char c mod 16)]) s)"

definition state_key :: "(string \<Rightarrow> string) \<Rightarrow> string \<Rightarrow> string \<Rightarrow> key" where
  "state_key sha256 kind token = new_key [fork_keyspace, kind, hex_encode (sha256 token)]"

section \<open>The state store (state.go)\<close>

definition state_already_used :: err where
  "state_already_used = Err AccessDenied ''OIDC callback state was already used''"

definition new_state_store :: "int \<Rightarrow> int result" where
  "new_state_store ttl =
     (if ttl \<le> 0 then Inl (Err BadParameter ''state marker TTL must be positive'') else Inr ttl)"

type_synonym 'm creator = "int \<Rightarrow> string \<Rightarrow> item \<Rightarrow> 'm \<Rightarrow> item result \<times> 'm"
type_synonym 'm getter = "int \<Rightarrow> key \<Rightarrow> 'm \<Rightarrow> item result \<times> 'm"

definition state_item :: "(string \<Rightarrow> string) \<Rightarrow> string \<Rightarrow> string \<Rightarrow> string \<Rightarrow> int \<Rightarrow> item" where
  "state_item sha256 kind token v e =
     \<lparr>it_key = state_key sha256 kind token, it_value = v, it_expires = Some e, it_revision = []\<rparr>"

definition put_nonce ::
  "'m creator \<Rightarrow> (string \<Rightarrow> string) \<Rightarrow> int \<Rightarrow> int \<Rightarrow> string \<Rightarrow> string \<Rightarrow> string \<Rightarrow> 'm \<Rightarrow> unit result \<times> 'm" where
  "put_nonce create sha256 ttl now rv token nonce m =
     (if token = [] \<or> nonce = [] then (Inl (Err BadParameter ''missing OIDC state token or nonce''), m)
      else case create now rv (state_item sha256 ''nonce'' token nonce (now + ttl)) m of
        (Inl e, m') \<Rightarrow> (Inl e, m')
      | (Inr _, m') \<Rightarrow> (Inr (), m'))"

definition get_nonce ::
  "'m getter \<Rightarrow> (string \<Rightarrow> string) \<Rightarrow> int \<Rightarrow> string \<Rightarrow> 'm \<Rightarrow> string result \<times> 'm" where
  "get_nonce get sha256 now token m =
     (if token = [] then (Inl (Err BadParameter ''missing OIDC state token''), m)
      else case get now (state_key sha256 ''nonce'' token) m of
        (Inl e, m') \<Rightarrow> (Inl e, m')
      | (Inr x, m') \<Rightarrow>
          (if it_value x = [] then Inl (Err NotFound ''OIDC nonce is not stored for this state token'')
           else Inr (it_value x), m'))"

definition claim ::
  "'m creator \<Rightarrow> (string \<Rightarrow> string) \<Rightarrow> int \<Rightarrow> int \<Rightarrow> string \<Rightarrow> string \<Rightarrow> 'm \<Rightarrow> unit result \<times> 'm" where
  "claim create sha256 ttl now rv token m =
     (if token = [] then (Inl (Err BadParameter ''missing OIDC state token''), m)
      else case create now rv (state_item sha256 ''used'' token ''used'' (now + ttl)) m of
        (Inl e, m') \<Rightarrow> (Inl (if err_kind e = AlreadyExists then state_already_used else e), m')
      | (Inr _, m') \<Rightarrow> (Inr (), m'))"

section \<open>Auth requests in the backend (users.go)\<close>

record codec =
  marshal_request :: "oidc_auth_request \<Rightarrow> string"
  unmarshal_request :: "string \<Rightarrow> oidc_auth_request result"
  ssh_key_ok :: "string \<Rightarrow> bool"

definition request_key :: "string \<Rightarrow> key" where
  "request_key token = new_key [''web'', ''connectors'', ''oidc'', ''requests'', token]"

definition create_auth_request_item ::
  "'m creator \<Rightarrow> codec \<Rightarrow> int \<Rightarrow> int \<Rightarrow> string \<Rightarrow> oidc_auth_request \<Rightarrow> 'm \<Rightarrow> unit result \<times> 'm" where
  "create_auth_request_item create C ttl now rv req m =
     (case check_auth_request (ssh_key_ok C) req of
        Some e \<Rightarrow> (Inl e, m)
      | None \<Rightarrow>
          (case create now rv \<lparr>it_key = request_key (state_token req), it_value = marshal_request C req,
              it_expires = expiry now ttl, it_revision = []\<rparr> m of
            (Inl e, m') \<Rightarrow> (Inl e, m')
          | (Inr _, m') \<Rightarrow> (Inr (), m')))"

definition get_auth_request_item ::
  "'m getter \<Rightarrow> codec \<Rightarrow> int \<Rightarrow> string \<Rightarrow> 'm \<Rightarrow> oidc_auth_request result \<times> 'm" where
  "get_auth_request_item get C now token m =
     (if token = [] then (Inl (Err BadParameter ''missing parameter stateToken''), m)
      else case get now (request_key token) m of
        (Inl e, m') \<Rightarrow> (Inl e, m')
      | (Inr x, m') \<Rightarrow> (unmarshal_request C (it_value x), m'))"

section \<open>The keys do not meet\<close>

lemma new_key_nonzero [simp]: "cs \<noteq> [] \<Longrightarrow> \<not> key_is_zero (new_key cs)"
  by (auto simp: new_key_def key_is_zero_def Let_def)

lemma state_key_text:
  "key_s (state_key sha256 kind token) = ''/fork_google_oidc/'' @ kind @ ''/'' @ hex_encode (sha256 token)"
  by (simp add: state_key_def new_key_def fork_keyspace_def)

lemma request_key_text: "key_s (request_key token) = ''/web/connectors/oidc/requests/'' @ token"
  by (simp add: request_key_def new_key_def)

lemma state_key_not_request [simp]: "key_s (state_key sha256 kind token) \<noteq> key_s (request_key token')"
  by (simp add: state_key_text request_key_text)

lemma state_keys_kind [simp]:
  "key_s (state_key sha256 ''nonce'' token) \<noteq> key_s (state_key sha256 ''used'' token')"
  by (simp add: state_key_text)

lemma state_key_nonzero [simp]: "\<not> key_is_zero (state_key sha256 kind token)"
  by (simp add: state_key_def)

lemma request_key_nonzero [simp]: "\<not> key_is_zero (request_key token)"
  by (simp add: request_key_def)

lemma hex_digit_inj: "m < 16 \<Longrightarrow> n < 16 \<Longrightarrow> hex_digit m = hex_digit n \<Longrightarrow> m = n"
proof -
  have d: "distinct ''0123456789abcdef''" by simp
  assume "m < 16" "n < 16" "hex_digit m = hex_digit n"
  with nth_eq_iff_index_eq [OF d, of m n] show "m = n" by (simp add: hex_digit_def)
qed

lemma hex_encode_inj: "hex_encode s = hex_encode t \<Longrightarrow> s = t"
proof (induction s arbitrary: t)
  case Nil
  then show ?case by (cases t) (auto simp: hex_encode_def)
next
  case (Cons c s)
  then obtain d u where t: "t = d # u" by (cases t) (auto simp: hex_encode_def)
  have lt: "of_char x div 16 < (16 :: nat)" for x
    using nat_of_char_less_256 [of x] by linarith
  from Cons.prems t have "hex_digit (of_char c div 16) = hex_digit (of_char d div 16)"
    "hex_digit (of_char c mod 16) = hex_digit (of_char d mod 16)" "hex_encode s = hex_encode u"
    by (auto simp: hex_encode_def)
  then have "(of_char c :: nat) div 16 = of_char d div 16" "(of_char c :: nat) mod 16 = of_char d mod 16" "s = u"
    using hex_digit_inj [OF lt lt] hex_digit_inj Cons.IH by auto
  then have "(of_char c :: nat) = of_char d" by (metis div_mult_mod_eq)
  with \<open>s = u\<close> t show ?case by simp
qed

lemma state_key_inj:
  "key_s (state_key sha256 kind a) = key_s (state_key sha256 kind b) \<Longrightarrow> sha256 a = sha256 b"
  by (auto simp: state_key_text dest: hex_encode_inj)

section \<open>A backend shared with others\<close>

text \<open>
  Between two operations of the login service the rest of the cluster uses the same backend.
  \<open>run own quiet t m t' m'\<close> is such an activity: it may create items anywhere but at the keys in
  \<open>quiet\<close>, and it overwrites and deletes no item whose key is in \<open>own\<close> or in \<open>quiet\<close>. The fork's
  keyspace is in \<open>own\<close>: only the state store writes there, and only by \<^verbatim>\<open>Create\<close>.
\<close>

locale shared_backend = kv_backend +
  fixes run :: "(string \<Rightarrow> bool) \<Rightarrow> (string \<Rightarrow> bool) \<Rightarrow> int \<Rightarrow> 'a \<Rightarrow> int \<Rightarrow> 'a \<Rightarrow> bool"
  assumes run_inv: "inv m \<Longrightarrow> run own quiet t m t' m' \<Longrightarrow> inv m'"
    and run_time: "run own quiet t m t' m' \<Longrightarrow> t \<le> t'"
    and run_keeps: "inv m \<Longrightarrow> run own quiet t m t' m' \<Longrightarrow> own s \<or> quiet s \<Longrightarrow> view m s = Some x \<Longrightarrow>
      live t' x \<Longrightarrow> view m' s = Some x"
    and run_quiet: "inv m \<Longrightarrow> run own quiet t m t' m' \<Longrightarrow> quiet s \<Longrightarrow> view m' s = Some x \<Longrightarrow> view m s = Some x"
begin

lemma claim_marks:
  assumes "inv m" and "claim create sha ttl now rv token m = (Inr (), m')"
  shows "inv m'" and "\<exists>x. view m' (key_s (state_key sha ''used'' token)) = Some x \<and> it_expires x = Some (now + ttl)"
proof -
  obtain r m1 where c: "create now rv (state_item sha ''used'' token ''used'' (now + ttl)) m = (r, m1)"
    by fastforce
  with assms(2) obtain x where r: "r = Inr x" and m': "m' = m1"
    by (auto simp: claim_def split: if_split_asm sum.split_asm)
  from create_inv [OF assms(1) c] m' show "inv m'" by simp
  from create_ok [OF assms(1)] c r m'
  show "\<exists>x. view m' (key_s (state_key sha ''used'' token)) = Some x \<and> it_expires x = Some (now + ttl)"
    by (fastforce simp: state_item_def)
qed

lemma claim_adds_one:
  assumes "inv m" and "claim create sha ttl now rv token m = (r, m')" and "view m' s = Some x"
    and "key_s (state_key sha ''used'' token) \<noteq> s"
  shows "view m s = Some x"
proof -
  obtain q m1 where c: "create now rv (state_item sha ''used'' token ''used'' (now + ttl)) m = (q, m1)"
    by fastforce
  with assms(2) have "m' = m \<or> m' = m1" by (auto simp: claim_def split: if_split_asm sum.split_asm)
  with create_adds_one [OF assms(1) c] assms(3,4) show ?thesis by (auto simp: state_item_def)
qed

lemma claim_failed_adds_none:
  assumes "inv m" and "claim create sha ttl now rv token m = (Inl e, m')" and "view m' s = Some x"
  shows "view m s = Some x"
proof -
  obtain q m1 where c: "create now rv (state_item sha ''used'' token ''used'' (now + ttl)) m = (q, m1)"
    by fastforce
  with assms(2) have "m' = m \<or> m' = m1 \<and> is_err q"
    by (auto simp: claim_def split: if_split_asm sum.split_asm)
  with create_adds_one [OF assms(1) c] assms(3) show ?thesis by blast
qed

lemma claim_refused:
  assumes "inv m" and "token \<noteq> []"
    and "view m (key_s (state_key sha ''used'' token)) = Some x" and "live now x"
  shows "fst (claim create sha ttl now rv token m) = Inl state_already_used"
proof -
  obtain r m' where c: "create now rv (state_item sha ''used'' token ''used'' (now + ttl)) m = (r, m')"
    by fastforce
  have "r = Inl already_exists"
    using create_taken [OF assms(1) _ _ assms(4) c] assms(3) by (simp add: state_item_def)
  with c assms(2) show ?thesis by (simp add: claim_def already_exists_def)
qed

lemma claim_first:
  assumes "inv m" and "token \<noteq> []" and "view m (key_s (state_key sha ''used'' token)) = None"
  shows "fst (claim create sha ttl now rv token m) = Inr ()"
proof -
  obtain r m' where c: "create now rv (state_item sha ''used'' token ''used'' (now + ttl)) m = (r, m')"
    by fastforce
  from create_free [OF assms(1) _ _ c] assms(3) have "is_err r = False" by (simp add: state_item_def)
  with c assms(2) show ?thesis by (auto simp: claim_def is_err_def split: sum.splits)
qed

lemma claim_error:
  assumes "inv m" and "token \<noteq> []" and "fst (claim create sha ttl now rv token m) = Inl e"
  shows "e = state_already_used \<and> (\<exists>x. view m (key_s (state_key sha ''used'' token)) = Some x)"
proof -
  obtain r m' where c: "create now rv (state_item sha ''used'' token ''used'' (now + ttl)) m = (r, m')"
    by fastforce
  with assms(2,3) obtain e' where r: "r = Inl e'"
    "e = (if err_kind e' = AlreadyExists then state_already_used else e')"
    by (auto simp: claim_def split: sum.split_asm)
  from create_err [OF assms(1) c [unfolded r(1)]] r(2) show ?thesis
    by (simp add: state_item_def already_exists_def)
qed

text \<open>The first claim wins for the whole lifetime of its marker, whatever others do meanwhile.\<close>

lemma claim_once:
  assumes m: "inv m" and c: "claim create sha ttl t1 rv token m = (Inr (), m1)"
    and r: "run own quiet t1 m1 t2 m2" and own: "own (key_s (state_key sha ''used'' token))"
    and t: "t2 < t1 + ttl"
  shows "fst (claim create sha ttl' t2 rv' token m2) = Inl state_already_used"
proof -
  note mark = claim_marks [OF m c]
  from mark(2) obtain x where x: "view m1 (key_s (state_key sha ''used'' token)) = Some x"
    "it_expires x = Some (t1 + ttl)" by blast
  have l: "live t2 x" using x(2) t by (simp add: live_def)
  have "token \<noteq> []" using c by (auto simp: claim_def)
  with run_keeps [OF mark(1) r _ x(1) l] own l show ?thesis
    by (intro claim_refused [OF run_inv [OF mark(1) r]]) auto
qed

lemma request_stored:
  assumes "inv m" and "create_auth_request_item create C ttl now rv req m = (Inr (), m')"
  shows "inv m'" and "\<exists>x. view m' (key_s (request_key (state_token req))) = Some x
      \<and> it_expires x = expiry now ttl \<and> it_value x = marshal_request C req"
proof -
  let ?it = "\<lparr>it_key = request_key (state_token req), it_value = marshal_request C req,
      it_expires = expiry now ttl, it_revision = []\<rparr>"
  obtain r m1 where c: "create now rv ?it m = (r, m1)" by fastforce
  with assms(2) obtain x where r: "r = Inr x" and m': "m' = m1"
    by (auto simp: create_auth_request_item_def split: option.split_asm sum.split_asm)
  from create_inv [OF assms(1) c] m' show "inv m'" by simp
  from create_ok [OF assms(1)] c r m' show "\<exists>x. view m' (key_s (request_key (state_token req))) = Some x
      \<and> it_expires x = expiry now ttl \<and> it_value x = marshal_request C req" by fastforce
qed

lemma get_request_view:
  assumes "inv m" and "get_auth_request_item get C now token m = (Inr q, m')"
  shows "\<exists>x. view m (key_s (request_key token)) = Some x \<and> unmarshal_request C (it_value x) = Inr q
    \<and> (\<forall>e. it_expires x = Some e \<longrightarrow> unix now \<le> unix e)"
proof -
  obtain r m1 where g: "get now (request_key token) m = (r, m1)" by fastforce
  with assms(2) obtain x where "r = Inr x" "unmarshal_request C (it_value x) = Inr q"
    by (auto simp: get_auth_request_item_def split: if_split_asm sum.split_asm)
  with get_sound [OF assms(1)] get_gone [OF assms(1)] g show ?thesis by blast
qed

lemma get_request_inv:
  assumes "inv m" and "get_auth_request_item get C now token m = (r, m')"
  shows "inv m'" and "view m s = Some x \<Longrightarrow> live now x \<Longrightarrow> view m' s = Some x"
    and "view m' s = Some x \<Longrightarrow> view m s = Some x"
proof -
  obtain g m1 where g: "get now (request_key token) m = (g, m1)" by fastforce
  with assms(2) have "m' = m \<or> m' = m1"
    by (auto simp: get_auth_request_item_def split: if_split_asm sum.split_asm)
  then show "inv m'" and "view m s = Some x \<Longrightarrow> live now x \<Longrightarrow> view m' s = Some x"
    and "view m' s = Some x \<Longrightarrow> view m s = Some x"
    using assms(1) get_inv [OF assms(1) g] get_keeps [OF assms(1) g] get_adds_none [OF assms(1) g] by blast+
qed

text \<open>A stored request is read back, nonce included, until it expires.\<close>

lemma request_roundtrip:
  assumes m: "inv m" and s: "create_auth_request_item create C ttl t0 rv req m = (Inr (), m1)"
    and r: "run own quiet t0 m1 t1 m2" and own: "own (key_s (request_key (state_token req)))"
    and t: "t1 < t0 + ttl" and codec: "unmarshal_request C (marshal_request C req) = Inr req"
    and tok: "state_token req \<noteq> []"
  shows "fst (get_auth_request_item get C t1 (state_token req) m2) = Inr req"
proof -
  from request_stored [OF m s] obtain x where x: "view m1 (key_s (request_key (state_token req))) = Some x"
    "it_expires x = expiry t0 ttl" "it_value x = marshal_request C req" and i: "inv m1" by blast
  have l: "live t1 x" using x(2) t run_time [OF r] by (auto simp: live_def expiry_def split: option.splits if_splits)
  obtain g m3 where g: "get t1 (request_key (state_token req)) m2 = (g, m3)" by fastforce
  have "g = Inr x"
    using get_live [OF run_inv [OF i r] _ run_keeps [OF i r _ x(1) l] l g] own by simp
  with g tok x(3) codec show ?thesis by (simp add: get_auth_request_item_def)
qed

text \<open>
  A request stored at \<open>t0\<close> and spent at \<open>t1\<close>, at least a second later, is spent for good: at any
  later time the request is gone or the claim is refused, because the marker outlives the request.
\<close>

lemma replay_refused:
  assumes m: "inv m" and s: "create_auth_request_item create C ttl t0 rv req m = (Inr (), m1)"
    and r1: "run own quiet t0 m1 t1 m2" and q: "quiet (key_s (request_key (state_token req)))"
    and c: "claim create sha ttl t1 rv1 (state_token req) m2 = (Inr (), m3)"
    and r2: "run own quiet t1 m3 t2 m4" and own: "own (key_s (state_key sha ''used'' (state_token req)))"
    and sec: "t0 + second \<le> t1" and ttl: "0 < ttl"
    and g: "get_auth_request_item get C t2 (state_token req) m4 = (Inr q', m5)"
  shows "fst (claim create sha ttl t2 rv2 (state_token req) m5) = Inl state_already_used"
proof -
  let ?rk = "key_s (request_key (state_token req))" and ?uk = "key_s (state_key sha ''used'' (state_token req))"
  from request_stored [OF m s] obtain x where i1: "inv m1" and x: "view m1 ?rk = Some x"
    "it_expires x = Some (t0 + ttl)" using ttl by (auto simp: expiry_def)
  have i2: "inv m2" using run_inv [OF i1 r1] .
  note mark = claim_marks [OF i2 c]
  have i4: "inv m4" using run_inv [OF mark(1) r2] .
  from get_request_view [OF i4 g] obtain y where y: "view m4 ?rk = Some y"
    "\<forall>e. it_expires y = Some e \<longrightarrow> unix t2 \<le> unix e" by blast
  have "view m3 ?rk = Some y" using run_quiet [OF mark(1) r2 q y(1)] .
  then have "view m2 ?rk = Some y" using claim_adds_one [OF i2 c] by simp
  then have "view m1 ?rk = Some y" using run_quiet [OF i1 r1 q] by blast
  with x y(2) have "unix t2 \<le> unix (t0 + ttl)" by simp
  then have "t2 < t0 + ttl + second" by (simp add: unix_def second_def)
  with sec have t2: "t2 < t1 + ttl" by simp
  from mark(2) obtain z where z: "view m3 ?uk = Some z" "it_expires z = Some (t1 + ttl)" by blast
  have l: "live t2 z" using z(2) t2 by (simp add: live_def)
  have "view m4 ?uk = Some z" using run_keeps [OF mark(1) r2 _ z(1) l] own by simp
  then have "view m5 ?uk = Some z" using get_request_inv(2) [OF i4 g] l by simp
  moreover have "state_token req \<noteq> []" using c by (auto simp: claim_def)
  ultimately show ?thesis using claim_refused [OF get_request_inv(1) [OF i4 g]] l by blast
qed

text \<open>The nonce of a login is read back until it expires.\<close>

lemma nonce_roundtrip:
  assumes m: "inv m" and s: "put_nonce create sha ttl t0 rv token nonce m = (Inr (), m1)"
    and r: "run own quiet t0 m1 t1 m2" and own: "own (key_s (state_key sha ''nonce'' token))"
    and t: "t1 < t0 + ttl"
  shows "fst (get_nonce get sha t1 token m2) = Inr nonce"
proof -
  obtain q m' where c: "create t0 rv (state_item sha ''nonce'' token nonce (t0 + ttl)) m = (q, m')"
    by fastforce
  with s obtain x where q: "q = Inr x" and m': "m' = m1" and ne: "token \<noteq> []" "nonce \<noteq> []"
    by (auto simp: put_nonce_def split: if_split_asm sum.split_asm)
  have i: "inv m1" using create_inv [OF m c] m' by simp
  from create_ok [OF m c [unfolded q]] m' have x: "view m1 (key_s (state_key sha ''nonce'' token)) = Some x"
    "it_expires x = Some (t0 + ttl)" "it_value x = nonce" by (auto simp: state_item_def)
  have l: "live t1 x" using x(2) t by (simp add: live_def)
  obtain g m3 where g: "get t1 (state_key sha ''nonce'' token) m2 = (g, m3)" by fastforce
  have "g = Inr x"
    using get_live [OF run_inv [OF i r] _ run_keeps [OF i r _ x(1) l] l g] own by simp
  with g ne x(3) show ?thesis by (simp add: get_nonce_def)
qed

end

section \<open>The in-memory backend, shared\<close>

text \<open>One operation of somebody else at time \<open>now\<close>, and a sequence of them at increasing times.\<close>

inductive mem_other :: "(string \<Rightarrow> bool) \<Rightarrow> (string \<Rightarrow> bool) \<Rightarrow> int \<Rightarrow> memory \<Rightarrow> memory \<Rightarrow> bool"
  for own quiet where
  create: "mem_create now rv it m = (r, m') \<Longrightarrow> \<not> quiet (ks it) \<Longrightarrow> mem_other own quiet now m m'"
| get: "mem_get now k m = (r, m') \<Longrightarrow> mem_other own quiet now m m'"
| update: "mem_update now rv it m = (r, m') \<Longrightarrow> \<not> own (ks it) \<Longrightarrow> \<not> quiet (ks it) \<Longrightarrow> mem_other own quiet now m m'"
| put: "mem_put now rv it m = (r, m') \<Longrightarrow> \<not> own (ks it) \<Longrightarrow> \<not> quiet (ks it) \<Longrightarrow> mem_other own quiet now m m'"
| delete: "mem_delete now k m = (u, m') \<Longrightarrow> \<not> own (key_s k) \<Longrightarrow> \<not> quiet (key_s k) \<Longrightarrow> mem_other own quiet now m m'"
| compare_and_swap: "mem_compare_and_swap now rv a b m = (r, m') \<Longrightarrow> \<not> own (ks b) \<Longrightarrow> \<not> quiet (ks b) \<Longrightarrow>
    mem_other own quiet now m m'"
| conditional_delete: "mem_conditional_delete now k rv m = (u, m') \<Longrightarrow> \<not> own (key_s k) \<Longrightarrow> \<not> quiet (key_s k) \<Longrightarrow>
    mem_other own quiet now m m'"
| conditional_update: "mem_conditional_update now rv it m = (r, m') \<Longrightarrow> \<not> own (ks it) \<Longrightarrow> \<not> quiet (ks it) \<Longrightarrow>
    mem_other own quiet now m m'"
| keep_alive: "mem_keep_alive now rv k expires m = (u, m') \<Longrightarrow> \<not> own (key_s k) \<Longrightarrow> \<not> quiet (key_s k) \<Longrightarrow>
    mem_other own quiet now m m'"
| delete_range: "mem_delete_range now lo hi m = (u, m') \<Longrightarrow> \<forall>s. key_s lo \<le> s \<and> s \<le> key_s hi \<longrightarrow> \<not> own s \<and> \<not> quiet s \<Longrightarrow>
    mem_other own quiet now m m'"
| atomic_write: "mem_atomic_write now rv cs m = (b, m') \<Longrightarrow>
    \<forall>c \<in> set cs. \<not> own (key_s (ca_key c)) \<and> \<not> quiet (key_s (ca_key c)) \<Longrightarrow> mem_other own quiet now m m'"

inductive mem_run :: "(string \<Rightarrow> bool) \<Rightarrow> (string \<Rightarrow> bool) \<Rightarrow> int \<Rightarrow> memory \<Rightarrow> int \<Rightarrow> memory \<Rightarrow> bool"
  for own quiet where
  wait: "t \<le> t' \<Longrightarrow> mem_run own quiet t m t' m"
| step: "mem_run own quiet t m t1 m1 \<Longrightarrow> mem_other own quiet t1 m1 m2 \<Longrightarrow> t1 \<le> t2 \<Longrightarrow>
    mem_run own quiet t m t2 m2"

text \<open>What an operation on some keys does to the others, by its outcome.\<close>

definition touches :: "int \<Rightarrow> string set \<Rightarrow> memory \<Rightarrow> memory \<Rightarrow> bool" where
  "touches now K m m' \<longleftrightarrow> mem_auth m' \<and>
     (\<forall>s x. s \<notin> K \<longrightarrow> mem_get_item m' s = Some x \<longrightarrow> mem_get_item m s = Some x) \<and>
     (\<forall>s x. s \<notin> K \<longrightarrow> mem_get_item m s = Some x \<longrightarrow> live now x \<longrightarrow> mem_get_item m' s = Some x)"

lemma expired_rules:
  assumes "mem_auth m"
  shows "mem_auth (remove_expired now m)"
    and "mem_get_item (remove_expired now m) s = Some x \<Longrightarrow> mem_get_item m s = Some x"
    and "mem_get_item m s = Some x \<Longrightarrow> live now x \<Longrightarrow> mem_get_item (remove_expired now m) s = Some x"
proof -
  have i: "mem_inv m" using assms by (simp add: mem_auth_def)
  with assms show "mem_auth (remove_expired now m)" by (simp add: mem_auth_def remove_expired_inv)
  show "mem_get_item (remove_expired now m) s = Some x \<Longrightarrow> mem_get_item m s = Some x"
    by (rule remove_expired_only [OF i])
  show "mem_get_item m s = Some x \<Longrightarrow> live now x \<Longrightarrow> mem_get_item (remove_expired now m) s = Some x"
    by (rule remove_expired_live [OF i])
qed

lemma auth_store: "mem_auth m \<Longrightarrow> mem_auth (store x m)"
  by (simp add: mem_auth_def store_inv)

lemma auth_delete: "mem_auth m \<Longrightarrow> mem_auth (emit ev (process_delete k m))"
  by (simp add: mem_auth_def process_delete_inv)

lemma touches_intros:
  assumes "mem_auth m"
  shows "touches now K m m" and "touches now K m (remove_expired now m)"
    and "ks x \<in> K \<Longrightarrow> touches now K m (store x (remove_expired now m))"
    and "k \<in> K \<Longrightarrow> touches now K m (emit ev (process_delete k (remove_expired now m)))"
    and "(\<lambda>ev. ks (ev_item ev)) ` set evs \<subseteq> K \<Longrightarrow> touches now K m (apply_events evs (remove_expired now m))"
    and "ks ` set xs \<subseteq> K \<Longrightarrow> touches now K m (fold delete_one xs (remove_expired now m))"
proof -
  show "touches now K m m" "touches now K m (remove_expired now m)"
    "ks x \<in> K \<Longrightarrow> touches now K m (store x (remove_expired now m))"
    "k \<in> K \<Longrightarrow> touches now K m (emit ev (process_delete k (remove_expired now m)))"
    using assms by (auto simp: touches_def intro: expired_rules auth_store auth_delete dest: expired_rules(2))
  have a: "mem_auth (remove_expired now m)" by (rule expired_rules(1) [OF assms])
  have "mem_mirror (apply_events evs n) = mem_mirror n" "mem_mirror (fold delete_one xs n) = mem_mirror n" for n evs xs
    by (induction evs arbitrary: n) (simp_all add: process_event_def process_put_def Let_def split: event_type.split,
        induction xs arbitrary: n, simp_all add: delete_one_def)
  with a have i: "mem_auth (apply_events evs (remove_expired now m))" "mem_auth (fold delete_one xs (remove_expired now m))" for evs xs
    by (simp_all add: mem_auth_def apply_events_inv delete_all_inv)
  have u: "mem_get_item (apply_events evs n) s = mem_get_item n s"
    if "(\<lambda>ev. ks (ev_item ev)) ` set evs \<subseteq> K" "s \<notin> K" for n evs s
    using that by (auto simp: apply_events_get intro!: replay_untouched)
  have frame: "touches now K m m'" if "mem_auth m'" "\<And>s. s \<notin> K \<Longrightarrow> mem_get_item m' s = mem_get_item (remove_expired now m) s" for m'
    unfolding touches_def using that expired_rules(2,3) [OF assms] by metis
  show "(\<lambda>ev. ks (ev_item ev)) ` set evs \<subseteq> K \<Longrightarrow> touches now K m (apply_events evs (remove_expired now m))"
    by (rule frame [OF i(1) u])
  show "ks ` set xs \<subseteq> K \<Longrightarrow> touches now K m (fold delete_one xs (remove_expired now m))"
    by (rule frame [OF i(2)]) (auto simp: delete_all_get)
qed

lemma next_revision_key [simp]: "ks (next_revision m rv it) = ks it"
  by (simp add: next_revision_def)

lemma mem_other_elim:
  assumes "mem_other own quiet now m m'" and i: "mem_auth m"
  obtains (read) "m' = m \<or> m' = remove_expired now m"
  | (created) rv it r where "mem_create now rv it m = (r, m')" "\<not> quiet (ks it)" "touches now {ks it} m m'"
  | (wrote) K where "\<forall>k \<in> K. \<not> own k \<and> \<not> quiet k" "touches now K m m'"
  using assms(1)
proof cases
  case (create rv it r)
  then have "touches now {ks it} m m'"
    using touches_intros [OF i, where K = "{ks it}" and now = now]
    by (auto simp: mem_create_def Let_def split: if_split_asm)
  with create that(2) show ?thesis by blast
next
  case (get k r)
  then have "m' = m \<or> m' = remove_expired now m"
    by (auto simp: mem_get_def Let_def split: if_split_asm option.split_asm)
  with that(1) show ?thesis by blast
next
  case (update rv it r)
  then have "touches now {ks it} m m'" using touches_intros [OF i, where K = "{ks it}" and now = now]
    by (auto simp: mem_update_def Let_def split: if_split_asm)
  with update that(3) [of "{ks it}"] show ?thesis by simp
next
  case (put rv it r)
  then have "touches now {ks it} m m'" using touches_intros [OF i, where K = "{ks it}" and now = now]
    by (auto simp: mem_put_def Let_def split: if_split_asm)
  with put that(3) [of "{ks it}"] show ?thesis by simp
next
  case (delete k u)
  then have "touches now {key_s k} m m'" using touches_intros [OF i, where K = "{key_s k}" and now = now]
    by (auto simp: mem_delete_def Let_def split: if_split_asm)
  with delete that(3) [of "{key_s k}"] show ?thesis by simp
next
  case (compare_and_swap rv a b r)
  then have "touches now {ks b} m m'" using touches_intros [OF i, where K = "{ks b}" and now = now]
    by (auto simp: mem_compare_and_swap_def Let_def split: if_split_asm option.split_asm)
  with compare_and_swap that(3) [of "{ks b}"] show ?thesis by simp
next
  case (conditional_delete k rv u)
  then have "touches now {key_s k} m m'" using touches_intros [OF i, where K = "{key_s k}" and now = now]
    by (auto simp: mem_conditional_delete_def Let_def split: if_split_asm option.split_asm)
  with conditional_delete that(3) [of "{key_s k}"] show ?thesis by simp
next
  case (conditional_update rv it r)
  then have "touches now {ks it} m m'" using touches_intros [OF i, where K = "{ks it}" and now = now]
    by (auto simp: mem_conditional_update_def Let_def split: if_split_asm option.split_asm)
  with conditional_update that(3) [of "{ks it}"] show ?thesis by simp
next
  case (keep_alive rv k expires u)
  then have "touches now {key_s k} m m'" using touches_intros [OF i, where K = "{key_s k}" and now = now]
    by (auto simp: mem_keep_alive_def Let_def dest!: tree_get_Some split: if_split_asm option.split_asm)
  with keep_alive that(3) [of "{key_s k}"] show ?thesis by simp
next
  case (delete_range lo hi u)
  have "ordered (mem_tree (remove_expired now m))" using expired_rules(1) [OF i] by (simp add: mem_auth_def mem_inv_def)
  note r = range_items_eq [OF this]
  have "touches now {s. key_s lo \<le> s \<and> s \<le> key_s hi} m m'"
    using delete_range(1) touches_intros [OF i, where now = now]
    by (auto simp: mem_delete_range_def r Let_def split: if_split_asm intro!: touches_intros(6) [OF i])
  with delete_range that(3) [of "{s. key_s lo \<le> s \<and> s \<le> key_s hi}"] show ?thesis by simp
next
  case (atomic_write rv cs b)
  have "touches now ((\<lambda>c. key_s (ca_key c)) ` set cs) m m'"
    using atomic_write(1) touches_intros(1,2) [OF i, where now = now]
    by (auto simp: mem_atomic_write_def Let_def split: option.split_asm sum.split_asm prod.split_asm
        dest!: plan_writes_keys intro!: touches_intros(5) [OF i])
  with atomic_write(2) that(3) [of "(\<lambda>c. key_s (ca_key c)) ` set cs"] show ?thesis by simp
qed

lemma touchesD:
  assumes "touches now K m m'"
  shows "mem_auth m'" and "s \<notin> K \<Longrightarrow> mem_get_item m' s = Some x \<Longrightarrow> mem_get_item m s = Some x"
    and "s \<notin> K \<Longrightarrow> mem_get_item m s = Some x \<Longrightarrow> live now x \<Longrightarrow> mem_get_item m' s = Some x"
  using assms unfolding touches_def by blast+

lemma create_keeps_live:
  assumes "mem_auth m" and "mem_create now rv it m = (r, m')" and "mem_get_item m s = Some x" and "live now x"
  shows "mem_get_item m' s = Some x"
proof (cases "is_err r \<or> s \<noteq> ks it")
  case True
  then show ?thesis using mem.create_keeps [OF assms(1-4)] by blast
next
  case False
  moreover from False have "\<not> key_is_zero (it_key it)" using assms(2) by (auto simp: mem_create_def)
  ultimately have "r = Inl already_exists"
    using mem.create_taken [OF assms(1) _ _ assms(4,2)] assms(3) by simp
  with False show ?thesis by simp
qed

lemma mem_other_inv:
  assumes "mem_other own quiet now m m'" and "mem_auth m"
  shows "mem_auth m'"
  using assms
proof (cases rule: mem_other_elim [OF assms])
  case 1
  with assms(2) expired_rules(1) show ?thesis by blast
qed (auto dest: touchesD)

lemma mem_other_keeps:
  assumes "mem_other own quiet now m m'" "mem_auth m" "own s \<or> quiet s" "mem_get_item m s = Some x" "live now x"
  shows "mem_get_item m' s = Some x"
proof (cases rule: mem_other_elim [OF assms(1,2)])
  case 1
  with expired_rules(3) [OF assms(2,4,5)] assms(4) show ?thesis by blast
next
  case (2 rv it r)
  with create_keeps_live [OF assms(2) _ assms(4,5)] show ?thesis by blast
next
  case (3 K)
  with touchesD(3) [OF 3(2) _ assms(4,5)] assms(3) show ?thesis by blast
qed

lemma mem_other_quiet:
  assumes "mem_other own quiet now m m'" "mem_auth m" "quiet s" "mem_get_item m' s = Some x"
  shows "mem_get_item m s = Some x"
proof (cases rule: mem_other_elim [OF assms(1,2)])
  case 1
  with expired_rules(2) [OF assms(2)] assms(4) show ?thesis by blast
next
  case (2 rv it r)
  with touchesD(2) [OF 2(3) _ assms(4)] assms(3) show ?thesis by blast
next
  case (3 K)
  with touchesD(2) [OF 3(2) _ assms(4)] assms(3) show ?thesis by blast
qed

lemma live_earlier: "live t' x \<Longrightarrow> t \<le> t' \<Longrightarrow> live t x"
  by (auto simp: live_def split: option.splits)

lemma mem_run_inv: "mem_run own quiet t m t' m' \<Longrightarrow> mem_auth m \<Longrightarrow> mem_auth m'"
  by (induction rule: mem_run.induct) (auto dest: mem_other_inv)

lemma mem_run_time: "mem_run own quiet t m t' m' \<Longrightarrow> t \<le> t'"
  by (induction rule: mem_run.induct) auto

lemma mem_run_keeps:
  "mem_run own quiet t m t' m' \<Longrightarrow> mem_auth m \<Longrightarrow> own s \<or> quiet s \<Longrightarrow> mem_get_item m s = Some x \<Longrightarrow>
     live t' x \<Longrightarrow> mem_get_item m' s = Some x"
proof (induction rule: mem_run.induct)
  case (step t m t1 m1 m2 t2)
  have l: "live t1 x" using live_earlier [OF step.prems(4) step.hyps(3)] .
  show ?case
    using mem_other_keeps [OF step.hyps(2) mem_run_inv [OF step.hyps(1) step.prems(1)] step.prems(2) _ l]
      step.IH [OF step.prems(1-3) l] by blast
qed

lemma mem_run_quiet:
  "mem_run own quiet t m t' m' \<Longrightarrow> mem_auth m \<Longrightarrow> quiet s \<Longrightarrow> mem_get_item m' s = Some x \<Longrightarrow>
     mem_get_item m s = Some x"
proof (induction rule: mem_run.induct)
  case (step t m t1 m1 m2 t2)
  then show ?case
    using mem_other_quiet [OF step.hyps(2) mem_run_inv [OF step.hyps(1) step.prems(1)]] by blast
qed

interpretation memr: shared_backend mem_create mem_get mem_get_item mem_auth mem_run
  by unfold_locales (blast intro: mem_run_inv mem_run_time mem_run_keeps mem_run_quiet)+

section \<open>Properties\<close>

lemma new_memory_auth [simp]: "mem_auth new_memory"
  using mem_inv_new by (simp add: mem_auth_def new_memory_def)

text \<open>The keyspace of the fork, which others do not overwrite or delete from.\<close>

definition fork_key :: "string \<Rightarrow> bool" where
  "fork_key s \<longleftrightarrow> starts_with ''/fork_google_oidc/'' s"

lemma fork_key_state [simp]: "fork_key (key_s (state_key sha kind token))"
  by (simp add: fork_key_def state_key_text starts_with_def)

text \<open>
  An OIDC state token is single-use. Once a claim of a token has succeeded at \<open>t1\<close>, every
  further claim of it before \<open>t1 + ttl\<close> fails with \<^verbatim>\<open>ErrStateAlreadyUsed\<close>, whatever the rest of the
  cluster does to the backend meanwhile (other callbacks that claim the same token included), as
  long as nobody overwrites or deletes in the fork's keyspace.
\<close>

theorem state_single_use:
  assumes "mem_auth m" and "claim mem_create sha256 ttl t1 rv token m = (Inr (), m1)"
    and "mem_run fork_key (\<lambda>_. False) t1 m1 t2 m2" and "t2 < t1 + ttl"
  shows "fst (claim mem_create sha256 ttl t2 rv' token m2) = Inl state_already_used"
  using memr.claim_once [OF assms(1-3) _ assms(4)] by simp

definition sample_claim :: "memory" where
  "sample_claim = snd (claim mem_create (\<lambda>s. s) 100 5 ''r'' ''t'' new_memory)"

lemma sample_claim_ok: "claim mem_create (\<lambda>s. s) 100 5 ''r'' ''t'' new_memory = (Inr (), sample_claim)"
  using memr.claim_first [of new_memory "''t''" "\<lambda>s. s" 100 5 "''r''"] mem_inv_new
  by (cases "claim mem_create (\<lambda>s. s) 100 5 ''r'' ''t'' new_memory")
     (auto simp: sample_claim_def mem_auth_def new_memory_def tree_get_def)

theorem state_single_use_witness:
  "fst (claim mem_create (\<lambda>s. s) 100 104 ''r2'' ''t'' sample_claim) = Inl state_already_used"
proof (rule state_single_use [OF _ sample_claim_ok])
  show "mem_auth new_memory" by simp
  show "mem_run fork_key (\<lambda>_. False) 5 sample_claim 104 sample_claim" by (rule mem_run.wait) simp
qed simp

text \<open>
  Property C4: a spent login cannot be replayed at any later time. If the auth request was stored at
  \<open>t0\<close> and its state claimed at \<open>t1\<close>, at least a second later, then at every later time \<open>t2\<close> a callback
  that still finds the request has its claim refused: the marker outlives the request. Nobody
  creates the request's key again, and nobody overwrites or deletes in the fork's keyspace.
\<close>

theorem spent_login_never_replayed:
  assumes "mem_auth m" and "0 < ttl" and "t0 + second \<le> t1"
    and "create_auth_request_item mem_create C ttl t0 rv0 req m = (Inr (), m1)"
    and "mem_run fork_key (\<lambda>s. s = key_s (request_key (state_token req))) t0 m1 t1 m2"
    and "claim mem_create sha256 ttl t1 rv1 (state_token req) m2 = (Inr (), m3)"
    and "mem_run fork_key (\<lambda>s. s = key_s (request_key (state_token req))) t1 m3 t2 m4"
    and "get_auth_request_item mem_get C t2 (state_token req) m4 = (Inr q, m5)"
  shows "fst (claim mem_create sha256 ttl t2 rv2 (state_token req) m5) = Inl state_already_used"
  using memr.replay_refused [OF assms(1,4,5) _ assms(6,7) _ assms(3,2,8)] by simp

definition sample_request :: oidc_auth_request where
  "sample_request = \<lparr>connector_id = ''google'', state_token = ''t'', csrf_token = [], redirect_url = [],
     ssh_public_key = [], tls_public_key = [], cert_ttl = 0, create_web_session = True,
     client_redirect_url = [], compatibility = [], route_to_cluster = [], kubernetes_cluster = [],
     sso_test_flow = False, connector_spec = None, proxy_address = ''p.example.com:443'',
     client_login_ip = [], client_user_agent = [], pkce_verifier = ''v'', login_hint = [], req_scope = []\<rparr>"

definition sample_codec :: codec where
  "sample_codec = \<lparr>marshal_request = (\<lambda>_. ''{}''), unmarshal_request = (\<lambda>_. Inr sample_request),
     ssh_key_ok = (\<lambda>_. True)\<rparr>"

definition sample_stored :: memory where
  "sample_stored =
     snd (create_auth_request_item mem_create sample_codec (600 * second) 0 ''r0'' sample_request new_memory)"

definition sample_spent :: memory where
  "sample_spent = snd (claim mem_create (\<lambda>s. s) (600 * second) second ''r1'' ''t'' sample_stored)"

lemmas sample_store_eval = new_memory_def mem_create_def remove_expired_def expire_loop.simps store_def
  process_put_def emit_def tree_get_def heap_push_def sift_up.simps parent_def less_at_def expiry_sec_def
  unix_def second_def live_def Let_def state_item_def state_key_def request_key_def new_key_def
  key_is_zero_def fork_keyspace_def hex_encode_def hex_digit_def expiry_def

lemma sample_stored_eq:
  "create_auth_request_item mem_create sample_codec (600 * second) 0 ''r0'' sample_request new_memory =
     (Inr (), sample_stored)"
  by (simp add: sample_stored_def create_auth_request_item_def check_auth_request_def sample_request_def
      sample_codec_def sample_store_eval)

lemma sample_stored_auth: "mem_auth sample_stored"
  using memr.request_stored(1) [OF _ sample_stored_eq] mem_inv_new by (simp add: mem_auth_def new_memory_def)

lemma sample_spent_eq:
  "claim mem_create (\<lambda>s. s) (600 * second) second ''r1'' (state_token sample_request) sample_stored =
     (Inr (), sample_spent)"
  by (simp add: sample_stored_def sample_spent_def create_auth_request_item_def check_auth_request_def
      sample_request_def sample_codec_def claim_def sample_store_eval)

lemma sample_found:
  "get_auth_request_item mem_get sample_codec (2 * second) (state_token sample_request) sample_spent =
     (Inr sample_request, remove_expired (2 * second) sample_spent)"
  by (simp add: sample_stored_def sample_spent_def create_auth_request_item_def check_auth_request_def
      sample_request_def sample_codec_def claim_def get_auth_request_item_def mem_get_def sample_store_eval)

theorem spent_login_never_replayed_witness:
  "fst (claim mem_create (\<lambda>s. s) (600 * second) (2 * second) ''r2'' (state_token sample_request)
     (remove_expired (2 * second) sample_spent)) = Inl state_already_used"
  by (rule spent_login_never_replayed [OF _ _ _ sample_stored_eq _ sample_spent_eq _ sample_found])
     (auto simp: second_def intro: mem_run.wait)

text \<open>
  The login service reads back what it stored: after \<^verbatim>\<open>PutNonce\<close>, and until the nonce
  expires, \<^verbatim>\<open>Nonce\<close> returns the nonce of the token, whatever others do outside the fork's keyspace.
\<close>

theorem nonce_read_back:
  assumes "mem_auth m" and "put_nonce mem_create sha256 ttl t0 rv token nonce m = (Inr (), m1)"
    and "mem_run fork_key (\<lambda>_. False) t0 m1 t1 m2" and "t1 < t0 + ttl"
  shows "fst (get_nonce mem_get sha256 t1 token m2) = Inr nonce"
  using memr.nonce_roundtrip [OF assms(1-3) _ assms(4)] by simp

theorem nonce_read_back_witness:
  "fst (get_nonce mem_get (\<lambda>s. s) 7 ''t''
     (snd (put_nonce mem_create (\<lambda>s. s) 100 5 ''r'' ''t'' ''n'' new_memory))) = Inr ''n''"
proof (rule nonce_read_back [of new_memory])
  show "mem_auth new_memory" by simp
  show "put_nonce mem_create (\<lambda>s. s) 100 5 ''r'' ''t'' ''n'' new_memory =
      (Inr (), snd (put_nonce mem_create (\<lambda>s. s) 100 5 ''r'' ''t'' ''n'' new_memory))"
    by (simp add: put_nonce_def sample_store_eval)
qed (auto intro: mem_run.wait)

end
