(* ===== verification/Activation.thy ===== *)
theory Activation
  imports StateStore
begin

text \<open>
  How the fork's login becomes part of a Teleport process: the switch \<^verbatim>\<open>TELEPORT_ENABLE_GOOGLE_OIDC\<close>
  (\<^verbatim>\<open>lib/googleoidc/activate.go\<close>), the modules wrapper with the OIDC entitlement (modules.go), the plugin and the
  registry it is installed in (plugin.go, \<^verbatim>\<open>lib/plugin/registry.go\<close>), and the points of
  \<^verbatim>\<open>tool/teleport/main.go\<close>, \<^verbatim>\<open>lib/service\<close>, \<^verbatim>\<open>lib/auth\<close> and \<^verbatim>\<open>lib/web\<close> where the process calls them.

  The entitlements of \<^verbatim>\<open>Features\<close> are a Go map, which is shared by reference: it is an address of a heap of maps.
\<close>

section \<open>Features and entitlements (lib/modules, entitlements)\<close>

record entitlement_info =
  en_enabled :: bool
  en_limit :: int

type_synonym ent_map = "string \<Rightarrow> entitlement_info option"
type_synonym ent_heap = "ent_map list"

record features =
  ft_cloud :: bool
  ft_custom_theme :: string
  ft_is_stripe_managed :: bool
  ft_is_usage_based_billing :: bool
  ft_questionnaire :: bool
  ft_support_type :: int
  ft_entitlements :: "nat option"
  ft_cloud_anonymization_key :: string
  ft_beams_ui :: bool
  ft_advanced_access_workflows :: bool
  ft_recovery_codes :: bool
  ft_plugins :: bool
  ft_automatic_upgrades :: bool
  ft_access_graph :: bool
  ft_access_monitoring_configured :: bool
  ft_access_controls :: bool
  ft_assist :: bool
  ft_product_type :: int

definition zero_features :: features where
  "zero_features = \<lparr>ft_cloud = False, ft_custom_theme = [], ft_is_stripe_managed = False, ft_is_usage_based_billing = False,
     ft_questionnaire = False, ft_support_type = 0, ft_entitlements = None, ft_cloud_anonymization_key = [], ft_beams_ui = False,
     ft_advanced_access_workflows = False, ft_recovery_codes = False, ft_plugins = False, ft_automatic_upgrades = False,
     ft_access_graph = False, ft_access_monitoring_configured = False, ft_access_controls = False, ft_assist = False,
     ft_product_type = 0\<rparr>"

definition entitlement_oidc :: string where "entitlement_oidc = ''OIDC''"
definition entitlement_policy :: string where "entitlement_policy = ''Policy''"

definition all_entitlements :: "string list" where
  "all_entitlements = [''AccessGraph'', ''AccessGraphDemoMode'', ''AccessLists'', ''AccessMonitoring'', ''AccessRequests'',
     ''ActivityCenter'', ''App'', ''Beams'', ''ClientIPRestrictions'', ''CloudAuditLogRetention'', ''DB'', ''Desktop'', ''DeviceTrust'',
     ''ExternalAuditStorage'', ''FeatureHiding'', ''HSM'', ''Identity'', ''JoinActiveSessions'', ''K8s'', ''LicenseAutoUpdate'',
     ''MobileDeviceManagement'', ''OIDC'', ''OktaSCIM'', ''OktaUserSync'', ''Policy'', ''SAML'', ''SessionLocks'', ''SessionSummaries'',
     ''UnrestrictedManagedUpdates'', ''UpsellAlert'', ''UsageReporting'', ''WorkloadClusters'']"

text \<open>A read of a map, which of a nil map finds nothing.\<close>

definition ent_read :: "ent_heap \<Rightarrow> nat option \<Rightarrow> ent_map" where
  "ent_read h a = (case a of None \<Rightarrow> (\<lambda>_. None) | Some i \<Rightarrow> if i < length h then h ! i else (\<lambda>_. None))"

definition is_legacy_policy_fallback_entitlement :: "string \<Rightarrow> bool" where
  "is_legacy_policy_fallback_entitlement e \<longleftrightarrow> e \<in> {''AccessGraph'', ''ActivityCenter'', ''SessionSummaries''}"

definition get_entitlement :: "ent_heap \<Rightarrow> features \<Rightarrow> string \<Rightarrow> entitlement_info" where
  "get_entitlement h f e =
     (case ent_read h (ft_entitlements f) e of
        Some i \<Rightarrow> i
      | None \<Rightarrow>
          if is_legacy_policy_fallback_entitlement e
             \<and> (case ent_read h (ft_entitlements f) entitlement_policy of Some i \<Rightarrow> en_enabled i | None \<Rightarrow> False)
          then \<lparr>en_enabled = True, en_limit = 0\<rparr>
          else \<lparr>en_enabled = False, en_limit = 0\<rparr>)"

definition entitlements_to_proto :: "ent_heap \<Rightarrow> features \<Rightarrow> ent_map" where
  "entitlements_to_proto h f = map_of (map (\<lambda>e. (e, get_entitlement h f e)) all_entitlements)"

section \<open>Modules (lib/modules, modules.go)\<close>

text \<open>The modules of the open source build make a new map on every call. Another implementation may hand out
  the same map each time; \<open>OtherModules\<close> is that case.\<close>

datatype modules = DefaultModules bool | OtherModules features | OIDCModules modules

definition default_entitlements :: ent_map where
  "default_entitlements = map_of (map (\<lambda>e. (e, \<lparr>en_enabled = True, en_limit = 0\<rparr>))
     [''App'', ''DB'', ''Desktop'', ''JoinActiveSessions'', ''K8s''])"

definition support_type_free :: int where "support_type_free = 1"

definition psiphon_theme_name :: string where "psiphon_theme_name = ''psiphon''"

definition with_oidc :: "modules \<Rightarrow> modules" where
  "with_oidc inner = OIDCModules inner"

fun features_call :: "modules \<Rightarrow> ent_heap \<Rightarrow> features \<times> ent_heap" where
  "features_call (DefaultModules up) h =
     (zero_features\<lparr>ft_automatic_upgrades := up, ft_support_type := support_type_free, ft_entitlements := Some (length h)\<rparr>,
      h @ [default_entitlements])"
| "features_call (OtherModules f) h = (f, h)"
| "features_call (OIDCModules m) h =
     (let (f, h1) = features_call m h;
          ents = length h1;
          h2 = h1 @ [\<lambda>_. None];
          h3 = h2[ents := (h2 ! ents) ++ ent_read h1 (ft_entitlements f)];
          h4 = h3[ents := (h3 ! ents)(entitlement_oidc \<mapsto> \<lparr>en_enabled = True, en_limit = 0\<rparr>)] in
      (f\<lparr>ft_entitlements := Some ents, ft_custom_theme := psiphon_theme_name\<rparr>, h4))"

section \<open>The auth server and the entitlement check\<close>

record oidc_service =
  os_state_ttl :: int

record auth_server =
  sv_modules :: modules
  sv_oidc_service :: "oidc_service option"

record startup_env =
  se_cluster_name :: "string result"
  se_auth_preference_err :: "err option"
  se_http_client_err :: "err option"
  se_validators_err :: "err option"
  se_transport_err :: "err option"
  se_backend :: bool

text \<open>\<^verbatim>\<open>Server.Ping\<close>, as far as its features: without an auth preference the answer is empty and not an error.\<close>

definition ping :: "startup_env \<Rightarrow> auth_server \<Rightarrow> ent_heap \<Rightarrow> ent_map result \<times> ent_heap" where
  "ping E srv h =
     (case se_cluster_name E of
        Inl e \<Rightarrow> (Inl e, h)
      | Inr _ \<Rightarrow>
          let (f, h1) = features_call (sv_modules srv) h in
          (Inr (if se_auth_preference_err E = None then entitlements_to_proto h1 f else (\<lambda>_. None)), h1))"

definition err_no_entitlement :: err where
  "err_no_entitlement = Err BadParameter ''the auth server does not report the OIDC entitlement''"

definition assert_oidc_entitlement :: "startup_env \<Rightarrow> auth_server option \<Rightarrow> ent_heap \<Rightarrow> err option \<times> ent_heap" where
  "assert_oidc_entitlement E srv h =
     (case srv of
        None \<Rightarrow> (Some (Err BadParameter ''cannot assert the OIDC entitlement without an auth server''), h)
      | Some s \<Rightarrow>
          (case ping E s h of
             (Inl e, h1) \<Rightarrow> (Some e, h1)
           | (Inr ents, h1) \<Rightarrow>
               (if (case ents entitlement_oidc of Some i \<Rightarrow> en_enabled i | None \<Rightarrow> False) then None else Some err_no_entitlement, h1)))"

definition set_oidc_service :: "oidc_service \<Rightarrow> auth_server \<Rightarrow> auth_server" where
  "set_oidc_service svc srv = srv\<lparr>sv_oidc_service := Some svc\<rparr>"

section \<open>The service (service.go)\<close>

definition oidc_auth_request_ttl :: int where "oidc_auth_request_ttl = 10 * 60 * second"

definition new_service :: "startup_env \<Rightarrow> auth_server option \<Rightarrow> oidc_service result" where
  "new_service E srv =
     (if srv = None then Inl (Err BadParameter ''missing auth server'')
      else if \<not> se_backend E then Inl (Err BadParameter ''missing backend'')
      else case se_http_client_err E of
          Some e \<Rightarrow> Inl e
        | None \<Rightarrow>
            (case new_state_store oidc_auth_request_ttl of
               Inl e \<Rightarrow> Inl e
             | Inr ttl \<Rightarrow>
                 (case se_validators_err E of
                    Some e \<Rightarrow> Inl e
                  | None \<Rightarrow> (case se_transport_err E of Some e \<Rightarrow> Inl e | None \<Rightarrow> Inr \<lparr>os_state_ttl = ttl\<rparr>))))"

section \<open>The plugin and the registry (plugin.go, lib/plugin/registry.go)\<close>

type_synonym routes = "(string \<times> string) list"

datatype handler = WebHandler | APIServer | OtherHandler

text \<open>What the process hands to a callback: something else, or a process with its auth server, if it has one.\<close>

datatype process_arg = NotProcess | Process "auth_server option"

definition init_auth_process :: "startup_env \<Rightarrow> process_arg \<Rightarrow> ent_heap \<Rightarrow> auth_server result \<times> ent_heap" where
  "init_auth_process E arg h =
     (case arg of
        NotProcess \<Rightarrow> (Inl (Err BadParameter ''expected a Teleport process with an auth server''), h)
      | Process None \<Rightarrow> (Inl (Err BadParameter ''the Teleport process has no auth server''), h)
      | Process (Some srv) \<Rightarrow>
          (case assert_oidc_entitlement E (Some srv) h of
             (Some e, h1) \<Rightarrow> (Inl e, h1)
           | (None, h1) \<Rightarrow>
               (case new_service E (Some srv) of
                  Inl e \<Rightarrow> (Inl e, h1)
                | Inr svc \<Rightarrow> (Inr (set_oidc_service svc srv), h1))))"

definition register_auth_web_handlers :: "handler \<Rightarrow> routes \<Rightarrow> routes result" where
  "register_auth_web_handlers service rs =
     (if service = APIServer then Inr (rs @ [(''POST'', ''/:version/oidc/requests/validate'')])
      else Inl (Err BadParameter ''expected *auth.APIServer''))"

definition register_proxy_web_handlers :: "handler \<Rightarrow> routes \<Rightarrow> routes result" where
  "register_proxy_web_handlers handler rs =
     (if handler = WebHandler
      then Inr (rs @ [(''GET'', ''/webapi/oidc/login/web''), (''POST'', ''/webapi/oidc/login/console''), (''GET'', ''/webapi/oidc/callback'')])
      else Inl (Err BadParameter ''expected *web.Handler''))"

text \<open>A plugin is its name and its methods; the registry keeps the plugins by name and one callback.\<close>

type_synonym init_func = "startup_env \<Rightarrow> process_arg \<Rightarrow> ent_heap \<Rightarrow> auth_server result \<times> ent_heap"

record plugin =
  pl_name :: string
  pl_proxy :: "handler \<Rightarrow> routes \<Rightarrow> routes result"
  pl_auth :: "handler \<Rightarrow> routes \<Rightarrow> routes result"

record registry =
  rg_plugins :: "plugin list"
  rg_init :: "init_func option"

definition plugin_name :: string where "plugin_name = ''google-oidc''"

definition new_plugin :: plugin where
  "new_plugin = \<lparr>pl_name = plugin_name, pl_proxy = register_proxy_web_handlers, pl_auth = register_auth_web_handlers\<rparr>"

definition new_registry :: registry where
  "new_registry = \<lparr>rg_plugins = [], rg_init = None\<rparr>"

definition is_registered :: "string \<Rightarrow> registry \<Rightarrow> bool" where
  "is_registered name reg \<longleftrightarrow> name \<in> pl_name ` set (rg_plugins reg)"

definition registry_add :: "plugin option \<Rightarrow> registry \<Rightarrow> registry result" where
  "registry_add p reg =
     (case p of
        None \<Rightarrow> Inl (Err BadParameter ''missing plugin'')
      | Some p \<Rightarrow>
          if pl_name p = [] then Inl (Err BadParameter ''missing plugin name'')
          else if is_registered (pl_name p) reg then Inl (Err AlreadyExists ''plugin already exists'')
          else Inr (reg\<lparr>rg_plugins := rg_plugins reg @ [p]\<rparr>))"

definition set_usage_reporting_init_func :: "init_func \<Rightarrow> registry \<Rightarrow> registry" where
  "set_usage_reporting_init_func f reg = reg\<lparr>rg_init := Some f\<rparr>"

text \<open>The callback returns the auth server it was handed, registered service included.\<close>

definition init_usage_reporting :: "startup_env \<Rightarrow> auth_server \<Rightarrow> registry \<Rightarrow> ent_heap \<Rightarrow> auth_server result \<times> ent_heap" where
  "init_usage_reporting E srv reg h = (case rg_init reg of None \<Rightarrow> (Inr srv, h) | Some f \<Rightarrow> f E (Process (Some srv)) h)"

fun register_all :: "(plugin \<Rightarrow> handler \<Rightarrow> routes \<Rightarrow> routes result) \<Rightarrow> plugin list \<Rightarrow> handler \<Rightarrow> routes \<Rightarrow> routes result" where
  "register_all m [] handler rs = Inr rs"
| "register_all m (p # ps) handler rs =
     (case m p handler rs of Inl e \<Rightarrow> Inl e | Inr rs' \<Rightarrow> register_all m ps handler rs')"

definition install :: "registry option \<Rightarrow> registry result" where
  "install reg =
     (case reg of
        None \<Rightarrow> Inl (Err BadParameter ''missing plugin registry'')
      | Some r \<Rightarrow>
          (case registry_add (Some new_plugin) r of
             Inl e \<Rightarrow> Inl e
           | Inr r' \<Rightarrow> Inr (set_usage_reporting_init_func init_auth_process r')))"

section \<open>The switch (activate.go)\<close>

definition enable_env_var :: string where "enable_env_var = ''TELEPORT_ENABLE_GOOGLE_OIDC''"

text \<open>\<^verbatim>\<open>strconv.ParseBool\<close>.\<close>

definition parse_bool :: "string \<Rightarrow> bool result" where
  "parse_bool s =
     (if s \<in> {''1'', ''t'', ''T'', ''true'', ''TRUE'', ''True''} then Inr True
      else if s \<in> {''0'', ''f'', ''F'', ''false'', ''FALSE'', ''False''} then Inr False
      else Inl (Err OtherError ''strconv.ParseBool: invalid syntax''))"

text \<open>The process-wide values: the environment and the modules.\<close>

record process_state =
  ps_env :: "string \<Rightarrow> string option"
  ps_modules :: modules

definition activate :: "process_state \<Rightarrow> registry option result \<times> process_state" where
  "activate p =
     (case ps_env p enable_env_var of
        None \<Rightarrow> (Inr None, p)
      | Some raw \<Rightarrow>
          (case parse_bool raw of
             Inl _ \<Rightarrow> (Inl (Err OtherError ''invalid TELEPORT_ENABLE_GOOGLE_OIDC''), p)
           | Inr enabled \<Rightarrow>
               if \<not> enabled then (Inr None, p)
               else let p1 = p\<lparr>ps_modules := with_oidc (ps_modules p)\<rparr> in
                 (case install (Some new_registry) of
                    Inl _ \<Rightarrow> (Inl (Err OtherError ''failed to install the Google OIDC plugin''), p1)
                  | Inr reg \<Rightarrow> (Inr (Some reg), p1))))"

section \<open>The process (tool/teleport/main.go, lib/service, lib/auth, lib/web)\<close>

text \<open>A process with the auth and proxy services, up to the points where the plugin is called: the auth
  server copies the modules, the callback runs, and the two web servers ask the plugins for their routes.\<close>

datatype startup = ExitError err | StartFailed err | Running auth_server (auth_routes: routes) (proxy_routes: routes)

definition new_auth_server :: "process_state \<Rightarrow> auth_server" where
  "new_auth_server p = \<lparr>sv_modules = ps_modules p, sv_oidc_service = None\<rparr>"

definition run_process :: "startup_env \<Rightarrow> registry option \<Rightarrow> process_state \<Rightarrow> ent_heap \<Rightarrow> startup \<times> ent_heap" where
  "run_process E reg p h =
     (let r = (case reg of None \<Rightarrow> new_registry | Some r \<Rightarrow> r) in
      case init_usage_reporting E (new_auth_server p) r h of
        (Inl e, h1) \<Rightarrow> (StartFailed e, h1)
      | (Inr srv, h1) \<Rightarrow>
          (case register_all pl_auth (rg_plugins r) APIServer [] of
             Inl e \<Rightarrow> (StartFailed e, h1)
           | Inr ars \<Rightarrow>
               (case register_all pl_proxy (rg_plugins r) WebHandler [] of
                  Inl e \<Rightarrow> (StartFailed e, h1)
                | Inr prs \<Rightarrow> (Running srv ars prs, h1))))"

definition main_process :: "startup_env \<Rightarrow> process_state \<Rightarrow> ent_heap \<Rightarrow> startup \<times> process_state \<times> ent_heap" where
  "main_process E p h =
     (case activate p of
        (Inl e, p1) \<Rightarrow> (ExitError e, p1, h)
      | (Inr reg, p1) \<Rightarrow> (case run_process E reg p1 h of (s, h1) \<Rightarrow> (s, p1, h1)))"

text \<open>The gate of the Auth Service: \<^verbatim>\<open>modules.Features().GetEntitlement(entitlements.OIDC).Enabled\<close>.\<close>

definition oidc_entitled :: "auth_server \<Rightarrow> ent_heap \<Rightarrow> bool" where
  "oidc_entitled srv h = (case features_call (sv_modules srv) h of (f, h1) \<Rightarrow> en_enabled (get_entitlement h1 f entitlement_oidc))"

section \<open>The wrapper\<close>

lemma ent_read_length [simp]: "ent_read (h @ [m]) (Some (length h)) = m"
  by (simp add: ent_read_def)

lemma features_call_extends: "features_call m h = (f, h') \<Longrightarrow> \<exists>ms. h' = h @ ms"
proof (induction m arbitrary: f h')
  case (OIDCModules m)
  obtain f1 h1 where "features_call m h = (f1, h1)" by (metis surj_pair)
  with OIDCModules show ?case by (fastforce simp: Let_def list_update_append)
qed auto

lemma features_call_oidc:
  assumes "features_call m h = (f, h1)"
  shows "features_call (OIDCModules m) h =
    (f\<lparr>ft_entitlements := Some (length h1), ft_custom_theme := psiphon_theme_name\<rparr>,
     h1 @ [(ent_read h1 (ft_entitlements f))(entitlement_oidc \<mapsto> \<lparr>en_enabled = True, en_limit = 0\<rparr>)])"
  using assms by (simp add: Let_def list_update_append map_add_def fun_eq_iff split: option.split)

text \<open>
  The wrapper only adds. Calling \<^verbatim>\<open>Features\<close> on the wrapped modules returns the features of the
  inner modules with the theme and a new entitlements map, which is the inner map with OIDC enabled; no map that
  existed before the call or that the inner call made is changed, whether the inner modules hand out a shared
  map or a new one, and wrapping twice is no different.
\<close>

theorem wrapper_only_adds:
  assumes "features_call m h = (f, h1)" and "features_call (with_oidc m) h = (g, h2)"
  shows "(\<forall>a < length h1. h2 ! a = h1 ! a)
    \<and> g\<lparr>ft_entitlements := ft_entitlements f, ft_custom_theme := ft_custom_theme f\<rparr> = f
    \<and> ft_custom_theme g = ''psiphon''
    \<and> ent_read h2 (ft_entitlements g) = (ent_read h1 (ft_entitlements f))(''OIDC'' \<mapsto> \<lparr>en_enabled = True, en_limit = 0\<rparr>)"
  using assms features_call_oidc [OF assms(1)]
  by (auto simp: with_oidc_def nth_append psiphon_theme_name_def entitlement_oidc_def)

section \<open>All or nothing\<close>

lemma proto_oidc: "entitlements_to_proto h f entitlement_oidc = Some (get_entitlement h f entitlement_oidc)"
  by (simp add: entitlements_to_proto_def all_entitlements_def entitlement_oidc_def)

lemma wrapped_entitled: "oidc_entitled \<lparr>sv_modules = OIDCModules m, sv_oidc_service = s\<rparr> h"
proof -
  obtain f h1 where "features_call m h = (f, h1)" by (metis surj_pair)
  from features_call_oidc [OF this] show ?thesis
    by (simp add: oidc_entitled_def get_entitlement_def)
qed

lemma default_not_entitled: "\<not> oidc_entitled \<lparr>sv_modules = DefaultModules up, sv_oidc_service = s\<rparr> h"
  by (simp add: oidc_entitled_def get_entitlement_def default_entitlements_def entitlement_oidc_def
      is_legacy_policy_fallback_entitlement_def)

lemma install_new:
  "install (Some new_registry) = Inr \<lparr>rg_plugins = [new_plugin], rg_init = Some init_auth_process\<rparr>"
  by (simp add: install_def registry_add_def new_registry_def new_plugin_def plugin_name_def is_registered_def
      set_usage_reporting_init_func_def)

lemma init_auth_process_ok:
  assumes "init_auth_process E (Process (Some srv)) h = (Inr srv', h')"
  shows "srv' = srv\<lparr>sv_oidc_service := Some \<lparr>os_state_ttl = oidc_auth_request_ttl\<rparr>\<rparr>" and "se_backend E"
  using assms
  by (auto simp: init_auth_process_def new_service_def new_state_store_def set_oidc_service_def
      split: prod.split_asm option.split_asm sum.split_asm if_split_asm)

lemma init_auth_process_entitled:
  assumes "init_auth_process E (Process (Some srv)) h = (Inr srv', h')"
  shows "oidc_entitled srv h"
proof -
  from assms obtain h1 where "assert_oidc_entitlement E (Some srv) h = (None, h1)"
    by (auto simp: init_auth_process_def split: prod.split_asm option.split_asm)
  then show ?thesis
    by (auto simp: assert_oidc_entitlement_def ping_def oidc_entitled_def proto_oidc Let_def
        split: sum.split_asm prod.split_asm if_split_asm)
qed

text \<open>What the switch says.\<close>

definition switched_on :: "process_state \<Rightarrow> bool" where
  "switched_on p \<longleftrightarrow> (\<exists>v. ps_env p enable_env_var = Some v \<and> parse_bool v = Inr True)"

lemma activate_on: "switched_on p \<Longrightarrow> activate p =
    (Inr (Some \<lparr>rg_plugins = [new_plugin], rg_init = Some init_auth_process\<rparr>), p\<lparr>ps_modules := OIDCModules (ps_modules p)\<rparr>)"
  by (auto simp: switched_on_def activate_def install_new with_oidc_def)

lemma activate_off: "\<not> switched_on p \<Longrightarrow> activate p = (Inr None, p) \<or> (\<exists>e. activate p = (Inl e, p))"
  by (auto simp: switched_on_def activate_def split: option.split sum.split)

definition oidc_proxy_routes :: routes where
  "oidc_proxy_routes = [(''GET'', ''/webapi/oidc/login/web''), (''POST'', ''/webapi/oidc/login/console''), (''GET'', ''/webapi/oidc/callback'')]"

definition oidc_auth_routes :: routes where
  "oidc_auth_routes = [(''POST'', ''/:version/oidc/requests/validate'')]"

lemma run_process_off: "run_process E None p h = (Running (new_auth_server p) [] [], h)"
  by (simp add: run_process_def init_usage_reporting_def new_registry_def)

lemma run_process_on:
  "run_process E (Some \<lparr>rg_plugins = [new_plugin], rg_init = Some init_auth_process\<rparr>) p h =
     (case init_auth_process E (Process (Some (new_auth_server p))) h of
        (Inl e, h1) \<Rightarrow> (StartFailed e, h1)
      | (Inr srv, h1) \<Rightarrow> (Running srv oidc_auth_routes oidc_proxy_routes, h1))"
  by (simp add: run_process_def init_usage_reporting_def new_plugin_def register_auth_web_handlers_def
      register_proxy_web_handlers_def oidc_auth_routes_def oidc_proxy_routes_def Let_def split: prod.split sum.split)

lemma wrapped_asserted:
  assumes "se_cluster_name E = Inr n" and "se_auth_preference_err E = None"
  shows "\<exists>h1. assert_oidc_entitlement E (Some (new_auth_server (p\<lparr>ps_modules := OIDCModules m\<rparr>))) h = (None, h1)"
proof -
  obtain f h1 where f: "features_call (OIDCModules m) h = (f, h1)" by (metis surj_pair)
  from wrapped_entitled [of m None h] f have "en_enabled (get_entitlement h1 f entitlement_oidc)"
    by (simp add: oidc_entitled_def del: features_call.simps)
  with f assms show ?thesis
    by (simp add: assert_oidc_entitlement_def ping_def new_auth_server_def proto_oidc del: features_call.simps)
qed

lemma new_service_ok:
  assumes "se_backend E" and "se_http_client_err E = None" and "se_validators_err E = None" and "se_transport_err E = None"
  shows "new_service E (Some srv) = Inr \<lparr>os_state_ttl = oidc_auth_request_ttl\<rparr>"
  using assms by (simp add: new_service_def new_state_store_def oidc_auth_request_ttl_def second_def)


text \<open>
  A switched on process comes up when what it needs is there: the cluster name and the auth
  preference can be read, there is a backend, and the HTTP clients can be made. So the check of the
  entitlement, which reads what the auth server copied, never fails when the modules were wrapped in time.
\<close>

theorem activation_succeeds:
  assumes "switched_on p" and "se_cluster_name E = Inr n" and "se_auth_preference_err E = None" and "se_backend E"
    and "se_http_client_err E = None" and "se_validators_err E = None" and "se_transport_err E = None"
  shows "\<exists>srv h'. main_process E p h = (Running srv oidc_auth_routes oidc_proxy_routes, p\<lparr>ps_modules := with_oidc (ps_modules p)\<rparr>, h')
    \<and> sv_oidc_service srv \<noteq> None"
  using wrapped_asserted [OF assms(2,3), where p = p and m = "ps_modules p" and h = h] new_service_ok [OF assms(4-7)]
  by (auto simp: main_process_def activate_on [OF assms(1)] run_process_on init_auth_process_def set_oidc_service_def with_oidc_def)

text \<open>
  The error of a late \<^verbatim>\<open>SetModules\<close> call is also the error of an unreadable auth preference: \<^verbatim>\<open>Ping\<close> then answers
  with no features and no error, so the process stops with the wrong message although the gate is open.
\<close>

theorem auth_preference_failure_misreported:
  assumes "se_cluster_name E = Inr n" and "se_auth_preference_err E = Some e"
  shows "fst (assert_oidc_entitlement E (Some (new_auth_server p)) h) = Some err_no_entitlement"
  using assms by (simp add: assert_oidc_entitlement_def ping_def case_prod_unfold)

section \<open>A concrete process\<close>

definition sample_startup :: startup_env where
  "sample_startup = \<lparr>se_cluster_name = Inr ''c'', se_auth_preference_err = None, se_http_client_err = None,
     se_validators_err = None, se_transport_err = None, se_backend = True\<rparr>"

definition sample_process :: process_state where
  "sample_process = \<lparr>ps_env = [enable_env_var \<mapsto> ''true''], ps_modules = DefaultModules False\<rparr>"

lemma sample_switched_on: "switched_on sample_process"
  by (simp add: switched_on_def sample_process_def parse_bool_def)

theorem activation_succeeds_witness:
  "\<exists>srv h'. main_process sample_startup sample_process [] =
     (Running srv oidc_auth_routes oidc_proxy_routes, sample_process\<lparr>ps_modules := with_oidc (ps_modules sample_process)\<rparr>, h')
     \<and> sv_oidc_service srv \<noteq> None"
  by (rule activation_succeeds [OF sample_switched_on]) (simp_all add: sample_startup_def)

lemma sample_runs:
  "\<exists>srv ars prs p h. main_process sample_startup sample_process [] = (Running srv ars prs, p, h)"
proof -
  have e: "se_cluster_name sample_startup = Inr ''c''" "se_auth_preference_err sample_startup = None"
    by (simp_all add: sample_startup_def)
  have "new_service sample_startup (Some srv) = Inr \<lparr>os_state_ttl = oidc_auth_request_ttl\<rparr>" for srv
    by (rule new_service_ok) (simp_all add: sample_startup_def)
  with wrapped_asserted [OF e, where p = sample_process and m = "ps_modules sample_process" and h = "[]"] show ?thesis
    by (auto simp: main_process_def activate_on [OF sample_switched_on] run_process_on init_auth_process_def)
qed


theorem wrapper_only_adds_witness:
  "\<exists>g h2. features_call (with_oidc (OtherModules (zero_features\<lparr>ft_entitlements := Some 0\<rparr>))) [\<lambda>_. None] = (g, h2)
     \<and> h2 ! 0 = (\<lambda>_. None) \<and> ent_read h2 (ft_entitlements g) = [''OIDC'' \<mapsto> \<lparr>en_enabled = True, en_limit = 0\<rparr>]"
proof -
  let ?m = "OtherModules (zero_features\<lparr>ft_entitlements := Some 0\<rparr>)" and ?h = "[\<lambda>_. None] :: ent_heap"
  obtain g h2 where g: "features_call (with_oidc ?m) ?h = (g, h2)" by (metis surj_pair)
  have i: "features_call ?m ?h = (zero_features\<lparr>ft_entitlements := Some 0\<rparr>, ?h)" by simp
  from wrapper_only_adds [OF i g] g show ?thesis by (simp add: ent_read_def)
qed

end
