(* ===== verification/Policy.thy ===== *)
theory Policy
  imports Connector
begin

text \<open>
  The Google OIDC connector policy, \<^verbatim>\<open>lib/googleoidc/policy\<close>: the grammar of the
  \<^verbatim>\<open>claims_to_roles\<close> values (claimvalue.go), the connector checks, the domain allow-list and
  the redirect URL (connector.go), and the group lookup settings (groups.go). A connector
  argument is an option where the source tests it for nil.
\<close>

section \<open>Claim values (claimvalue.go)\<close>

definition groups_claim :: string where "groups_claim = ''groups''"

definition is_literal_local_part :: "string \<Rightarrow> bool" where
  "is_literal_local_part l \<longleftrightarrow>
     list_all (\<lambda>r. 97 \<le> r \<and> r \<le> 122 \<or> 65 \<le> r \<and> r \<le> 90 \<or> 48 \<le> r \<and> r \<le> 57
       \<or> r \<in> {46, 45, 95, 39}) (runes l)"

definition validate_address_claim_value :: "golib \<Rightarrow> string \<Rightarrow> string list \<Rightarrow> err option" where
  "validate_address_claim_value U value workspace_domains =
     (if value = [] then Some (Err BadParameter ''OIDC claim mapping value cannot be empty'')
      else if starts_with ''^'' value
      then Some (Err BadParameter ''OIDC claim mapping value is a raw regular expression'')
      else if count_list value (CHR ''@'') \<noteq> 1
      then Some (Err BadParameter ''OIDC claim mapping value must be an address'')
      else let (local, domain, _) = cut (CHR ''@'') value in
        if local = [] then Some (Err BadParameter ''OIDC claim mapping value has an empty local part'')
        else if local \<noteq> ''*'' \<and> \<not> is_literal_local_part local
        then Some (Err BadParameter ''OIDC claim mapping value has a local part that is not a plain address or a single *'')
        else if \<not> list_ex (\<lambda>allowed. equal_fold U allowed domain) workspace_domains
        then Some (Err BadParameter ''OIDC claim mapping value is not in a Google Workspace domain of this connector'')
        else None)"

definition validate_email_claim_value :: "golib \<Rightarrow> string \<Rightarrow> string list \<Rightarrow> err option" where
  "validate_email_claim_value = validate_address_claim_value"

definition validate_groups_claim_value :: "golib \<Rightarrow> string \<Rightarrow> string list \<Rightarrow> err option" where
  "validate_groups_claim_value = validate_address_claim_value"

record claim_grammar =
  cg_claim :: string
  cg_validate :: "golib \<Rightarrow> string \<Rightarrow> string list \<Rightarrow> err option"

definition claim_grammars :: "claim_grammar list" where
  "claim_grammars =
     [\<lparr>cg_claim = ''email'', cg_validate = validate_email_claim_value\<rparr>,
      \<lparr>cg_claim = groups_claim, cg_validate = validate_groups_claim_value\<rparr>]"

definition grammar_for_claim :: "string \<Rightarrow> claim_grammar option" where
  "grammar_for_claim claim = find (\<lambda>g. cg_claim g = claim) claim_grammars"

section \<open>Workspace domains and identity checks (connector.go)\<close>

definition google_issuer :: string where "google_issuer = ''https://accounts.google.com''"

definition workspace_domains_label :: string where
  "workspace_domains_label = ''fork.teleport.dev/google-workspace-domains''"

definition callback_path :: string where "callback_path = ''/v1/webapi/oidc/callback''"

definition bad_domain :: "string \<Rightarrow> bool" where
  "bad_domain d \<longleftrightarrow> contains_any ([CHR ''@'', CHR ''/'', CHR '' '', CHR 0x09, CHR ''*'', CHR ''?'']) d
     \<or> \<not> contains_sub ''.'' d \<or> starts_with ''.'' d \<or> ends_with ''.'' d"

fun collect_domains :: "golib \<Rightarrow> string list \<Rightarrow> string list \<Rightarrow> string list result" where
  "collect_domains U [] domains = Inr domains"
| "collect_domains U (part # parts) domains =
     (let domain = to_lower U (trim_space part) in
      if domain = [] then collect_domains U parts domains
      else if bad_domain domain then Inl (Err BadParameter ''invalid Google Workspace domain'')
      else collect_domains U parts (append_new domains domain))"

definition workspace_domains :: "golib \<Rightarrow> oidc_connector \<Rightarrow> string list result" where
  "workspace_domains U conn =
     (case collect_domains U (split_on (CHR '','') (label_of conn workspace_domains_label)) [] of
        Inl e \<Rightarrow> Inl e
      | Inr domains \<Rightarrow>
          if domains = []
          then Inl (Err BadParameter ''this fork requires the Google Workspace domain allow-list'')
          else Inr domains)"

definition check_hosted_domain :: "golib \<Rightarrow> string \<Rightarrow> string list \<Rightarrow> err option" where
  "check_hosted_domain U hosted_domain allowed =
     (let domain = to_lower U (trim_space hosted_domain) in
      if domain = [] then Some (Err AccessDenied ''OIDC provider did not return a Google Workspace domain'')
      else if domain \<notin> set allowed
      then Some (Err AccessDenied ''Google Workspace domain is not allowed by this connector'')
      else None)"

definition check_email_domain :: "golib \<Rightarrow> string \<Rightarrow> string list \<Rightarrow> err option" where
  "check_email_domain U email allowed =
     (case last_cut (CHR ''@'') (to_lower U (trim_space email)) of
        None \<Rightarrow> Some (Err AccessDenied ''OIDC provider did not return a usable email address'')
      | Some (local, domain) \<Rightarrow>
          if local = [] \<or> domain = []
          then Some (Err AccessDenied ''OIDC provider did not return a usable email address'')
          else if domain \<notin> set allowed
          then Some (Err AccessDenied ''email domain is not allowed by this connector'')
          else None)"

section \<open>Redirect URL (connector.go)\<close>

definition redirect_url_of :: "golib \<Rightarrow> oidc_connector \<Rightarrow> url result" where
  "redirect_url_of U conn =
     (case redirect_urls (con_spec conn) of
        [raw] \<Rightarrow>
          (case url_parse U raw of
             None \<Rightarrow> Inl (Err BadParameter ''invalid OIDC redirect URL'')
           | Some parsed \<Rightarrow>
               if url_scheme parsed \<noteq> ''https'' \<or> hostname parsed = [] \<or> url_user parsed
                  \<or> url_raw_query parsed \<noteq> [] \<or> url_force_query parsed
                  \<or> contains_sub ''#'' raw
                  \<or> url_path parsed \<noteq> callback_path \<or> escaped_path parsed \<noteq> callback_path
               then Inl (Err BadParameter ''OIDC redirect URL must be an HTTPS URL with the exact callback path'')
               else Inr parsed)
      | _ \<Rightarrow> Inl (Err BadParameter ''this fork requires exactly one OIDC redirect URL''))"

definition without_https_port :: "string \<Rightarrow> string" where
  "without_https_port authority =
     (case split_host_port authority of
        None \<Rightarrow> authority
      | Some (_, p) \<Rightarrow> if p = ''443'' then trim_suffix '':443'' authority else authority)"

definition redirect_url_for_proxy :: "golib \<Rightarrow> oidc_connector \<Rightarrow> string \<Rightarrow> string result" where
  "redirect_url_for_proxy U conn proxy =
     (case redirect_url_of U conn of
        Inl e \<Rightarrow> Inl e
      | Inr parsed \<Rightarrow>
          if proxy = [] then Inl (Err BadParameter ''OIDC auth request is missing the proxy address'')
          else if \<not> equal_fold U (without_https_port (url_host parsed)) (without_https_port proxy)
          then Inl (Err BadParameter ''OIDC redirect URL does not match the proxy address'')
          else Inr (hd (redirect_urls (con_spec conn))))"

definition validate_auth_request_mode :: "oidc_auth_request \<Rightarrow> err option" where
  "validate_auth_request_mode req =
     (let console = \<not> create_web_session req \<and> (ssh_public_key req \<noteq> [] \<or> tls_public_key req \<noteq> []) in
      if \<not> create_web_session req \<and> \<not> sso_test_flow req \<and> \<not> console
      then Some (Err AccessDenied ''OIDC auth request has no supported login mode'') else None)"

section \<open>Group lookup settings (groups.go)\<close>

definition cloud_identity_groups_read_scope :: string where
  "cloud_identity_groups_read_scope = ''https://www.googleapis.com/auth/cloud-identity.groups.readonly''"

definition group_membership_label :: string where
  "group_membership_label = ''fork.teleport.dev/google-group-membership''"

definition group_fallback_label :: string where
  "group_fallback_label = ''fork.teleport.dev/google-group-fallback''"

datatype membership_mode = NoMode | MembershipDirect

record group_settings =
  gs_enabled :: bool
  gs_mode :: membership_mode
  gs_workspace_domains :: "string list"

definition group_lookup_settings :: "golib \<Rightarrow> oidc_connector option \<Rightarrow> group_settings result" where
  "group_lookup_settings U conn_opt =
     (case conn_opt of None \<Rightarrow> Inl (Err BadParameter ''missing OIDC connector'')
      | Some conn \<Rightarrow>
     (let has_scope = cloud_identity_groups_read_scope \<in> set (scope (con_spec conn));
          has_groups_mapping = list_ex (\<lambda>m. cm_claim m = groups_claim) (claims_to_roles (con_spec conn));
          raw_mode = to_lower U (trim_space (label_of conn group_membership_label));
          raw_fallback = to_lower U (trim_space (label_of conn group_fallback_label)) in
      if has_groups_mapping \<and> \<not> has_scope
      then Inl (Err BadParameter ''a groups claim mapping requires the OIDC scope'')
      else if has_scope \<and> \<not> has_groups_mapping
      then Inl (Err BadParameter ''the OIDC scope is only accepted together with a groups claim mapping'')
      else if \<not> has_scope then
        (if raw_mode \<noteq> [] then Inl (Err BadParameter ''the connector label needs the OIDC scope'')
         else if raw_fallback \<noteq> [] then Inl (Err BadParameter ''the connector label needs the OIDC scope'')
         else Inr \<lparr>gs_enabled = False, gs_mode = NoMode, gs_workspace_domains = []\<rparr>)
      else if raw_mode = ''transitive''
      then Inl (Err BadParameter ''the transitive Google group membership mode is no longer supported'')
      else if raw_mode = [] then Inl (Err BadParameter ''group lookup requires the connector label'')
      else if raw_mode \<noteq> ''direct'' then Inl (Err BadParameter ''unsupported Google group membership mode'')
      else if raw_fallback \<noteq> [] then Inl (Err BadParameter ''the fallback label is no longer supported'')
      else case workspace_domains U conn of
          Inl e \<Rightarrow> Inl e
        | Inr domains \<Rightarrow>
            Inr \<lparr>gs_enabled = True, gs_mode = MembershipDirect, gs_workspace_domains = domains\<rparr>))"

section \<open>ValidateConnector (connector.go)\<close>

definition supported_scope :: "string \<Rightarrow> bool" where
  "supported_scope s \<longleftrightarrow> s \<in> {''openid'', ''email'', cloud_identity_groups_read_scope}"

fun check_mappings :: "golib \<Rightarrow> string list \<Rightarrow> claim_mapping list \<Rightarrow> err option" where
  "check_mappings U domains [] = None"
| "check_mappings U domains (m # ms) =
     (case grammar_for_claim (cm_claim m) of
        None \<Rightarrow> Some (Err BadParameter ''this fork only supports email and groups OIDC claim mappings'')
      | Some g \<Rightarrow> (case cg_validate g U (cm_value m) domains of
                     Some e \<Rightarrow> Some e
                   | None \<Rightarrow> check_mappings U domains ms))"

definition validate_connector :: "golib \<Rightarrow> oidc_connector option \<Rightarrow> err option" where
  "validate_connector U conn_opt =
     (case conn_opt of None \<Rightarrow> Some (Err BadParameter ''missing OIDC connector'')
      | Some conn \<Rightarrow>
     (let s = con_spec conn in
      if google_service_account s \<noteq> [] \<or> google_service_account_uri s \<noteq> [] \<or> google_admin_email s \<noteq> []
      then Some (Err BadParameter ''this fork does not support Google service-account settings'')
      else if issuer_url s \<noteq> google_issuer
      then Some (Err BadParameter ''this fork only supports the canonical Google OIDC issuer'')
      else if pkce_mode s \<noteq> ''enabled''
      then Some (Err BadParameter ''this fork requires PKCE for Google OIDC connectors'')
      else if provider s \<noteq> [] then Some (Err BadParameter ''this fork does not support OIDC provider settings'')
      else if request_object_mode s \<notin> {[], ''none''}
      then Some (Err BadParameter ''this fork does not support OIDC request objects'')
      else if is_mfa_enabled conn then Some (Err BadParameter ''this fork does not support OIDC SSO MFA'')
      else if allow_unverified_email s
      then Some (Err BadParameter ''this fork requires verified OIDC email addresses'')
      else if max_age s \<noteq> None then Some (Err BadParameter ''this fork does not support OIDC max_age'')
      else case redirect_url_of U conn of
          Inl e \<Rightarrow> Some e
        | Inr _ \<Rightarrow>
      (case workspace_domains U conn of
          Inl e \<Rightarrow> Some e
        | Inr domains \<Rightarrow>
      if \<not> list_all supported_scope (scope s)
      then Some (Err BadParameter ''this fork does not support the OIDC scope'')
      else if ''email'' \<notin> set (scope s)
      then Some (Err BadParameter ''this fork requires the email OIDC scope'')
      else case group_lookup_settings U (Some conn) of
          Inl e \<Rightarrow> Some e
        | Inr _ \<Rightarrow> check_mappings U domains (claims_to_roles s))))"

section \<open>Lemmas\<close>

text \<open>The domain list: what the label says, normalised, without duplicates.\<close>

lemma collect_domains_set:
  "collect_domains U parts acc = Inr ds \<Longrightarrow>
     set ds = set acc \<union> {d. d \<noteq> [] \<and> d \<in> (\<lambda>p. to_lower U (trim_space p)) ` set parts}"
  by (induction U parts acc rule: collect_domains.induct) (auto simp: Let_def split: if_split_asm)

lemma collect_domains_distinct:
  "collect_domains U parts acc = Inr ds \<Longrightarrow> distinct acc \<Longrightarrow> distinct ds"
  by (induction U parts acc rule: collect_domains.induct) (auto simp: Let_def split: if_split_asm)

lemma collect_domains_good:
  "collect_domains U parts acc = Inr ds \<Longrightarrow> \<forall>d \<in> set acc. \<not> bad_domain d \<Longrightarrow> \<forall>d \<in> set ds. \<not> bad_domain d"
  by (induction U parts acc rule: collect_domains.induct) (auto simp: Let_def split: if_split_asm)

lemma workspace_domains_Inr:
  assumes "workspace_domains U conn = Inr ds"
  shows "ds \<noteq> []" and "distinct ds" and "\<forall>d \<in> set ds. \<not> bad_domain d \<and> d \<noteq> []"
    and "set ds = {d. d \<noteq> [] \<and> d \<in> (\<lambda>p. to_lower U (trim_space p)) `
           set (split_on (CHR '','') (label_of conn workspace_domains_label))}"
proof -
  from assms have c: "collect_domains U (split_on (CHR '','') (label_of conn workspace_domains_label)) [] = Inr ds"
    and ne: "ds \<noteq> []"
    by (auto simp: workspace_domains_def split: sum.split_asm if_split_asm)
  from ne show "ds \<noteq> []" .
  from collect_domains_distinct [OF c] show "distinct ds" by simp
  from collect_domains_set [OF c] show s: "set ds = {d. d \<noteq> [] \<and> d \<in> (\<lambda>p. to_lower U (trim_space p)) `
           set (split_on (CHR '','') (label_of conn workspace_domains_label))}" by simp
  from collect_domains_good [OF c] s show "\<forall>d \<in> set ds. \<not> bad_domain d \<and> d \<noteq> []" by auto
qed

lemma workspace_domains_no_label:
  assumes "con_labels conn = []" shows "is_err (workspace_domains U conn)"
  using assms by (simp add: workspace_domains_def trim_space_def)

text \<open>The characters a domain of the list cannot hold.\<close>

lemma good_domain_chars:
  assumes "\<not> bad_domain d"
  shows "CHR ''@'' \<notin> set d" and "CHR ''*'' \<notin> set d" and "CHR ''.'' \<in> set d"
  using assms by (auto simp: bad_domain_def contains_any_def list_ex_iff)

text \<open>An accepted claim value is an address in one of the domains.\<close>

definition address_value :: "golib \<Rightarrow> string list \<Rightarrow> string \<Rightarrow> bool" where
  "address_value U domains v \<longleftrightarrow>
     (\<exists>local domain. v = local @ ''@'' @ domain \<and> local \<noteq> [] \<and> CHR ''@'' \<notin> set local \<and> CHR ''@'' \<notin> set domain
        \<and> (local = ''*'' \<or> is_literal_local_part local)
        \<and> (\<exists>d \<in> set domains. equal_fold U d domain))"

lemma validate_address_claim_value_None:
  assumes "validate_address_claim_value U v ds = None" shows "address_value U ds v"
proof -
  obtain local domain f where c: "cut (CHR ''@'') v = (local, domain, f)" by (metis prod_cases3)
  from assms have n: "count_list v (CHR ''@'') = 1"
    by (auto simp: validate_address_claim_value_def split: if_split_asm)
  from assms n c have "local \<noteq> []" "local = ''*'' \<or> is_literal_local_part local"
    "list_ex (\<lambda>a. equal_fold U a domain) ds"
    by (auto simp: validate_address_claim_value_def split: if_split_asm)
  with count_list_one_cut [OF n c] show ?thesis
    unfolding address_value_def list_ex_iff by fastforce
qed

lemma grammar_for_claim_Some:
  assumes "grammar_for_claim claim = Some g"
  shows "claim \<in> {''email'', groups_claim}" and "cg_validate g = validate_address_claim_value"
  using assms
  by (auto simp: grammar_for_claim_def claim_grammars_def validate_email_claim_value_def
      validate_groups_claim_value_def split: if_split_asm)

lemma check_mappings_None:
  "check_mappings U ds ms = None \<Longrightarrow> m \<in> set ms \<Longrightarrow>
     cm_claim m \<in> {''email'', groups_claim} \<and> address_value U ds (cm_value m)"
proof (induction U ds ms rule: check_mappings.induct)
  case (2 U ds m' ms)
  then obtain g where g: "grammar_for_claim (cm_claim m') = Some g"
    and v: "cg_validate g U (cm_value m') ds = None" and r: "check_mappings U ds ms = None"
    by (auto split: option.split_asm)
  from grammar_for_claim_Some [OF g] v have "cm_claim m' \<in> {''email'', groups_claim}"
    and "address_value U ds (cm_value m')"
    by (auto intro: validate_address_claim_value_None)
  with "2.IH" [OF g v r] "2.prems" show ?case by auto
qed simp

lemma validate_connector_parts:
  assumes "validate_connector U (Some conn) = None"
  obtains domains u gs where "workspace_domains U conn = Inr domains"
    and "redirect_url_of U conn = Inr u" and "group_lookup_settings U (Some conn) = Inr gs"
    and "check_mappings U domains (claims_to_roles (con_spec conn)) = None"
    and "issuer_url (con_spec conn) = google_issuer" and "is_pkce_enabled conn"
    and "\<not> is_mfa_enabled conn" and "\<not> allow_unverified_email (con_spec conn)"
    and "google_service_account (con_spec conn) = [] \<and> google_service_account_uri (con_spec conn) = []
         \<and> google_admin_email (con_spec conn) = []"
    and "''email'' \<in> set (scope (con_spec conn)) \<and> list_all supported_scope (scope (con_spec conn))"
  using assms
  by (simp add: validate_connector_def Let_def is_pkce_enabled_def split: if_split_asm sum.split_asm)

lemma group_lookup_settings_Inr:
  assumes "group_lookup_settings U (Some conn) = Inr gs"
  shows "gs_enabled gs \<longleftrightarrow> cloud_identity_groups_read_scope \<in> set (scope (con_spec conn))"
    and "gs_enabled gs \<longleftrightarrow> (\<exists>m \<in> set (claims_to_roles (con_spec conn)). cm_claim m = groups_claim)"
    and "gs_enabled gs \<Longrightarrow> gs_mode gs = MembershipDirect
           \<and> workspace_domains U conn = Inr (gs_workspace_domains gs)"
    and "\<not> gs_enabled gs \<Longrightarrow> gs_mode gs = NoMode"
  using assms
  by (auto simp: group_lookup_settings_def Let_def list_ex_iff split: if_split_asm sum.split_asm)

section \<open>Properties\<close>

text \<open>A connector that the policy accepts, for concrete inputs.\<close>

definition sample_spec :: oidc_spec where
  "sample_spec = \<lparr>issuer_url = google_issuer, client_id = ''cid'', client_secret = ''sec'',
     redirect_urls = [''HTTPS://tp.ex.com:443/v1/webapi/oidc/callback''], acr = [], provider = [],
     display = [], scope = [''openid'', ''email'', cloud_identity_groups_read_scope], prompt = [],
     claims_to_roles = [\<lparr>cm_claim = ''email'', cm_value = ''*@ex.com'', cm_roles = [''dev'']\<rparr>,
        \<lparr>cm_claim = groups_claim, cm_value = ''ops@Ex.com'', cm_roles = [''ops'']\<rparr>],
     username_claim = [], google_service_account_uri = [], google_service_account = [],
     google_admin_email = [], allow_unverified_email = False, max_age = None,
     client_redirect_settings = None, mfa_settings_of = None, pkce_mode = ''enabled'',
     request_object_mode = [], user_matchers = [], entra_groups_provider = None\<rparr>"

definition sample_connector :: oidc_connector where
  "sample_connector = \<lparr>con_name = ''google'',
     con_labels = [(workspace_domains_label, '' Ex.COM, b.org,ex.com''), (group_membership_label, ''Direct'')],
     con_version = ''v3'', con_spec = sample_spec\<rparr>"

lemma sample_labels:
  "con_spec sample_connector = sample_spec" "con_name sample_connector = ''google''"
  "label_of sample_connector workspace_domains_label = '' Ex.COM, b.org,ex.com''"
  "label_of sample_connector group_membership_label = ''Direct''"
  "label_of sample_connector group_fallback_label = []"
  by (simp_all add: sample_connector_def label_of_def workspace_domains_label_def
      group_membership_label_def group_fallback_label_def)

lemma sample_domains: "workspace_domains ascii_tables sample_connector = Inr [''ex.com'', ''b.org'']"
  by (simp add: workspace_domains_def sample_labels bad_domain_def go_eval del: decode.simps(2))

lemma sample_group: "group_lookup_settings ascii_tables (Some sample_connector) =
     Inr \<lparr>gs_enabled = True, gs_mode = MembershipDirect, gs_workspace_domains = [''ex.com'', ''b.org'']\<rparr>"
  by (simp add: group_lookup_settings_def sample_domains sample_labels go_eval del: decode.simps(2))
     (simp add: sample_spec_def groups_claim_def sample_domains)

lemma sample_redirect:
  "redirect_url_of ascii_tables sample_connector =
     Inr (no_url\<lparr>url_scheme := ''https'', url_host := ''tp.ex.com:443'', url_path := callback_path\<rparr>)"
  by code_simp

lemma sample_mappings: "check_mappings ascii_tables [''ex.com'', ''b.org''] (claims_to_roles sample_spec) = None"
  by (simp add: sample_spec_def groups_claim_def grammar_for_claim_def claim_grammars_def validate_email_claim_value_def
    validate_groups_claim_value_def validate_address_claim_value_def cut_def is_literal_local_part_def runes_def equal_fold_ascii go_eval del: decode.simps(2))

lemma sample_valid: "validate_connector ascii_tables (Some sample_connector) = None"
  by (simp add: validate_connector_def sample_domains sample_group sample_redirect sample_mappings sample_labels is_mfa_enabled_def)
   (simp add: sample_spec_def supported_scope_def)

text \<open>The allow-list of a connector. Whenever \<^verbatim>\<open>WorkspaceDomains\<close> succeeds, the list
  is not empty, has no duplicates, holds exactly the non-blank comma-separated parts of the
  label, trimmed and lower-cased, and no entry holds an at sign, a star or a slash, or lacks a
  dot, or starts or ends with one.\<close>

theorem workspace_domains_allow_list:
  assumes "workspace_domains U conn = Inr ds"
  shows "ds \<noteq> [] \<and> distinct ds
    \<and> (\<forall>d. d \<in> set ds \<longleftrightarrow> d \<noteq> [] \<and>
         (\<exists>p \<in> set (split_on (CHR '','') (label_of conn workspace_domains_label)). d = to_lower U (trim_space p)))
    \<and> (\<forall>d \<in> set ds. CHR ''@'' \<notin> set d \<and> CHR ''*'' \<notin> set d \<and> CHR ''/'' \<notin> set d \<and> CHR ''.'' \<in> set d
         \<and> \<not> starts_with ''.'' d \<and> \<not> ends_with ''.'' d)"
proof -
  note w = workspace_domains_Inr [OF assms]
  have "\<forall>d \<in> set ds. CHR ''@'' \<notin> set d \<and> CHR ''*'' \<notin> set d \<and> CHR ''/'' \<notin> set d \<and> CHR ''.'' \<in> set d
         \<and> \<not> starts_with ''.'' d \<and> \<not> ends_with ''.'' d"
    using w(3) by (auto simp: bad_domain_def contains_any_def list_ex_iff)
  with w(1,2,4) show ?thesis by auto
qed

theorem workspace_domains_allow_list_witness:
  "workspace_domains ascii_tables sample_connector = Inr [''ex.com'', ''b.org'']
   \<and> distinct [''ex.com'', ''b.org'']"
  using sample_domains workspace_domains_allow_list [OF sample_domains] by blast

text \<open>Property C22: soundness of \<^verbatim>\<open>ValidateConnector\<close>. A connector that passes uses the canonical
  Google issuer with PKCE, has no service account, no SSO MFA and no unverified email, asks for
  the email scope and for no scope outside the three known ones, has a domain allow-list, and
  each of its role mappings is on the email or the groups claim, with a value that is an exact
  address or a whole-domain wildcard of a domain on the allow-list (up to case).\<close>

theorem validate_connector_sound:
  assumes "validate_connector U (Some conn) = None"
  shows "issuer_url (con_spec conn) = google_issuer \<and> is_pkce_enabled conn \<and> \<not> is_mfa_enabled conn
    \<and> \<not> allow_unverified_email (con_spec conn) \<and> google_service_account (con_spec conn) = []
    \<and> ''email'' \<in> set (scope (con_spec conn)) \<and> list_all supported_scope (scope (con_spec conn))
    \<and> (\<exists>ds. workspace_domains U conn = Inr ds \<and>
         (\<forall>m \<in> set (claims_to_roles (con_spec conn)).
            (cm_claim m = ''email'' \<or> cm_claim m = groups_claim) \<and> address_value U ds (cm_value m)))"
proof -
  from validate_connector_parts [OF assms] obtain ds
    where ds: "workspace_domains U conn = Inr ds"
      "check_mappings U ds (claims_to_roles (con_spec conn)) = None"
      and rest: "issuer_url (con_spec conn) = google_issuer \<and> is_pkce_enabled conn \<and> \<not> is_mfa_enabled conn
        \<and> \<not> allow_unverified_email (con_spec conn) \<and> google_service_account (con_spec conn) = []
        \<and> ''email'' \<in> set (scope (con_spec conn)) \<and> list_all supported_scope (scope (con_spec conn))"
    by metis
  from check_mappings_None [OF ds(2)] ds(1) rest show ?thesis by blast
qed

theorem validate_connector_sound_witness:
  "validate_connector ascii_tables (Some sample_connector) = None \<and> is_pkce_enabled sample_connector"
  using sample_valid validate_connector_sound [OF sample_valid] by blast

text \<open>The callback URL. When \<^verbatim>\<open>RedirectURL\<close> accepts a connector, the connector has
  exactly one redirect URL, and its raw text is an https scheme (in any case), an authority with
  no slash, no at sign and no question mark, and the exact callback path, with nothing after it:
  no percent-escaped spelling of the path, no query and no fragment gets through.\<close>

theorem redirect_url_raw_text:
  assumes "redirect_url_of U conn = Inr u"
  shows "\<exists>sch auth. redirect_urls (con_spec conn) = [sch @ ''://'' @ auth @ callback_path]
    \<and> map lower_char sch = ''https'' \<and> CHR ''/'' \<notin> set auth \<and> CHR ''@'' \<notin> set auth
    \<and> CHR ''?'' \<notin> set auth \<and> auth \<noteq> [] \<and> parse_host U auth = Some (url_host u)"
proof -
  from assms obtain raw where one: "redirect_urls (con_spec conn) = [raw]"
    and p: "url_parse U raw = Some u"
    and f: "url_scheme u = ''https''" "hostname u \<noteq> []" "\<not> url_user u" "url_raw_query u = []"
      "\<not> url_force_query u" "CHR ''#'' \<notin> set raw" "url_path u = callback_path"
      "escaped_path u = callback_path"
    by (auto simp: redirect_url_of_def split: list.split_asm option.split_asm if_split_asm)
  from f(2) have h: "url_host u \<noteq> []"
    by (auto simp: hostname_def split_host_port_url_def last_cut_def starts_with_def)
  from f(1) have s: "url_scheme u \<noteq> []" by simp
  have plain: "plain_path callback_path" by code_simp
  from url_parse_plain [OF p f(6) s h f(3,4,5,7,8) plain] obtain sch auth
    where "raw = sch @ ''://'' @ auth @ callback_path" "url_scheme u = map lower_char sch"
      "CHR ''/'' \<notin> set auth" "CHR ''@'' \<notin> set auth" "CHR ''?'' \<notin> set auth"
      "parse_host U auth = Some (url_host u)" by metis
  moreover from this h have "auth \<noteq> []"
    by (auto simp: parse_host_def starts_with_def)
  ultimately show ?thesis using one f(1) by metis
qed

theorem redirect_url_raw_text_witness:
  "\<exists>sch auth. redirect_urls (con_spec sample_connector) = [sch @ ''://'' @ auth @ callback_path]
    \<and> map lower_char sch = ''https''"
  using redirect_url_raw_text [OF sample_redirect] by metis

text \<open>The proxy of a login. \<^verbatim>\<open>RedirectURLForProxy\<close> succeeds exactly when the connector
  has an accepted callback URL, a proxy address is given, and the two authorities are equal up
  to case once a port 443 is dropped; it then returns the configured URL unchanged.\<close>

theorem redirect_url_for_proxy_iff:
  "redirect_url_for_proxy U conn proxy = Inr out \<longleftrightarrow>
     (\<exists>u. redirect_url_of U conn = Inr u \<and> proxy \<noteq> []
        \<and> equal_fold U (without_https_port (url_host u)) (without_https_port proxy)
        \<and> redirect_urls (con_spec conn) = [out])"
proof -
  have one: "\<exists>raw. redirect_urls (con_spec conn) = [raw]" if "redirect_url_of U conn = Inr u" for u
    using that by (auto simp: redirect_url_of_def split: list.split_asm)
  show ?thesis
  proof (cases "redirect_url_of U conn")
    case (Inr u)
    with one obtain raw where "redirect_urls (con_spec conn) = [raw]" by blast
    with Inr show ?thesis by (auto simp: redirect_url_for_proxy_def)
  qed (simp add: redirect_url_for_proxy_def)
qed

text \<open>The email allow-list. \<^verbatim>\<open>CheckEmailDomain\<close> lets a login pass exactly when the
  trimmed, lower-cased email is a non-empty local part, an at sign and a domain of the list that
  is not empty; the domain is what follows the last at sign.\<close>

theorem check_email_domain_iff:
  "check_email_domain U email allowed = None \<longleftrightarrow>
     (\<exists>local domain. to_lower U (trim_space email) = local @ ''@'' @ domain \<and> local \<noteq> []
        \<and> CHR ''@'' \<notin> set domain \<and> domain \<noteq> [] \<and> domain \<in> set allowed)"
proof -
  let ?a = "to_lower U (trim_space email)"
  have "check_email_domain U email allowed = None \<longleftrightarrow>
      (\<exists>local domain. last_cut (CHR ''@'') ?a = Some (local, domain) \<and> local \<noteq> [] \<and> domain \<noteq> []
         \<and> domain \<in> set allowed)"
    by (auto simp: check_email_domain_def split: option.split prod.split)
  then show ?thesis by (auto simp: last_cut_Some)
qed

text \<open>Group lookup fails closed. When \<^verbatim>\<open>GroupLookupSettings\<close> succeeds, group lookup is
  on exactly when the connector asks for the Cloud Identity scope, exactly when it maps the
  groups claim; and when it is on, the mode is direct and the domain gate is the connector's own
  allow-list, which is not empty.\<close>

theorem group_lookup_settings_consistent:
  assumes "group_lookup_settings U (Some conn) = Inr gs"
  shows "(gs_enabled gs \<longleftrightarrow> cloud_identity_groups_read_scope \<in> set (scope (con_spec conn)))
    \<and> (gs_enabled gs \<longleftrightarrow> (\<exists>m \<in> set (claims_to_roles (con_spec conn)). cm_claim m = groups_claim))
    \<and> (gs_enabled gs \<longrightarrow> gs_mode gs = MembershipDirect \<and> gs_workspace_domains gs \<noteq> []
         \<and> workspace_domains U conn = Inr (gs_workspace_domains gs))"
  using group_lookup_settings_Inr [OF assms] workspace_domains_Inr(1) by blast

theorem group_lookup_settings_consistent_witness:
  "gs_mode \<lparr>gs_enabled = True, gs_mode = MembershipDirect, gs_workspace_domains = [''ex.com'', ''b.org'']\<rparr>
     = MembershipDirect
   \<and> cloud_identity_groups_read_scope \<in> set (scope (con_spec sample_connector))"
  using group_lookup_settings_consistent [OF sample_group] by simp

end
