(* ===== verification/ConnectorStore.thy ===== *)
theory ConnectorStore
  imports Policy StateStore BackendRange
begin

text \<open>
  Connectors at rest: the resource checks of \<^verbatim>\<open>api/types/oidc.go\<close> and \<^verbatim>\<open>api/types/resource.go\<close>, the encoding of
  \<^verbatim>\<open>lib/services/oidc.go\<close>, the storage of \<^verbatim>\<open>lib/services/local/users.go\<close> and the connector operations of the Auth
  Service in \<^verbatim>\<open>lib/auth/oidc.go\<close>, where this fork applies its policy.

  A resource is the connector with the rest of its metadata. The methods that change their receiver
  return it. The JSON codec and \<^verbatim>\<open>netip.ParsePrefix\<close> are arguments; the storage operations take the
  backend operations they call, as those of the state store do.
\<close>

section \<open>Resource metadata (resource.go, common.go)\<close>

record connector_resource =
  cr_kind :: string
  cr_namespace :: string
  cr_expires :: "int option"
  cr_revision :: string
  cr_connector :: oidc_connector

abbreviation cr_name :: "connector_resource \<Rightarrow> string" where
  "cr_name r \<equiv> con_name (cr_connector r)"

definition is_valid_label_key_byte :: "char \<Rightarrow> bool" where
  "is_valid_label_key_byte b \<longleftrightarrow>
     CHR ''0'' \<le> b \<and> b \<le> CHR ''9'' \<or> CHR ''a'' \<le> b \<and> b \<le> CHR ''z'' \<or> CHR ''A'' \<le> b \<and> b \<le> CHR ''Z''
     \<or> b \<in> set ''/._:*-''"

definition is_valid_label_key :: "string \<Rightarrow> bool" where
  "is_valid_label_key s \<longleftrightarrow> s \<noteq> [] \<and> list_all is_valid_label_key_byte s"

definition origin_label :: string where "origin_label = ''teleport.dev/origin''"

definition origin_values :: "string list" where
  "origin_values = [''defaults'', ''config-file'', ''dynamic'', ''cloud'', ''kubernetes'', ''okta'', ''scim'',
     ''discovery-kubernetes'', ''entra-id'', ''aws-identity-center'', ''integration_awsrolesanywhere'']"

definition default_namespace :: string where "default_namespace = ''default''"

definition check_metadata :: "connector_resource \<Rightarrow> connector_resource result" where
  "check_metadata r =
     (if cr_name r = [] then Inl (Err BadParameter ''missing parameter Name'')
      else let r1 = (if cr_namespace r = [] then r\<lparr>cr_namespace := default_namespace\<rparr> else r);
               origin = label_of (cr_connector r1) origin_label in
        if cr_namespace r1 \<noteq> default_namespace then Inl (Err BadParameter ''namespace invalid, custom namespaces are deprecated'')
        else if \<not> list_all (\<lambda>(k, v). is_valid_label_key k) (con_labels (cr_connector r1)) then Inl (Err BadParameter ''invalid label key'')
        else if origin \<noteq> [] \<and> origin \<notin> set origin_values then Inl (Err BadParameter ''invalid origin value'')
        else Inr r1)"

section \<open>Checks of the resource (oidc.go, msgraph.go)\<close>

definition check_version :: "connector_resource \<Rightarrow> connector_resource result" where
  "check_version r =
     (let v = con_version (cr_connector r) in
      if v \<in> {''v2'', ''v3''} then Inr r
      else if v = [] then Inr (r\<lparr>cr_connector := (cr_connector r)\<lparr>con_version := ''v3''\<rparr>\<rparr>)
      else Inl (Err BadParameter ''Version: invalid OIDC connector version''))"

definition check_and_set_defaults :: "golib \<Rightarrow> connector_resource \<Rightarrow> connector_resource result" where
  "check_and_set_defaults U r =
     (case check_version (r\<lparr>cr_kind := ''oidc''\<rparr>) of
        Inl e \<Rightarrow> Inl e
      | Inr r1 \<Rightarrow>
          (case check_metadata r1 of
             Inl e \<Rightarrow> Inl e
           | Inr r2 \<Rightarrow>
               (case check_connector_spec U (cr_name r2) (con_spec (cr_connector r2)) of
                  Some e \<Rightarrow> Inl e
                | None \<Rightarrow> Inr r2)))"

definition max_auth_connector_name_length :: nat where "max_auth_connector_name_length = 768"

definition entra_groups_types :: "string list" where
  "entra_groups_types = [''security-groups'', ''directory-roles'', ''all-groups'']"

definition valid_graph_endpoints :: "string list" where
  "valid_graph_endpoints = [''https://graph.microsoft.com'', ''https://graph.microsoft.us'',
     ''https://dod-graph.microsoft.us'', ''https://microsoftgraph.chinacloudapi.cn'']"

definition validate_ms_graph_endpoint :: "string \<Rightarrow> err option" where
  "validate_ms_graph_endpoint e =
     (if e \<noteq> [] \<and> e \<notin> set valid_graph_endpoints then Some (Err BadParameter ''unexpected graph endpoint'') else None)"

definition check_entra :: "entra_provider \<Rightarrow> err option" where
  "check_entra e =
     (if entra_group_type e \<noteq> [] \<and> entra_group_type e \<notin> set entra_groups_types
      then Some (Err BadParameter ''unexpected group type'')
      else validate_ms_graph_endpoint (entra_graph_endpoint e))"

definition validate_resource :: "(string \<Rightarrow> bool) \<Rightarrow> connector_resource \<Rightarrow> err option" where
  "validate_resource parse_prefix r =
     (let s = con_spec (cr_connector r) in
      if length (cr_name r) > max_auth_connector_name_length then Some (Err BadParameter ''connector name exceeds maximum length'')
      else if (case client_redirect_settings s of None \<Rightarrow> False
               | Some st \<Rightarrow> \<not> list_all parse_prefix (insecure_allowed_cidr_ranges st))
      then Some (Err BadParameter ''bad CIDR range in insecure_allowed_cidr_ranges'')
      else case Option.bind (entra_groups_provider s) check_entra of
          Some e \<Rightarrow> Some e
        | None \<Rightarrow>
            if claims_to_roles s = [] then Some (Err BadParameter ''claims_to_roles is empty'') else None)"

section \<open>Encoding (lib/services/oidc.go)\<close>

text \<open>The codec: \<^verbatim>\<open>FastMarshal\<close> and \<^verbatim>\<open>FastUnmarshal\<close> of the connector, and of the header, whose version is read first.\<close>

record connector_codec =
  cc_marshal :: "connector_resource \<Rightarrow> string result"
  cc_version :: "string \<Rightarrow> string result"
  cc_unmarshal :: "string \<Rightarrow> connector_resource result"
  cc_parse_prefix :: "string \<Rightarrow> bool"

definition marshal_oidc_connector ::
  "golib \<Rightarrow> connector_codec \<Rightarrow> connector_resource \<Rightarrow> (connector_resource \<times> string) result" where
  "marshal_oidc_connector U K r =
     (case check_and_set_defaults U r of
        Inl e \<Rightarrow> Inl e
      | Inr r1 \<Rightarrow>
          (case cc_marshal K (r1\<lparr>cr_revision := []\<rparr>) of Inl e \<Rightarrow> Inl e | Inr v \<Rightarrow> Inr (r1, v)))"

definition unmarshal_oidc_connector ::
  "golib \<Rightarrow> connector_codec \<Rightarrow> int option \<Rightarrow> string \<Rightarrow> string \<Rightarrow> connector_resource result" where
  "unmarshal_oidc_connector U K expires revision v =
     (case cc_version K v of
        Inl e \<Rightarrow> Inl e
      | Inr ver \<Rightarrow>
          if ver \<notin> {''v2'', ''v3''} then Inl (Err BadParameter ''OIDC connector resource version is not supported'')
          else case cc_unmarshal K v of
              Inl e \<Rightarrow> Inl (Err BadParameter (err_msg e))
            | Inr r \<Rightarrow>
                (case check_and_set_defaults U r of
                   Inl e \<Rightarrow> Inl e
                 | Inr r1 \<Rightarrow>
                     let r2 = (if revision \<noteq> [] then r1\<lparr>cr_revision := revision\<rparr> else r1) in
                     Inr (if expires \<noteq> None then r2\<lparr>cr_expires := expires\<rparr> else r2)))"

section \<open>Storage (lib/services/local/users.go)\<close>

type_synonym 'm deleter = "int \<Rightarrow> key \<Rightarrow> 'm \<Rightarrow> unit result \<times> 'm"

definition connector_key :: "string \<Rightarrow> key" where
  "connector_key name = new_key [''web'', ''connectors'', ''oidc'', ''connectors'', name]"

definition connector_item :: "connector_resource \<Rightarrow> string \<Rightarrow> string \<Rightarrow> item" where
  "connector_item r v rv =
     \<lparr>it_key = connector_key (cr_name r), it_value = v, it_expires = cr_expires r, it_revision = rv\<rparr>"

text \<open>The three writing operations share their first and last steps.\<close>

definition with_encoded ::
  "golib \<Rightarrow> connector_codec \<Rightarrow> connector_resource \<Rightarrow> (connector_resource \<Rightarrow> string \<Rightarrow> 'm \<Rightarrow> item result \<times> 'm)
    \<Rightarrow> 'm \<Rightarrow> connector_resource result \<times> 'm" where
  "with_encoded U K r write m =
     (case validate_resource (cc_parse_prefix K) r of
        Some e \<Rightarrow> (Inl e, m)
      | None \<Rightarrow>
          (case marshal_oidc_connector U K r of
             Inl e \<Rightarrow> (Inl e, m)
           | Inr (r1, v) \<Rightarrow>
               (case write r1 v m of
                  (Inl e, m') \<Rightarrow> (Inl e, m')
                | (Inr lease, m') \<Rightarrow> (Inr (r1\<lparr>cr_revision := it_revision lease\<rparr>), m'))))"

definition upsert_oidc_connector ::
  "'m creator \<Rightarrow> golib \<Rightarrow> connector_codec \<Rightarrow> int \<Rightarrow> string \<Rightarrow> connector_resource \<Rightarrow> 'm \<Rightarrow> connector_resource result \<times> 'm" where
  "upsert_oidc_connector put U K now rv r =
     with_encoded U K r (\<lambda>r1 v. put now rv (connector_item r1 v (cr_revision r)))"

definition create_oidc_connector ::
  "'m creator \<Rightarrow> golib \<Rightarrow> connector_codec \<Rightarrow> int \<Rightarrow> string \<Rightarrow> connector_resource \<Rightarrow> 'm \<Rightarrow> connector_resource result \<times> 'm" where
  "create_oidc_connector create U K now rv r =
     with_encoded U K r (\<lambda>r1 v. create now rv (connector_item r1 v []))"

definition update_oidc_connector ::
  "'m creator \<Rightarrow> golib \<Rightarrow> connector_codec \<Rightarrow> int \<Rightarrow> string \<Rightarrow> connector_resource \<Rightarrow> 'm \<Rightarrow> connector_resource result \<times> 'm" where
  "update_oidc_connector update U K now rv r =
     with_encoded U K r (\<lambda>r1 v. update now rv (connector_item r1 v (cr_revision r1)))"

definition missing_name :: err where "missing_name = Err BadParameter ''missing parameter name''"

definition delete_oidc_connector :: "'m deleter \<Rightarrow> int \<Rightarrow> string \<Rightarrow> 'm \<Rightarrow> unit result \<times> 'm" where
  "delete_oidc_connector delete now name m =
     (if name = [] then (Inl missing_name, m) else delete now (connector_key name) m)"

definition strip_secrets :: "bool \<Rightarrow> connector_resource \<Rightarrow> connector_resource" where
  "strip_secrets with_secrets r =
     (if with_secrets then r
      else r\<lparr>cr_connector := (cr_connector r)\<lparr>con_spec := (con_spec (cr_connector r))\<lparr>client_secret := [],
        google_service_account := []\<rparr>\<rparr>\<rparr>)"

definition decode_item :: "golib \<Rightarrow> connector_codec \<Rightarrow> bool \<Rightarrow> item \<Rightarrow> connector_resource result" where
  "decode_item U K with_secrets x =
     (case unmarshal_oidc_connector U K (it_expires x) (it_revision x) (it_value x) of
        Inl e \<Rightarrow> Inl e
      | Inr r \<Rightarrow> Inr (strip_secrets with_secrets r))"

definition get_stored_connector ::
  "'m getter \<Rightarrow> golib \<Rightarrow> connector_codec \<Rightarrow> int \<Rightarrow> string \<Rightarrow> bool \<Rightarrow> 'm \<Rightarrow> connector_resource result \<times> 'm" where
  "get_stored_connector get U K now name with_secrets m =
     (if name = [] then (Inl missing_name, m)
      else case get now (connector_key name) m of
          (Inl e, m') \<Rightarrow> (Inl (if err_kind e = NotFound then Err NotFound ''OpenID connector is not configured'' else e), m')
        | (Inr x, m') \<Rightarrow> (decode_item U K with_secrets x, m'))"

definition connectors_prefix :: key where
  "connectors_prefix = new_key [''web'', ''connectors'', ''oidc'', ''connectors'']"

definition range_params :: "string \<Rightarrow> string \<Rightarrow> items_params" where
  "range_params start stop =
     \<lparr>ip_start = key_append connectors_prefix (key_from_string start),
      ip_end = (if stop \<noteq> [] then key_to_exact (key_append connectors_prefix (key_from_string stop))
                else range_end connectors_prefix),
      ip_descending = False, ip_limit = 0\<rparr>"

text \<open>A stream that fails does so before its first element: it is an error or the list of its elements.\<close>

definition stream_filter_map :: "('a \<Rightarrow> 'b option) \<Rightarrow> 'a list result \<Rightarrow> 'b list result" where
  "stream_filter_map f s = (case s of Inl e \<Rightarrow> Inl e | Inr xs \<Rightarrow> Inr (List.map_filter f xs))"

definition stream_take_while :: "('a \<Rightarrow> bool) \<Rightarrow> 'a list result \<Rightarrow> 'a list result" where
  "stream_take_while p s = (case s of Inl e \<Rightarrow> Inl e | Inr xs \<Rightarrow> Inr (takeWhile p xs))"

definition ok_value :: "'a result \<Rightarrow> 'a option" where
  "ok_value r = (case r of Inl _ \<Rightarrow> None | Inr x \<Rightarrow> Some x)"

definition range_oidc_connectors ::
  "(items_params \<Rightarrow> item list result) \<Rightarrow> golib \<Rightarrow> connector_codec \<Rightarrow> string \<Rightarrow> string \<Rightarrow> bool
    \<Rightarrow> connector_resource list result" where
  "range_oidc_connectors items U K start stop with_secrets =
     stream_take_while (\<lambda>r. stop = [] \<or> cr_name r < stop)
       (stream_filter_map (\<lambda>x. ok_value (decode_item U K with_secrets x)) (items (range_params start stop)))"

definition get_oidc_connectors ::
  "(items_params \<Rightarrow> item list result) \<Rightarrow> golib \<Rightarrow> connector_codec \<Rightarrow> bool \<Rightarrow> connector_resource list result" where
  "get_oidc_connectors items U K with_secrets = range_oidc_connectors items U K [] [] with_secrets"

definition default_chunk_size :: nat where "default_chunk_size = 1000"

definition collect_page_and_cursor :: "'a list result \<Rightarrow> int \<Rightarrow> ('a \<Rightarrow> string) \<Rightarrow> ('a list \<times> string) result" where
  "collect_page_and_cursor stream limit cursor =
     (let n = (if limit \<le> 0 \<or> limit > int default_chunk_size then default_chunk_size else nat limit) in
      case stream of
        Inl e \<Rightarrow> Inl e
      | Inr xs \<Rightarrow> Inr (take n xs, case drop n xs of [] \<Rightarrow> [] | x # _ \<Rightarrow> cursor x))"

definition list_oidc_connectors ::
  "(items_params \<Rightarrow> item list result) \<Rightarrow> golib \<Rightarrow> connector_codec \<Rightarrow> int \<Rightarrow> string \<Rightarrow> bool
    \<Rightarrow> (connector_resource list \<times> string) result" where
  "list_oidc_connectors items U K limit start with_secrets =
     collect_page_and_cursor (range_oidc_connectors items U K start [] with_secrets) limit cr_name"

section \<open>The Auth Service (lib/auth/oidc.go)\<close>

text \<open>Each operation returns the audit events it hands to the emitter, whose errors it only logs.\<close>

datatype connector_event = ConnectorCreated string | ConnectorUpdated string | ConnectorDeleted string

definition with_policy ::
  "golib \<Rightarrow> connector_resource \<Rightarrow> (string \<Rightarrow> connector_event) \<Rightarrow> ('m \<Rightarrow> connector_resource result \<times> 'm)
    \<Rightarrow> 'm \<Rightarrow> connector_resource result \<times> connector_event list \<times> 'm" where
  "with_policy U r event op m =
     (case validate_connector U (Some (cr_connector r)) of
        Some e \<Rightarrow> (Inl e, [], m)
      | None \<Rightarrow>
          (case op m of
             (Inl e, m') \<Rightarrow> (Inl e, [], m')
           | (Inr r', m') \<Rightarrow> (Inr r', [event (cr_name r)], m')))"

definition server_upsert_connector ::
  "'m creator \<Rightarrow> golib \<Rightarrow> connector_codec \<Rightarrow> int \<Rightarrow> string \<Rightarrow> connector_resource \<Rightarrow> 'm
    \<Rightarrow> connector_resource result \<times> connector_event list \<times> 'm" where
  "server_upsert_connector put U K now rv r = with_policy U r ConnectorCreated (upsert_oidc_connector put U K now rv r)"

definition server_update_connector ::
  "'m creator \<Rightarrow> golib \<Rightarrow> connector_codec \<Rightarrow> int \<Rightarrow> string \<Rightarrow> connector_resource \<Rightarrow> 'm
    \<Rightarrow> connector_resource result \<times> connector_event list \<times> 'm" where
  "server_update_connector update U K now rv r = with_policy U r ConnectorUpdated (update_oidc_connector update U K now rv r)"

definition server_create_connector ::
  "'m creator \<Rightarrow> golib \<Rightarrow> connector_codec \<Rightarrow> int \<Rightarrow> string \<Rightarrow> connector_resource \<Rightarrow> 'm
    \<Rightarrow> connector_resource result \<times> connector_event list \<times> 'm" where
  "server_create_connector create U K now rv r = with_policy U r ConnectorCreated (create_oidc_connector create U K now rv r)"

definition server_delete_connector ::
  "'m deleter \<Rightarrow> int \<Rightarrow> string \<Rightarrow> 'm \<Rightarrow> unit result \<times> connector_event list \<times> 'm" where
  "server_delete_connector delete now name m =
     (case delete_oidc_connector delete now name m of
        (Inl e, m') \<Rightarrow> (Inl e, [], m')
      | (Inr _, m') \<Rightarrow> (Inr (), [ConnectorDeleted name], m'))"

text \<open>The login operations of the Auth Service: without an OIDC service they are not available.\<close>

definition oidc_not_implemented :: err where
  "oidc_not_implemented = Err AccessDenied ''OIDC is only available in enterprise subscriptions''"

definition delegate :: "('q \<Rightarrow> 'm \<Rightarrow> 'a result \<times> 'm) option \<Rightarrow> 'q \<Rightarrow> 'm \<Rightarrow> 'a result \<times> 'm" where
  "delegate service q m = (case service of None \<Rightarrow> (Inl oidc_not_implemented, m) | Some op \<Rightarrow> op q m)"

section \<open>Checks keep what they check\<close>

text \<open>The defaults a successful check fills in.\<close>

definition defaulted :: "connector_resource \<Rightarrow> connector_resource" where
  "defaulted r = r\<lparr>cr_kind := ''oidc'', cr_namespace := default_namespace,
     cr_connector := (cr_connector r)\<lparr>con_version := if con_version (cr_connector r) = [] then ''v3'' else con_version (cr_connector r)\<rparr>\<rparr>"

lemma defaulted_simps [simp]:
  "cr_kind (defaulted r) = ''oidc''" "cr_namespace (defaulted r) = default_namespace"
  "cr_expires (defaulted r) = cr_expires r" "cr_revision (defaulted r) = cr_revision r"
  "cr_name (defaulted r) = cr_name r" "con_labels (cr_connector (defaulted r)) = con_labels (cr_connector r)"
  "con_spec (cr_connector (defaulted r)) = con_spec (cr_connector r)"
  "con_version (cr_connector (defaulted r)) = (if con_version (cr_connector r) = [] then ''v3'' else con_version (cr_connector r))"
  "defaulted (defaulted r) = defaulted r"
  "defaulted (r\<lparr>cr_revision := rv\<rparr>) = (defaulted r)\<lparr>cr_revision := rv\<rparr>"
  by (simp_all add: defaulted_def)

lemma check_version_Inr:
  "check_version r = Inr r' \<longleftrightarrow> con_version (cr_connector r) \<in> {[], ''v2'', ''v3''}
     \<and> r' = r\<lparr>cr_connector := (cr_connector r)\<lparr>con_version := if con_version (cr_connector r) = [] then ''v3'' else con_version (cr_connector r)\<rparr>\<rparr>"
  by (cases r; cases "cr_connector r") (auto simp: check_version_def Let_def)

lemma label_of_cong: "con_labels c = con_labels d \<Longrightarrow> label_of c = label_of d"
  by (simp add: label_of_def fun_eq_iff)

text \<open>What the check looks at: the name, the namespace, the labels, the version and the spec.\<close>

definition acceptable :: "golib \<Rightarrow> connector_resource \<Rightarrow> bool" where
  "acceptable U r \<longleftrightarrow> con_version (cr_connector r) \<in> {[], ''v2'', ''v3''} \<and> cr_name r \<noteq> []
     \<and> cr_namespace r \<in> {[], default_namespace} \<and> list_all (\<lambda>(k, v). is_valid_label_key k) (con_labels (cr_connector r))
     \<and> label_of (cr_connector r) origin_label \<in> insert [] (set origin_values)
     \<and> check_connector_spec U (cr_name r) (con_spec (cr_connector r)) = None"

lemma check_metadata_Inr:
  "check_metadata r = Inr r' \<longleftrightarrow> cr_name r \<noteq> [] \<and> cr_namespace r \<in> {[], default_namespace}
     \<and> list_all (\<lambda>(k, v). is_valid_label_key k) (con_labels (cr_connector r))
     \<and> label_of (cr_connector r) origin_label \<in> insert [] (set origin_values)
     \<and> r' = r\<lparr>cr_namespace := default_namespace\<rparr>"
  by (cases r) (auto simp: check_metadata_def Let_def)

lemma check_and_set_defaults_Inr [outcome]:
  "check_and_set_defaults U r = Inr r' \<longleftrightarrow> acceptable U r \<and> r' = defaulted r"
proof -
  let ?k = "r\<lparr>cr_kind := ''oidc''\<rparr>"
  let ?v = "?k\<lparr>cr_connector := (cr_connector r)\<lparr>con_version := if con_version (cr_connector r) = [] then ''v3'' else con_version (cr_connector r)\<rparr>\<rparr>"
  have l: "label_of (cr_connector ?v) = label_of (cr_connector r)" by (rule label_of_cong) simp
  have "check_and_set_defaults U r = Inr r' \<longleftrightarrow> con_version (cr_connector r) \<in> {[], ''v2'', ''v3''}
      \<and> check_metadata ?v = Inr r' \<and> check_connector_spec U (cr_name r') (con_spec (cr_connector r')) = None"
    unfolding check_and_set_defaults_def case_sum_Inr_iff check_version_Inr by (auto split: option.split_asm)
  also have "\<dots> \<longleftrightarrow> acceptable U r \<and> r' = defaulted r"
    unfolding check_metadata_Inr acceptable_def l by (auto simp: defaulted_def)
  finally show ?thesis .
qed

lemma acceptable_defaulted [simp]: "acceptable U r \<Longrightarrow> acceptable U (defaulted r)"
  using label_of_cong [of "cr_connector (defaulted r)" "cr_connector r"] by (auto simp: acceptable_def)

lemma acceptable_revision [simp]: "acceptable U (r\<lparr>cr_revision := rv\<rparr>) = acceptable U r"
  by (simp add: acceptable_def)

text \<open>The policy looks at labels and spec only, and not at the secret.\<close>

lemma policy_parts_cong:
  assumes "con_labels c = con_labels d" and "redirect_urls (con_spec c) = redirect_urls (con_spec d)"
    and "scope (con_spec c) = scope (con_spec d)" and "claims_to_roles (con_spec c) = claims_to_roles (con_spec d)"
    and "mfa_settings_of (con_spec c) = mfa_settings_of (con_spec d)"
  shows "workspace_domains U c = workspace_domains U d" "redirect_url_of U c = redirect_url_of U d"
    "group_lookup_settings U (Some c) = group_lookup_settings U (Some d)" "is_mfa_enabled c = is_mfa_enabled d"
proof -
  show w: "workspace_domains U c = workspace_domains U d"
    by (simp add: workspace_domains_def label_of_cong [OF assms(1)])
  show "redirect_url_of U c = redirect_url_of U d" by (simp add: redirect_url_of_def assms(2))
  show "group_lookup_settings U (Some c) = group_lookup_settings U (Some d)"
    unfolding group_lookup_settings_def option.case label_of_cong [OF assms(1)] w assms(3,4) ..
  show "is_mfa_enabled c = is_mfa_enabled d" by (simp add: is_mfa_enabled_def assms(5))
qed

lemma policy_cong:
  assumes "con_spec c = con_spec d" and "con_labels c = con_labels d"
  shows "validate_connector U (Some c) = validate_connector U (Some d)"
proof -
  note parts = policy_parts_cong [of c d, OF assms(2)]
  show ?thesis unfolding validate_connector_def option.case Let_def
    by (simp only: parts assms(1) refl)
qed

lemma policy_strip:
  assumes "validate_connector U (Some (cr_connector r)) = None"
  shows "validate_connector U (Some (cr_connector (strip_secrets ws r))) = None"
proof (cases ws)
  case False
  let ?c = "cr_connector r" and ?d = "cr_connector (strip_secrets False r)"
  have s: "con_spec ?d = (con_spec ?c)\<lparr>client_secret := [], google_service_account := []\<rparr>" "con_labels ?d = con_labels ?c"
    by (simp_all add: strip_secrets_def)
  have f: "redirect_urls (con_spec ?d) = redirect_urls (con_spec ?c)" "scope (con_spec ?d) = scope (con_spec ?c)"
    "claims_to_roles (con_spec ?d) = claims_to_roles (con_spec ?c)" "mfa_settings_of (con_spec ?d) = mfa_settings_of (con_spec ?c)"
    "issuer_url (con_spec ?d) = issuer_url (con_spec ?c)" "pkce_mode (con_spec ?d) = pkce_mode (con_spec ?c)"
    "provider (con_spec ?d) = provider (con_spec ?c)" "request_object_mode (con_spec ?d) = request_object_mode (con_spec ?c)"
    "allow_unverified_email (con_spec ?d) = allow_unverified_email (con_spec ?c)" "max_age (con_spec ?d) = max_age (con_spec ?c)"
    "google_service_account_uri (con_spec ?d) = google_service_account_uri (con_spec ?c)"
    "google_admin_email (con_spec ?d) = google_admin_email (con_spec ?c)"
    by (simp_all add: s(1))
  have a: "google_service_account (con_spec ?c) = []" "google_service_account (con_spec ?d) = []"
    using assms by (simp_all add: validate_connector_def Let_def s(1) split: if_split_asm)
  have "validate_connector U (Some ?d) = validate_connector U (Some ?c)"
    unfolding validate_connector_def option.case Let_def policy_parts_cong [OF s(2) f(1-4)] f a ..
  with False assms show ?thesis by simp
qed (use assms in \<open>simp add: strip_secrets_def\<close>)

section \<open>What is written is read\<close>

text \<open>A codec is faithful when a resource that it encodes is decoded again, its version by the header too.\<close>

definition faithful :: "connector_codec \<Rightarrow> bool" where
  "faithful K \<longleftrightarrow> (\<forall>r v. cc_marshal K r = Inr v \<longrightarrow>
     cc_version K v = Inr (con_version (cr_connector r)) \<and> cc_unmarshal K v = Inr r)"

lemma marshal_Inr:
  assumes "marshal_oidc_connector U K r = Inr (r1, v)"
  shows "r1 = defaulted r" "acceptable U r" "cc_marshal K ((defaulted r)\<lparr>cr_revision := []\<rparr>) = Inr v"
  using assms by (auto simp: marshal_oidc_connector_def check_and_set_defaults_Inr split: sum.split_asm)

lemma decode_encoded:
  assumes "faithful K" and "marshal_oidc_connector U K r = Inr (r1, v)"
    and "it_value x = v" and "it_expires x = cr_expires r"
  shows "decode_item U K ws x = Inr (strip_secrets ws ((defaulted r)\<lparr>cr_revision := it_revision x\<rparr>))"
proof -
  note m = marshal_Inr [OF assms(2)]
  have c: "cc_version K v = Inr (con_version (cr_connector (defaulted r)))"
    "cc_unmarshal K v = Inr ((defaulted r)\<lparr>cr_revision := []\<rparr>)"
    using assms(1) m(3) by (auto simp: faithful_def simp del: defaulted_simps)
  have d: "check_and_set_defaults U ((defaulted r)\<lparr>cr_revision := []\<rparr>) = Inr ((defaulted r)\<lparr>cr_revision := []\<rparr>)"
    using m(2) by (simp add: check_and_set_defaults_Inr)
  have "con_version (cr_connector (defaulted r)) \<in> {''v2'', ''v3''}" using m(2) by (auto simp: acceptable_def)
  moreover have "(defaulted r)\<lparr>cr_revision := rv, cr_expires := cr_expires r\<rparr> = (defaulted r)\<lparr>cr_revision := rv\<rparr>" for rv
    by (simp add: defaulted_def)
  ultimately have "unmarshal_oidc_connector U K (it_expires x) (it_revision x) (it_value x) =
      Inr ((defaulted r)\<lparr>cr_revision := it_revision x\<rparr>)"
    using assms(3,4) c d by (auto simp: unmarshal_oidc_connector_def Let_def)
  then show ?thesis by (simp add: decode_item_def)
qed

lemma connector_key_text: "key_s (connector_key name) = ''/web/connectors/oidc/connectors/'' @ name"
  by (simp add: connector_key_def new_key_def)

lemma connector_key_nonzero [simp]: "\<not> key_is_zero (connector_key name)"
  by (simp add: connector_key_def)

lemma connector_key_inj [simp]: "key_s (connector_key n) = key_s (connector_key n') \<longleftrightarrow> n = n'"
  by (simp add: connector_key_text)

lemma with_encoded_cases:
  assumes "with_encoded U K r write m = (q, m')"
  obtains (refused) e where "q = Inl e" "m' = m"
    | (tried) v w where "marshal_oidc_connector U K r = Inr (defaulted r, v)" "write (defaulted r) v m = (w, m')"
      "q = (case w of Inl e \<Rightarrow> Inl e | Inr x \<Rightarrow> Inr ((defaulted r)\<lparr>cr_revision := it_revision x\<rparr>))"
proof (cases "validate_resource (cc_parse_prefix K) r")
  case (Some e)
  with assms refused [of e] show ?thesis by (simp add: with_encoded_def)
next
  case None
  show ?thesis
  proof (cases "marshal_oidc_connector U K r")
    case (Inl e)
    with None assms refused [of e] show ?thesis by (simp add: with_encoded_def)
  next
    case (Inr p)
    obtain r1 v where p: "p = (r1, v)" by fastforce
    obtain w n where w: "write r1 v m = (w, n)" by fastforce
    have "r1 = defaulted r" using marshal_Inr(1) Inr p by blast
    with None Inr p w assms tried [of v w] show ?thesis by (auto simp: with_encoded_def split: sum.split_asm)
  qed
qed

lemma with_policy_cases:
  assumes "with_policy U r event op m = (q, evs, m')"
  obtains (refused) e where "q = Inl e" "evs = []" "m' = m" "validate_connector U (Some (cr_connector r)) = Some e"
    | (tried) "validate_connector U (Some (cr_connector r)) = None" "op m = (q, m')"
      "evs = (if is_err q then [] else [event (cr_name r)])"
  using assms by (auto simp: with_policy_def split: option.split_asm prod.split_asm sum.split_asm)

text \<open>What the keyspace of the connectors holds: connectors under their names, all of which pass the policy.\<close>

definition connector_space :: "string \<Rightarrow> bool" where
  "connector_space s \<longleftrightarrow> starts_with ''/web/connectors/oidc/connectors'' s \<or> s = ''/web/connectors/oidc/connectort''"

definition good_connector :: "golib \<Rightarrow> connector_codec \<Rightarrow> string \<Rightarrow> item \<Rightarrow> bool" where
  "good_connector U K s x \<longleftrightarrow> (connector_space s \<longrightarrow> (\<exists>r. decode_item U K True x = Inr r
     \<and> s = key_s (connector_key (cr_name r)) \<and> validate_connector U (Some (cr_connector r)) = None))"

lemma good_encoded:
  assumes "faithful K" and "marshal_oidc_connector U K r = Inr (defaulted r, v)"
    and "validate_connector U (Some (cr_connector r)) = None"
  shows "good_connector U K (ks (connector_item (defaulted r) v rv)) ((connector_item (defaulted r) v rv)\<lparr>it_revision := rv'\<rparr>)"
proof -
  have "decode_item U K True ((connector_item (defaulted r) v rv)\<lparr>it_revision := rv'\<rparr>) =
      Inr ((defaulted r)\<lparr>cr_revision := rv'\<rparr>)"
    by (subst decode_encoded [OF assms(1,2)]) (simp_all add: connector_item_def strip_secrets_def)
  moreover have "validate_connector U (Some (cr_connector (defaulted r))) = None"
    using assms(3) policy_cong [of "cr_connector (defaulted r)" "cr_connector r" U] by simp
  ultimately show ?thesis by (simp add: good_connector_def connector_item_def)
qed

context crud_backend
begin

text \<open>What the three writing operations have in common, for a write that sets its own key only.\<close>

definition written :: "golib \<Rightarrow> connector_codec \<Rightarrow> connector_resource \<Rightarrow> string \<Rightarrow> (string \<Rightarrow> connector_event) \<Rightarrow> 'a
    \<Rightarrow> connector_resource result \<times> connector_event list \<times> 'a \<Rightarrow> bool" where
  "written U K r rv event m p \<longleftrightarrow> (case p of (q, evs, m') \<Rightarrow>
     inv m' \<and> (holds (good_connector U K) m \<longrightarrow> holds (good_connector U K) m')
     \<and> (\<forall>r1. q = Inr r1 \<longrightarrow> r1 = (defaulted r)\<lparr>cr_revision := rv\<rparr> \<and> evs = [event (cr_name r)] \<and> acceptable U r
       \<and> (\<exists>x. view m' (key_s (connector_key (cr_name r))) = Some x \<and> decode_item U K True x = Inr r1
           \<and> it_expires x = cr_expires r \<and> it_revision x = rv))
     \<and> (is_err q \<longrightarrow> evs = [] \<and> (\<forall>s y. view m' s = Some y \<longrightarrow> view m s = Some y)))"

lemma written_by:
  assumes K: "faithful K" and m: "inv m"
    and ok: "\<And>it x m'. w it m = (Inr x, m') \<Longrightarrow> x = it\<lparr>it_revision := rv\<rparr> \<and> view m' (ks it) = Some x"
    and adds: "\<And>it p m' s y. w it m = (p, m') \<Longrightarrow> view m' s = Some y \<Longrightarrow> is_err p \<or> s \<noteq> ks it \<Longrightarrow> view m s = Some y"
    and keeps_inv: "\<And>it p m'. w it m = (p, m') \<Longrightarrow> inv m'"
  shows "written U K r rv event m (with_policy U r event (with_encoded U K r (\<lambda>r1 v. w (connector_item r1 v (g r1)))) m)"
proof -
  obtain q evs m' where op: "with_policy U r event (with_encoded U K r (\<lambda>r1 v. w (connector_item r1 v (g r1)))) m = (q, evs, m')"
    using prod_cases3 by blast
  show ?thesis
  proof (cases rule: with_policy_cases [OF op, case_names refused tried])
    case (refused e)
    with m op show ?thesis by (simp add: written_def)
  next
    case tried
    show ?thesis
    proof (cases rule: with_encoded_cases [OF tried(2), case_names refused tried_write])
      case (refused e)
      with m op tried show ?thesis by (simp add: written_def)
    next
      case (tried_write v p)
      let ?it = "connector_item (defaulted r) v (g (defaulted r))"
      have h: "holds (good_connector U K) m'" if "holds (good_connector U K) m"
        by (rule write_holds [OF that good_encoded [OF K tried_write(1) tried(1)], where r = p])
           (use ok [of ?it] adds [OF tried_write(2)] tried_write(2) in blast)+
      show ?thesis
      proof (cases p)
        case (Inl e)
        with h op tried_write tried adds [OF tried_write(2)] keeps_inv [OF tried_write(2)]
        show ?thesis by (auto simp: written_def)
      next
        case (Inr x)
        from ok [of ?it x m'] tried_write(2) Inr have x: "x = ?it\<lparr>it_revision := rv\<rparr>" "view m' (ks ?it) = Some x" by auto
        have "decode_item U K True x = Inr ((defaulted r)\<lparr>cr_revision := rv\<rparr>)"
          by (subst decode_encoded [OF K tried_write(1)]) (simp_all add: x(1) connector_item_def strip_secrets_def)
        moreover from x have "view m' (key_s (connector_key (cr_name r))) = Some x" "it_expires x = cr_expires r" "it_revision x = rv"
          by (simp_all add: connector_item_def)
        ultimately show ?thesis using h op tried_write(3) tried(3) Inr keeps_inv [OF tried_write(2)] x(1) marshal_Inr(2) [OF tried_write(1)]
          by (simp add: written_def)
      qed
    qed
  qed
qed

lemma upsert_written:
  "faithful K \<Longrightarrow> inv m \<Longrightarrow> written U K r rv ConnectorCreated m (server_upsert_connector put U K now rv r m)"
  unfolding server_upsert_connector_def upsert_oidc_connector_def
  by (rule written_by) (blast dest: put_ok put_adds_one put_inv)+

lemma create_written:
  "faithful K \<Longrightarrow> inv m \<Longrightarrow> written U K r rv ConnectorCreated m (server_create_connector create U K now rv r m)"
  unfolding server_create_connector_def create_oidc_connector_def
  by (rule written_by) (blast dest: create_ok create_adds_one create_inv)+

lemma update_written:
  "faithful K \<Longrightarrow> inv m \<Longrightarrow> written U K r rv ConnectorUpdated m (server_update_connector update U K now rv r m)"
  unfolding server_update_connector_def update_oidc_connector_def
  by (rule written_by) (blast dest: update_ok update_adds_one update_inv)+

lemma update_needs_revision:
  assumes "inv m" and "server_update_connector update U K now rv r m = (Inr r1, evs, m')"
  shows "cr_revision r \<noteq> [] \<and> (\<exists>old. view m (key_s (connector_key (cr_name r))) = Some old \<and> it_revision old = cr_revision r)"
proof -
  from assms(2) have "update_oidc_connector update U K now rv r m = (Inr r1, m')"
    unfolding server_update_connector_def by (cases rule: with_policy_cases) auto
  then obtain v x where "update now rv (connector_item (defaulted r) v (cr_revision (defaulted r))) m = (Inr x, m')"
    unfolding update_oidc_connector_def by (cases rule: with_encoded_cases) (auto split: sum.split_asm)
  from update_ok [OF assms(1) this] show ?thesis by (simp add: connector_item_def)
qed

lemma delete_connector_holds:
  assumes "inv m" and "server_delete_connector delete now name m = (q, evs, m')"
  shows "inv m'" and "holds Q m \<Longrightarrow> holds Q m'"
    and "q = Inr () \<Longrightarrow> view m' (key_s (connector_key name)) = None \<and> evs = [ConnectorDeleted name]"
    and "is_err q \<Longrightarrow> evs = []"
proof -
  obtain d n where d: "delete now (connector_key name) m = (d, n)" by fastforce
  with assms have "m' = m \<and> is_err q \<or> m' = n"
    and q: "q = Inr () \<Longrightarrow> m' = n \<and> d = Inr () \<and> evs = [ConnectorDeleted name]" "is_err q \<Longrightarrow> evs = []"
    by (auto simp: server_delete_connector_def delete_oidc_connector_def split: if_split_asm sum.split_asm)
  then show "inv m'" and "holds Q m \<Longrightarrow> holds Q m'"
    using assms(1) delete_inv [OF assms(1) d] delete_holds [OF assms(1) _ d] by blast+
  show "q = Inr () \<Longrightarrow> view m' (key_s (connector_key name)) = None \<and> evs = [ConnectorDeleted name]"
    using q(1) delete_gone [OF assms(1)] d by auto
  show "is_err q \<Longrightarrow> evs = []" by (rule q(2))
qed

lemma get_connector_good:
  assumes "inv m" and "holds (good_connector U K) m" and "get_stored_connector get U K now name ws m = (Inr r, m')"
  shows "cr_name r = name \<and> validate_connector U (Some (cr_connector r)) = None"
proof -
  obtain x where x: "get now (connector_key name) m = (Inr x, m')" "decode_item U K ws x = Inr r"
    using assms(3) by (auto simp: get_stored_connector_def split: if_split_asm prod.split_asm sum.split_asm)
  have "connector_space (key_s (connector_key name))" by (simp add: connector_space_def connector_key_text starts_with_iff)
  moreover have "good_connector U K (key_s (connector_key name)) x"
    using assms(2) get_sound [OF assms(1) x(1)] by (simp add: holds_def)
  ultimately obtain r1 where r1: "decode_item U K True x = Inr r1"
    "cr_name r1 = name" "validate_connector U (Some (cr_connector r1)) = None"
    by (auto simp: good_connector_def)
  have "r = strip_secrets ws r1" using x(2) r1(1) by (auto simp: decode_item_def strip_secrets_def split: sum.split_asm)
  with r1(2,3) policy_strip [OF r1(3), of ws] show ?thesis by (auto simp: strip_secrets_def)
qed

end

section \<open>Reachable stores\<close>

text \<open>
  The Auth Service's connector operations over the in-memory backend, which others use at the same time
  outside the range of keys that the connectors occupy.
\<close>

inductive connector_step :: "golib \<Rightarrow> connector_codec \<Rightarrow> memory \<Rightarrow> memory \<Rightarrow> bool" for U K where
  upsert: "server_upsert_connector mem_put U K now rv r m = (q, evs, m') \<Longrightarrow> connector_step U K m m'"
| create: "server_create_connector mem_create U K now rv r m = (q, evs, m') \<Longrightarrow> connector_step U K m m'"
| update: "server_update_connector mem_conditional_update U K now rv r m = (q, evs, m') \<Longrightarrow> connector_step U K m m'"
| delete: "server_delete_connector mem_delete now name m = (d, evs, m') \<Longrightarrow> connector_step U K m m'"
| get: "get_stored_connector mem_get U K now name ws m = (q, m') \<Longrightarrow> connector_step U K m m'"
| other: "mem_run own connector_space t m t' m' \<Longrightarrow> connector_step U K m m'"

lemma get_connector_state:
  assumes "mem_auth m" and "get_stored_connector mem_get U K now name ws m = (q, m')"
  shows "mem_auth m' \<and> (memw.holds Q m \<longrightarrow> memw.holds Q m')"
proof -
  obtain g n where g: "mem_get now (connector_key name) m = (g, n)" by fastforce
  with assms(2) have "m' = m \<or> m' = n"
    by (auto simp: get_stored_connector_def split: if_split_asm sum.split_asm)
  with assms(1) mem.get_inv [OF assms(1) g] memw.get_holds [OF assms(1) _ g] show ?thesis by blast
qed

lemma connector_step_good:
  assumes "faithful K" and "connector_step U K m m'" and "mem_auth m" and "memw.holds (good_connector U K) m"
  shows "mem_auth m' \<and> memw.holds (good_connector U K) m'"
  using assms(2)
proof cases
  case (upsert now rv r q evs)
  with memw.upsert_written [OF assms(1,3), of U r rv now] assms(4) show ?thesis by (simp add: memw.written_def)
next
  case (create now rv r q evs)
  with memw.create_written [OF assms(1,3), of U r rv now] assms(4) show ?thesis by (simp add: memw.written_def)
next
  case (update now rv r q evs)
  with memw.update_written [OF assms(1,3), of U r rv now] assms(4) show ?thesis by (simp add: memw.written_def)
next
  case (delete now name d evs)
  from memw.delete_connector_holds [OF assms(3) this] assms(4) show ?thesis by blast
next
  case (get now name ws q)
  from get_connector_state [OF assms(3) this] assms(4) show ?thesis by blast
next
  case (other own t t')
  have "memw.holds (good_connector U K) m'"
    using assms(4) memr.run_quiet [OF assms(3) other] unfolding memw.holds_def good_connector_def by blast
  with memr.run_inv [OF assms(3) other] show ?thesis by blast
qed

lemma connector_reach_good:
  assumes "faithful K" and "(connector_step U K)\<^sup>*\<^sup>* new_memory m"
  shows "mem_auth m \<and> memw.holds (good_connector U K) m"
  using assms(2)
proof (induction rule: rtranclp_induct)
  case base
  show ?case by (simp add: mem_auth_def mem_inv_new memw.holds_def) (simp add: new_memory_def tree_get_def)
next
  case (step m m')
  with connector_step_good [OF assms(1)] show ?case by blast
qed

section \<open>Properties\<close>

text \<open>
  Property C12: the store holds no connector that the policy rejects. In every state that the connector
  operations of the Auth Service reach, with others using the backend outside the connector keys, a
  connector that \<^verbatim>\<open>GetOIDCConnector\<close> returns, with secrets or without, has the name asked for and passes
  \<^verbatim>\<open>ValidateConnector\<close>; so the check at login only fails for connectors written behind the service's back.
\<close>

theorem stored_connectors_pass_policy:
  assumes "faithful K" and "(connector_step U K)\<^sup>*\<^sup>* new_memory m"
    and "get_stored_connector mem_get U K now name ws m = (Inr r, m')"
  shows "cr_name r = name \<and> validate_connector U (Some (cr_connector r)) = None"
  using connector_reach_good [OF assms(1,2)] memw.get_connector_good [OF _ _ assms(3)] by blast

text \<open>
  Property C23: a connector that was written is read back as the writing operation returned it, with its
  new revision and its defaults filled in, until it expires and whatever others do elsewhere; and the
  write has recorded one audit event with its name.
\<close>

theorem written_connector_read_back:
  assumes "faithful K" and "mem_auth m"
    and "server_upsert_connector mem_put U K t1 rv r m = (Inr r1, evs, m1)
      \<or> server_create_connector mem_create U K t1 rv r m = (Inr r1, evs, m1)
      \<or> server_update_connector mem_conditional_update U K t1 rv r m = (Inr r1, evs, m1)"
    and "mem_run connector_space quiet t1 m1 t2 m2"
    and "case cr_expires r of None \<Rightarrow> True | Some e \<Rightarrow> t2 < e"
  shows "fst (get_stored_connector mem_get U K t2 (cr_name r) True m2) = Inr r1
    \<and> cr_revision r1 = rv \<and> con_spec (cr_connector r1) = con_spec (cr_connector r) \<and> length evs = 1"
proof -
  from assms(3) obtain event where "memw.written U K r rv event m (Inr r1, evs, m1)"
    using memw.upsert_written [OF assms(1,2), of U r rv t1] memw.create_written [OF assms(1,2), of U r rv t1]
      memw.update_written [OF assms(1,2), of U r rv t1] by fastforce
  then obtain x where i: "mem_auth m1" and r1: "r1 = (defaulted r)\<lparr>cr_revision := rv\<rparr>" "length evs = 1" "acceptable U r"
    and x: "mem_get_item m1 (key_s (connector_key (cr_name r))) = Some x" "decode_item U K True x = Inr r1" "it_expires x = cr_expires r"
    by (auto simp: memw.written_def)
  have l: "live t2 x" using x(3) assms(5) by (simp add: live_def split: option.splits)
  have "connector_space (key_s (connector_key (cr_name r)))" by (simp add: connector_space_def connector_key_text starts_with_iff)
  with memr.run_keeps [OF i assms(4) _ x(1) l] have v: "mem_get_item m2 (key_s (connector_key (cr_name r))) = Some x" by blast
  obtain g n where g: "mem_get t2 (connector_key (cr_name r)) m2 = (g, n)" by fastforce
  from mem.get_live [OF memr.run_inv [OF i assms(4)] _ v l g] have "g = Inr x" by simp
  with g x(2) r1 show ?thesis by (simp add: get_stored_connector_def acceptable_def)
qed

text \<open>
  No update is lost. Of two updates that start from the same revision, the second is refused:
  an update succeeds only against the revision it was read at, the store then holds its result under
  a new revision, and a second update made from the old one fails, leaves the stored connector as the
  first update left it, and records no event.
\<close>

theorem stale_update_refused:
  assumes "faithful K" and "mem_auth m" and "rv1 \<noteq> cr_revision r"
    and "server_update_connector mem_conditional_update U K t1 rv1 r m = (Inr r1, evs, m1)"
    and "mem_run connector_space quiet t1 m1 t2 m2" and "case cr_expires r of None \<Rightarrow> True | Some e \<Rightarrow> t2 < e"
    and "cr_name r' = cr_name r" and "cr_revision r' = cr_revision r"
    and "server_update_connector mem_conditional_update U K t2 rv2 r' m2 = (q, evs', m3)"
  shows "is_err q \<and> evs' = [] \<and> (\<exists>old. mem_get_item m (key_s (connector_key (cr_name r))) = Some old \<and> it_revision old = cr_revision r)
    \<and> fst (get_stored_connector mem_get U K t2 (cr_name r) True m2) = Inr r1
    \<and> (\<forall>x. mem_get_item m3 (key_s (connector_key (cr_name r))) = Some x \<longrightarrow> decode_item U K True x = Inr r1)"
proof -
  let ?k = "key_s (connector_key (cr_name r))"
  from memw.update_written [OF assms(1,2), of U r rv1 t1] assms(4) obtain x where i: "mem_auth m1" "acceptable U r"
    and x: "mem_get_item m1 ?k = Some x" "decode_item U K True x = Inr r1" "it_expires x = cr_expires r" "it_revision x = rv1"
    by (auto simp: memw.written_def)
  have l: "live t2 x" using x(3) assms(6) by (simp add: live_def split: option.splits)
  have "connector_space ?k" by (simp add: connector_space_def connector_key_text starts_with_iff)
  with memr.run_keeps [OF i(1) assms(5) _ x(1) l] have v: "mem_get_item m2 ?k = Some x" by blast
  note i2 = memr.run_inv [OF i(1) assms(5)]
  have err: "is_err q"
  proof (rule ccontr)
    assume "\<not> is_err q"
    then obtain r2 where "q = Inr r2" by (cases q) (auto simp: is_err_def)
    with memw.update_needs_revision [OF i2, of U K t2 rv2 r' r2 evs' m3] assms(3,7-9) v x(4) show False by auto
  qed
  then have e: "evs' = []" "\<And>y. mem_get_item m3 ?k = Some y \<Longrightarrow> y = x"
    using memw.update_written [OF assms(1) i2, of U r' rv2 t2] assms(9) v by (auto simp: memw.written_def)
  obtain g n where g: "mem_get t2 (connector_key (cr_name r)) m2 = (g, n)" by fastforce
  from mem.get_live [OF i2 _ v l g] have "g = Inr x" by simp
  with g x(2) i(2) have "fst (get_stored_connector mem_get U K t2 (cr_name r) True m2) = Inr r1"
    by (simp add: get_stored_connector_def acceptable_def)
  with err e x(2) memw.update_needs_revision [OF assms(2,4)] show ?thesis by blast
qed

section \<open>Listing connectors page by page\<close>

lemma connectors_prefix_text: "key_s connectors_prefix = ''/web/connectors/oidc/connectors''"
  by (simp add: connectors_prefix_def new_key_def)

lemma range_end_text: "key_s (range_end connectors_prefix) = ''/web/connectors/oidc/connectort''"
  unfolding range_end_def connectors_prefix_text by code_simp

lemma start_key_text:
  "key_s (ip_start (range_params start stop)) = ''/web/connectors/oidc/connectors/'' @
     (if starts_with ''/'' start then tl start else start)"
proof -
  have app: "key_s (key_append connectors_prefix k) = ''/web/connectors/oidc/connectors/'' @ join_with ''/'' (key_components k)"
    if "key_components k \<noteq> []" for k
    using that by (cases "key_components k")
      (simp_all add: key_append_def Let_def key_is_zero_def connectors_prefix_text, simp_all add: connectors_prefix_def new_key_def)
  show ?thesis
  proof (cases start)
    case (Cons c t)
    obtain w ws where w: "split_on (CHR ''/'') t = w # ws" by (meson neq_Nil_conv split_on_nonempty)
    have "join_with ''/'' (w # ws) = t" using join_split_on [of "CHR ''/''" t] w by simp
    then have "join_with ''/'' ((c # w) # ws) = c # t" by (cases ws) auto
    with \<open>join_with ''/'' (w # ws) = t\<close> Cons w show ?thesis
      by (simp add: range_params_def app key_from_string_def Let_def)
  qed (simp add: range_params_def app key_from_string_def starts_with_def)
qed

lemma in_connector_space:
  assumes "''/web/connectors/oidc/connectors/'' \<le> s" and "s \<le> ''/web/connectors/oidc/connectort''"
  shows "connector_space s"
proof -
  let ?p = "''/web/connectors/oidc/connectors''" and ?e = "''/web/connectors/oidc/connectort''"
  have "increment_last (rev ?p) = Some (rev ?e)" by code_simp
  from increment_last_range [OF this, of s] have "?p \<le> s \<and> s < ?e \<longleftrightarrow> starts_with ?p s" by simp
  moreover have "?p \<le> s" using assms(1) by (rule order_trans [rotated]) simp
  ultimately show ?thesis using assms(2) by (auto simp: connector_space_def le_less)
qed

text \<open>The connectors from a start on, as the backend holds them.\<close>

abbreviation stored_from :: "int \<Rightarrow> memory \<Rightarrow> string \<Rightarrow> item list" where
  "stored_from now m start \<equiv>
     in_range (key_s (ip_start (range_params start []))) ''/web/connectors/oidc/connectort'' (mem_tree (remove_expired now m))"

definition decoded :: "golib \<Rightarrow> connector_codec \<Rightarrow> bool \<Rightarrow> item \<Rightarrow> connector_resource" where
  "decoded U K ws x = the (ok_value (decode_item U K ws x))"

lemma stored_decodes:
  assumes "mem_auth m" and "memw.holds (good_connector U K) m" and "x \<in> set (stored_from now m start)"
  shows "ok_value (decode_item U K ws x) = Some (decoded U K ws x)"
    and "ks x = ''/web/connectors/oidc/connectors/'' @ cr_name (decoded U K ws x)"
proof -
  let ?p = "''/web/connectors/oidc/connectors/''"
  have x: "x \<in> set (mem_tree (remove_expired now m))" "?p \<le> ks x" "ks x \<le> ''/web/connectors/oidc/connectort''"
    using assms(3) order_trans [of ?p "?p @ t" for t] unfolding in_range_def start_key_text by auto
  have "mem_inv (remove_expired now m)" using assms(1) by (simp add: mem_auth_def remove_expired_inv)
  then have "mem_get_item (remove_expired now m) (ks x) = Some x"
    using x(1) by (auto simp: mem_inv_def intro: tree_get_mem)
  then have "mem_get_item m (ks x) = Some x" using assms(1) remove_expired_only by (auto simp: mem_auth_def)
  then obtain r where r: "decode_item U K True x = Inr r" "ks x = key_s (connector_key (cr_name r))"
    using assms(2) in_connector_space [OF x(2,3)] by (auto simp: memw.holds_def good_connector_def)
  then have "decode_item U K ws x = Inr (strip_secrets ws r)"
    by (auto simp: decode_item_def strip_secrets_def split: sum.split_asm)
  with r(2) show "ok_value (decode_item U K ws x) = Some (decoded U K ws x)"
    and "ks x = ?p @ cr_name (decoded U K ws x)"
    by (simp_all add: decoded_def ok_value_def connector_key_text strip_secrets_def)
qed

lemma range_connectors:
  assumes "mem_auth m" and "memw.holds (good_connector U K) m"
    and "length (mem_tree (remove_expired now m)) \<le> default_range_limit"
  shows "range_oidc_connectors (mem_items (\<lambda>_. now) (\<lambda>_. m)) U K start [] ws =
    Inr (map (decoded U K ws) (stored_from now m start))"
proof -
  let ?p = "range_params start []"
  have o: "ordered (mem_tree (remove_expired now m))"
    using assms(1) remove_expired_inv by (auto simp: mem_auth_def mem_inv_def)
  have z: "\<not> key_is_zero (ip_start ?p)" "\<not> key_is_zero (ip_end ?p)"
    using start_key_text [of start "[]"] range_end_text by (auto simp: key_is_zero_def range_params_def)
  have "length (stored_from now m start) \<le> default_range_limit"
    using assms(3) length_filter_le le_trans unfolding in_range_def by blast
  then have "mem_items (\<lambda>_. now) (\<lambda>_. m) ?p = Inr (stored_from now m start)"
    using items_range_query [of "\<lambda>_. now" "\<lambda>_. m", OF refl o z] range_end_text
    by (simp add: range_query_def Let_def) (simp add: range_params_def)
  moreover have "List.map_filter (\<lambda>x. ok_value (decode_item U K ws x)) xs = map (decoded U K ws) xs"
    if "set xs \<subseteq> set (stored_from now m start)" for xs
    using that stored_decodes(1) [OF assms(1,2)] by (induction xs) (auto simp: map_filter_simps)
  ultimately show ?thesis 
    by (simp add: range_oidc_connectors_def stream_filter_map_def stream_take_while_def takeWhile_eq_all_conv)
qed

lemma decode_name: "decode_item U K ws x = Inr r \<Longrightarrow> cr_name r \<noteq> []"
  by (auto simp: decode_item_def unmarshal_oidc_connector_def check_and_set_defaults_Inr acceptable_def Let_def
      strip_secrets_def split: sum.split_asm if_split_asm)

text \<open>
  Listing by pages loses nothing. On a store of at most two million items that nobody changes
  meanwhile, a page of \<^verbatim>\<open>ListOIDCConnectors\<close> is the beginning of what is left, it has at most a thousand
  connectors, and the rest is what the listing from its cursor returns, or nothing when there is no
  cursor; a page with a cursor is not empty. A cursor that begins with a slash is excluded.
\<close>

theorem list_pages_compose:
  assumes "faithful K" and "(connector_step U K)\<^sup>*\<^sup>* new_memory m"
    and "length (mem_tree (remove_expired now m)) \<le> default_range_limit"
    and "items = mem_items (\<lambda>_. now) (\<lambda>_. m)"
    and "list_oidc_connectors items U K limit start ws = Inr (xs, cursor)" and "\<not> starts_with ''/'' cursor"
  shows "\<exists>rest. range_oidc_connectors items U K start [] ws = Inr (xs @ rest)
    \<and> (if cursor = [] then rest = [] else range_oidc_connectors items U K cursor [] ws = Inr rest \<and> xs \<noteq> [])
    \<and> length xs \<le> default_chunk_size"
proof -
  from connector_reach_good [OF assms(1,2)] have i: "mem_auth m" "memw.holds (good_connector U K) m" by auto
  note range = range_connectors [OF i assms(3), folded assms(4)]
  define n where "n = (if limit \<le> 0 \<or> limit > int default_chunk_size then default_chunk_size else nat limit)"
  have n: "0 < n" "n \<le> default_chunk_size" by (auto simp: n_def default_chunk_size_def)
  let ?L = "stored_from now m start"
  from assms(5) have xs: "xs = map (decoded U K ws) (take n ?L)"
    and c: "cursor = (case drop n ?L of [] \<Rightarrow> [] | y # _ \<Rightarrow> cr_name (decoded U K ws y))"
    by (auto simp: list_oidc_connectors_def collect_page_and_cursor_def range n_def take_map drop_map Let_def split: list.splits)
  have all: "range_oidc_connectors items U K start [] ws = Inr (xs @ map (decoded U K ws) (drop n ?L))"
    unfolding range xs map_append [symmetric] append_take_drop_id ..
  have len: "length xs \<le> default_chunk_size" using n(2) by (simp add: xs)
  show ?thesis
  proof (cases "drop n ?L")
    case Nil
    with all c len show ?thesis by auto
  next
    case (Cons y B)
    then have L: "?L = take n ?L @ y # B" by (metis append_take_drop_id)
    then have "y \<in> set ?L" by (metis in_set_conv_decomp)
    from stored_decodes(2) [OF i this, of ws] have k: "ks y = ''/web/connectors/oidc/connectors/'' @ cursor"
      using c Cons by simp
    have ne: "cursor \<noteq> []"
      using decode_name stored_decodes(1) [OF i \<open>y \<in> set ?L\<close>, of ws] c Cons by (auto simp: ok_value_def split: sum.split_asm)
    have o: "ordered (mem_tree (remove_expired now m))"
      using i(1) remove_expired_inv by (auto simp: mem_auth_def mem_inv_def)
    have "key_s (ip_start (range_params cursor [])) = ks y" using assms(6) k by (simp add: start_key_text)
    with in_range_from [OF o L] Cons have "range_oidc_connectors items U K cursor [] ws = Inr (map (decoded U K ws) (drop n ?L))"
      unfolding range by simp
    moreover have "xs \<noteq> []" using n(1) Cons by (auto simp: xs)
    ultimately show ?thesis using all ne len by auto
  qed
qed

text \<open>
  A cursor that begins with a slash loses connectors. \<^verbatim>\<open>KeyFromString\<close> drops the empty component
  before the slash, so the listing from the cursor starts behind the connector that the cursor names:
  the connector is in the full listing and in no page after the one that returned the cursor.
\<close>

theorem slash_cursor_skips:
  assumes "faithful K" and "(connector_step U K)\<^sup>*\<^sup>* new_memory m"
    and "length (mem_tree (remove_expired now m)) \<le> default_range_limit"
    and "CHR ''/'' < c"
    and "range_oidc_connectors (mem_items (\<lambda>_. now) (\<lambda>_. m)) U K (CHR ''/'' # c # name) [] ws = Inr rs"
  shows "CHR ''/'' # c # name \<notin> cr_name ` set rs"
proof
  from connector_reach_good [OF assms(1,2)] have i: "mem_auth m" "memw.holds (good_connector U K) m" by auto
  let ?s = "CHR ''/'' # c # name" and ?p = "''/web/connectors/oidc/connectors/''"
  assume "?s \<in> cr_name ` set rs"
  then obtain x where x: "x \<in> set (stored_from now m ?s)" "cr_name (decoded U K ws x) = ?s"
    using assms(5) unfolding range_connectors [OF i assms(3)] by auto
  from stored_decodes(2) [OF i x(1), of ws] x(2) have "ks x = ?p @ ?s" by simp
  moreover have "?p @ c # name \<le> ks x" using x(1) unfolding in_range_def start_key_text by (simp add: starts_with_def)
  ultimately show False using assms(4) by (auto dest: less_asym)
qed

text \<open>
  Reading a connector without secrets clears the client secret and the service account and
  nothing else: the client secret of the MFA settings is returned as stored, although
  \<^verbatim>\<open>WithoutSecrets\<close> treats it as a secret.
\<close>

theorem mfa_secret_not_stripped:
  assumes "get_stored_connector get U K now name True m = (Inr r, m')"
  shows "\<exists>r'. get_stored_connector get U K now name False m = (Inr r', m')
    \<and> client_secret (con_spec (cr_connector r')) = [] \<and> google_service_account (con_spec (cr_connector r')) = []
    \<and> mfa_settings_of (con_spec (cr_connector r')) = mfa_settings_of (con_spec (cr_connector r))
    \<and> (client_secret (con_spec (cr_connector r)) \<noteq> [] \<longrightarrow>
        mfa_settings_of (con_spec (snd (without_secrets (cr_connector r)))) =
          map_option (\<lambda>f. f\<lparr>mfa_client_secret := []\<rparr>) (mfa_settings_of (con_spec (cr_connector r))))"
  using assms
  by (auto simp: get_stored_connector_def decode_item_def strip_secrets_def without_secrets_def clear_mfa_secret_def
      split: if_split_asm prod.split_asm sum.split_asm)

section \<open>A concrete store\<close>

text \<open>A codec that knows a list of resources and encodes each by its place in the list.\<close>

definition table_codec :: "connector_resource list \<Rightarrow> connector_codec" where
  "table_codec rs =
     \<lparr>cc_marshal = (\<lambda>r. if r \<in> set rs then Inr (replicate (length (takeWhile (\<lambda>q. q \<noteq> r) rs)) CHR ''x'')
        else Inl (Err OtherError ''marshal'')),
      cc_version = (\<lambda>v. if length v < length rs then Inr (con_version (cr_connector (rs ! length v))) else Inl (Err OtherError ''header'')),
      cc_unmarshal = (\<lambda>v. if length v < length rs then Inr (rs ! length v) else Inl (Err OtherError ''body'')),
      cc_parse_prefix = (\<lambda>p. p \<noteq> [])\<rparr>"

lemma takeWhile_finds: "r \<in> set rs \<Longrightarrow> length (takeWhile (\<lambda>q. q \<noteq> r) rs) < length rs \<and> rs ! length (takeWhile (\<lambda>q. q \<noteq> r) rs) = r"
  by (induction rs) auto

lemma faithful_table: "faithful (table_codec rs)"
  using takeWhile_finds [of _ rs] by (simp add: faithful_def table_codec_def)

definition sample_resource :: connector_resource where
  "sample_resource = \<lparr>cr_kind = ''oidc'', cr_namespace = default_namespace, cr_expires = None, cr_revision = [],
     cr_connector = sample_connector\<rparr>"

definition slash_resource :: connector_resource where
  "slash_resource = sample_resource\<lparr>cr_connector := sample_connector\<lparr>con_name := ''/x''\<rparr>\<rparr>"

definition connector_codec_sample :: connector_codec where
  "connector_codec_sample = table_codec [sample_resource, slash_resource]"

lemma sample_acceptable: "acceptable ascii_tables sample_resource" "acceptable ascii_tables slash_resource"
  by code_simp+

lemma sample_defaulted: "defaulted sample_resource = sample_resource" "defaulted slash_resource = slash_resource"
  by (simp_all add: defaulted_def sample_resource_def slash_resource_def sample_connector_def)

lemma sample_policy:
  "validate_connector ascii_tables (Some (cr_connector sample_resource)) = None"
  "validate_connector ascii_tables (Some (cr_connector slash_resource)) = None"
  using sample_valid policy_cong [of "sample_connector\<lparr>con_name := ''/x''\<rparr>" sample_connector ascii_tables]
  by (simp_all add: sample_resource_def slash_resource_def)

lemma sample_marshal:
  "marshal_oidc_connector ascii_tables connector_codec_sample (sample_resource\<lparr>cr_revision := rv\<rparr>) = Inr (sample_resource\<lparr>cr_revision := rv\<rparr>, [])"
  "marshal_oidc_connector ascii_tables connector_codec_sample (slash_resource\<lparr>cr_revision := rv\<rparr>) = Inr (slash_resource\<lparr>cr_revision := rv\<rparr>, ''x'')"
proof -
  have c: "check_and_set_defaults ascii_tables (sample_resource\<lparr>cr_revision := rv\<rparr>) = Inr (sample_resource\<lparr>cr_revision := rv\<rparr>)"
    "check_and_set_defaults ascii_tables (slash_resource\<lparr>cr_revision := rv\<rparr>) = Inr (slash_resource\<lparr>cr_revision := rv\<rparr>)"
    by (simp_all add: check_and_set_defaults_Inr sample_acceptable sample_defaulted)
  have r: "sample_resource\<lparr>cr_revision := rv, cr_revision := []\<rparr> = sample_resource"
    "slash_resource\<lparr>cr_revision := rv, cr_revision := []\<rparr> = slash_resource" "sample_resource \<noteq> slash_resource"
    by (simp_all add: sample_resource_def slash_resource_def sample_connector_def)
  show "marshal_oidc_connector ascii_tables connector_codec_sample (sample_resource\<lparr>cr_revision := rv\<rparr>) = Inr (sample_resource\<lparr>cr_revision := rv\<rparr>, [])"
    unfolding marshal_oidc_connector_def c sum.case r by (simp add: connector_codec_sample_def table_codec_def)
  show "marshal_oidc_connector ascii_tables connector_codec_sample (slash_resource\<lparr>cr_revision := rv\<rparr>) = Inr (slash_resource\<lparr>cr_revision := rv\<rparr>, ''x'')"
    unfolding marshal_oidc_connector_def c sum.case r using r(3) by (simp add: connector_codec_sample_def table_codec_def)
qed

lemma sample_resource_valid:
  "validate_resource (cc_parse_prefix connector_codec_sample) (sample_resource\<lparr>cr_revision := rv\<rparr>) = None"
  "validate_resource (cc_parse_prefix connector_codec_sample) (slash_resource\<lparr>cr_revision := rv\<rparr>) = None"
  by (simp_all add: validate_resource_def sample_resource_def slash_resource_def sample_connector_def sample_spec_def
      max_auth_connector_name_length_def)

definition stored_item :: "connector_resource \<Rightarrow> string \<Rightarrow> string \<Rightarrow> item" where
  "stored_item r v rv = (connector_item r v [])\<lparr>it_revision := rv\<rparr>"

definition slash_store :: memory where
  "slash_store = store (stored_item slash_resource ''x'' ''r0'') new_memory"

definition sample_store :: memory where
  "sample_store = store (stored_item sample_resource [] ''r1'') slash_store"

lemma sample_trees:
  "mem_tree slash_store = [stored_item slash_resource ''x'' ''r0'']" "mem_heap slash_store = []" "\<not> mem_mirror slash_store"
  "mem_tree sample_store = [stored_item slash_resource ''x'' ''r0'', stored_item sample_resource [] ''r1'']"
  "mem_heap sample_store = []" "\<not> mem_mirror sample_store"
  by (simp_all add: slash_store_def sample_store_def store_def process_put_def new_memory_def stored_item_def connector_item_def
      connector_key_text slash_resource_def sample_resource_def sample_connector_def less_char_def tree_get_def)

lemma unexpired [simp]: "mem_heap m = [] \<Longrightarrow> remove_expired now m = m"
  by (simp add: remove_expired_def expire_loop.simps)

lemma create_sample:
  assumes "r \<in> {sample_resource, slash_resource}" and "mem_heap m = []"
    and "mem_get_item m (key_s (connector_key (cr_name r))) = None"
    and "marshal_oidc_connector ascii_tables connector_codec_sample r = Inr (r, v)"
  shows "server_create_connector mem_create ascii_tables connector_codec_sample now rv r m =
    (Inr (r\<lparr>cr_revision := rv\<rparr>), [ConnectorCreated (cr_name r)], store (stored_item r v rv) m)"
proof -
  have "r\<lparr>cr_revision := []\<rparr> = r" using assms(1) by (auto simp: sample_resource_def slash_resource_def)
  then have "validate_resource (cc_parse_prefix connector_codec_sample) r = None" "validate_connector ascii_tables (Some (cr_connector r)) = None"
    using assms(1) sample_resource_valid [of "[]"] sample_policy by auto
  with assms(2-4) show ?thesis
    by (simp add: server_create_connector_def with_policy_def create_oidc_connector_def with_encoded_def mem_create_def
        connector_item_def stored_item_def Let_def)
qed

lemma sample_reachable:
  "server_create_connector mem_create ascii_tables connector_codec_sample 0 ''r1'' sample_resource slash_store =
     (Inr (sample_resource\<lparr>cr_revision := ''r1''\<rparr>), [ConnectorCreated ''google''], sample_store)"
  "(connector_step ascii_tables connector_codec_sample)\<^sup>*\<^sup>* new_memory slash_store"
  "(connector_step ascii_tables connector_codec_sample)\<^sup>*\<^sup>* new_memory sample_store"
proof -
  have s: "slash_resource\<lparr>cr_revision := []\<rparr> = slash_resource" "sample_resource\<lparr>cr_revision := []\<rparr> = sample_resource"
    by (simp_all add: slash_resource_def sample_resource_def)
  have "server_create_connector mem_create ascii_tables connector_codec_sample 0 ''r0'' slash_resource new_memory =
      (Inr (slash_resource\<lparr>cr_revision := ''r0''\<rparr>), [ConnectorCreated (cr_name slash_resource)], slash_store)"
    unfolding slash_store_def
    by (rule create_sample) (use sample_marshal(2) [of "[]"] s in \<open>simp_all add: new_memory_def tree_get_def\<close>)
  from connector_step.create [OF this] show first: "(connector_step ascii_tables connector_codec_sample)\<^sup>*\<^sup>* new_memory slash_store" by blast
  have "server_create_connector mem_create ascii_tables connector_codec_sample 0 ''r1'' sample_resource slash_store =
      (Inr (sample_resource\<lparr>cr_revision := ''r1''\<rparr>), [ConnectorCreated (cr_name sample_resource)], sample_store)"
    unfolding sample_store_def
    by (rule create_sample) (use sample_marshal(1) [of "[]"] s sample_trees in \<open>simp_all add: tree_get_def\<close>,
      simp add: stored_item_def connector_item_def connector_key_text slash_resource_def sample_resource_def sample_connector_def)
  then show created: "server_create_connector mem_create ascii_tables connector_codec_sample 0 ''r1'' sample_resource slash_store =
     (Inr (sample_resource\<lparr>cr_revision := ''r1''\<rparr>), [ConnectorCreated ''google''], sample_store)"
    by (simp add: sample_resource_def sample_connector_def)
  from first connector_step.create [OF created] show "(connector_step ascii_tables connector_codec_sample)\<^sup>*\<^sup>* new_memory sample_store"
    by (rule rtranclp.rtrancl_into_rtrancl)
qed

lemma sample_codec_faithful: "faithful connector_codec_sample"
  unfolding connector_codec_sample_def by (rule faithful_table)

lemma sample_auth: "mem_auth slash_store" "mem_auth sample_store"
  using connector_reach_good [OF sample_codec_faithful] sample_reachable by auto

text \<open>After the creation, the stored connector is read and updated.\<close>

lemma sample_decode:
  "decode_item ascii_tables connector_codec_sample True (stored_item sample_resource [] ''r1'') = Inr (sample_resource\<lparr>cr_revision := ''r1''\<rparr>)"
  "decode_item ascii_tables connector_codec_sample True (stored_item slash_resource ''x'' ''r0'') = Inr (slash_resource\<lparr>cr_revision := ''r0''\<rparr>)"
proof -
  have r: "sample_resource\<lparr>cr_revision := []\<rparr> = sample_resource" "slash_resource\<lparr>cr_revision := []\<rparr> = slash_resource"
    by (simp_all add: sample_resource_def slash_resource_def)
  show "decode_item ascii_tables connector_codec_sample True (stored_item sample_resource [] ''r1'') = Inr (sample_resource\<lparr>cr_revision := ''r1''\<rparr>)"
    by (subst decode_encoded [OF sample_codec_faithful sample_marshal(1) [of "[]", unfolded r]])
       (simp_all add: stored_item_def connector_item_def strip_secrets_def sample_defaulted)
  show "decode_item ascii_tables connector_codec_sample True (stored_item slash_resource ''x'' ''r0'') = Inr (slash_resource\<lparr>cr_revision := ''r0''\<rparr>)"
    by (subst decode_encoded [OF sample_codec_faithful sample_marshal(2) [of "[]", unfolded r]])
       (simp_all add: stored_item_def connector_item_def strip_secrets_def sample_defaulted)
qed

lemma sample_found_stored: "mem_get_item sample_store (key_s (connector_key ''google'')) = Some (stored_item sample_resource [] ''r1'')"
  by (simp add: sample_trees) (simp add: tree_get_def stored_item_def connector_item_def connector_key_text
      slash_resource_def sample_resource_def sample_connector_def)

lemma sample_read_back:
  "fst (get_stored_connector mem_get ascii_tables connector_codec_sample 5 ''google'' True sample_store) =
     Inr (sample_resource\<lparr>cr_revision := ''r1''\<rparr>)"
  using sample_decode(1) sample_found_stored by (simp add: get_stored_connector_def mem_get_def sample_trees(5))

lemma stored_connectors_pass_policy_witness:
  "\<exists>r m'. get_stored_connector mem_get ascii_tables connector_codec_sample 5 ''google'' True sample_store = (Inr r, m')
     \<and> cr_name r = ''google'' \<and> validate_connector ascii_tables (Some (cr_connector r)) = None"
  using stored_connectors_pass_policy [OF sample_codec_faithful sample_reachable(3)] sample_read_back by (metis prod.collapse)

lemma written_connector_read_back_witness:
  "fst (get_stored_connector mem_get ascii_tables connector_codec_sample 5 (cr_name sample_resource) True sample_store) =
     Inr (sample_resource\<lparr>cr_revision := ''r1''\<rparr>)"
proof -
  have "mem_run connector_space (\<lambda>_. True) 0 sample_store 5 sample_store" by (rule mem_run.wait) simp
  moreover have "case cr_expires sample_resource of None \<Rightarrow> True | Some e \<Rightarrow> 5 < e" by (simp add: sample_resource_def)
  ultimately show ?thesis
    using written_connector_read_back [OF sample_codec_faithful sample_auth(1) disjI2 [OF disjI1 [OF sample_reachable(1)]]] by blast
qed

lemma sample_updated:
  "\<exists>evs m1. server_update_connector mem_conditional_update ascii_tables connector_codec_sample 1 ''r2''
     (sample_resource\<lparr>cr_revision := ''r1''\<rparr>) sample_store = (Inr (sample_resource\<lparr>cr_revision := ''r2''\<rparr>), evs, m1)"
proof -
  have n: "cr_name sample_resource = ''google''" by (simp add: sample_resource_def sample_connector_def)
  have "it_revision (stored_item sample_resource [] ''r1'') = ''r1''" by (simp add: stored_item_def)
  with sample_found_stored show ?thesis
    using sample_marshal(1) [of "''r1''"] sample_resource_valid(1) [of "''r1''"] sample_policy(1) n
    by (simp add: server_update_connector_def with_policy_def update_oidc_connector_def with_encoded_def
        mem_conditional_update_def connector_item_def sample_trees(5,6) next_revision_def Let_def)
qed

lemma stale_update_refused_witness:
  "\<exists>m1 q evs m3. mem_auth m1
     \<and> server_update_connector mem_conditional_update ascii_tables connector_codec_sample 2 ''r3''
         (sample_resource\<lparr>cr_revision := ''r1''\<rparr>) m1 = (q, evs, m3)
     \<and> is_err q \<and> evs = []
     \<and> fst (get_stored_connector mem_get ascii_tables connector_codec_sample 2 (cr_name (sample_resource\<lparr>cr_revision := ''r1''\<rparr>)) True m1) =
         Inr (sample_resource\<lparr>cr_revision := ''r2''\<rparr>)"
proof -
  let ?r = "sample_resource\<lparr>cr_revision := ''r1''\<rparr>"
  obtain evs m1 where u: "server_update_connector mem_conditional_update ascii_tables connector_codec_sample 1 ''r2'' ?r sample_store =
      (Inr (sample_resource\<lparr>cr_revision := ''r2''\<rparr>), evs, m1)" using sample_updated by blast
  obtain q evs' m3 where q: "server_update_connector mem_conditional_update ascii_tables connector_codec_sample 2 ''r3'' ?r m1 = (q, evs', m3)"
    using prod_cases3 by blast
  have w: "mem_run connector_space (\<lambda>_. False) 1 m1 2 m1" by (rule mem_run.wait) simp
  have e: "case cr_expires ?r of None \<Rightarrow> True | Some e \<Rightarrow> 2 < e" and d: "''r2'' \<noteq> cr_revision ?r"
    by (simp_all add: sample_resource_def)
  have "mem_auth m1" using memw.update_written [OF sample_codec_faithful sample_auth(2), of ascii_tables ?r "''r2''" 1] u
    by (simp add: memw.written_def)
  with stale_update_refused [OF sample_codec_faithful sample_auth(2) d u w e refl refl q] q show ?thesis by blast
qed

lemma sample_listing:
  "stored_from 0 sample_store [] = [stored_item slash_resource ''x'' ''r0'', stored_item sample_resource [] ''r1'']"
  "length (mem_tree (remove_expired 0 sample_store)) \<le> default_range_limit"
  by (simp_all add: sample_trees default_range_limit_def)
     (simp add: in_range_def start_key_text starts_with_def stored_item_def connector_item_def connector_key_text slash_resource_def
       sample_resource_def sample_connector_def less_char_def)

lemma sample_names:
  "cr_name (decoded ascii_tables connector_codec_sample True (stored_item slash_resource ''x'' ''r0'')) = ''/x''"
  "cr_name (decoded ascii_tables connector_codec_sample True (stored_item sample_resource [] ''r1'')) = ''google''"
  by (simp_all add: decoded_def ok_value_def sample_decode) (simp_all add: slash_resource_def sample_resource_def sample_connector_def)

abbreviation sample_range :: "string \<Rightarrow> connector_resource list result" where
  "sample_range start \<equiv> range_oidc_connectors (mem_items (\<lambda>_. 0) (\<lambda>_. sample_store)) ascii_tables connector_codec_sample start [] True"

lemma sample_good: "memw.holds (good_connector ascii_tables connector_codec_sample) sample_store"
  using connector_reach_good [OF sample_codec_faithful sample_reachable(3)] by blast

lemma sample_range_all:
  "sample_range [] = Inr (map (decoded ascii_tables connector_codec_sample True)
     [stored_item slash_resource ''x'' ''r0'', stored_item sample_resource [] ''r1''])"
  unfolding range_connectors [OF sample_auth(2) sample_good sample_listing(2)] sample_listing(1) ..

lemma list_pages_compose_witness:
  "\<exists>xs rest. list_oidc_connectors (mem_items (\<lambda>_. 0) (\<lambda>_. sample_store)) ascii_tables connector_codec_sample 1 [] True = Inr (xs, ''google'')
     \<and> sample_range [] = Inr (xs @ rest) \<and> sample_range ''google'' = Inr rest \<and> map cr_name xs = [''/x'']"
proof -
  let ?xs = "[decoded ascii_tables connector_codec_sample True (stored_item slash_resource ''x'' ''r0'')]"
  have p: "list_oidc_connectors (mem_items (\<lambda>_. 0) (\<lambda>_. sample_store)) ascii_tables connector_codec_sample 1 [] True = Inr (?xs, ''google'')"
    by (simp add: list_oidc_connectors_def collect_page_and_cursor_def sample_range_all sample_names default_chunk_size_def)
  from list_pages_compose [OF sample_codec_faithful sample_reachable(3) sample_listing(2) refl p] p sample_names(1)
  show ?thesis by (auto simp: starts_with_def)
qed

lemma slash_cursor_skips_witness:
  "\<exists>rs all. sample_range ''/x'' = Inr rs \<and> ''/x'' \<notin> cr_name ` set rs \<and> sample_range [] = Inr all \<and> ''/x'' \<in> cr_name ` set all"
proof -
  obtain rs where rs: "sample_range ''/x'' = Inr rs"
    using range_connectors [OF sample_auth(2) sample_good sample_listing(2)] by blast
  have "CHR ''/'' < CHR ''x''" by (simp add: less_char_def)
  from slash_cursor_skips [OF sample_codec_faithful sample_reachable(3) sample_listing(2) this rs] rs
  show ?thesis by (simp add: sample_range_all sample_names)
qed

definition mfa_resource :: connector_resource where
  "mfa_resource = sample_resource\<lparr>cr_connector := sample_connector\<lparr>con_spec := sample_spec\<lparr>mfa_settings_of :=
     Some \<lparr>mfa_enabled = False, mfa_client_id = ''m'', mfa_client_secret = ''hidden'', mfa_acr_values = [], mfa_prompt = [],
       mfa_max_age = 0, mfa_request_object_mode = []\<rparr>\<rparr>\<rparr>\<rparr>"

lemma mfa_decode:
  "decode_item ascii_tables (table_codec [mfa_resource]) True (stored_item mfa_resource [] ''r1'') = Inr (mfa_resource\<lparr>cr_revision := ''r1''\<rparr>)"
proof -
  have a: "acceptable ascii_tables mfa_resource" by code_simp
  have d: "defaulted mfa_resource = mfa_resource" "mfa_resource\<lparr>cr_revision := []\<rparr> = mfa_resource"
    by (simp_all add: defaulted_def mfa_resource_def sample_resource_def sample_connector_def)
  then have "check_and_set_defaults ascii_tables mfa_resource = Inr mfa_resource" using a by (simp add: check_and_set_defaults_Inr)
  with d(2) have "marshal_oidc_connector ascii_tables (table_codec [mfa_resource]) mfa_resource = Inr (mfa_resource, [])"
    by (simp add: marshal_oidc_connector_def table_codec_def)
  from decode_encoded [OF faithful_table this, of "stored_item mfa_resource [] ''r1''" True] d(1) show ?thesis
    by (simp add: stored_item_def connector_item_def strip_secrets_def)
qed

lemma mfa_secret_not_stripped_witness:
  "\<exists>r'. get_stored_connector (\<lambda>_ _ m. (Inr (stored_item mfa_resource [] ''r1''), m)) ascii_tables (table_codec [mfa_resource]) 0 ''google'' False ()
       = (Inr r', ())
     \<and> client_secret (con_spec (cr_connector r')) = []
     \<and> map_option mfa_client_secret (mfa_settings_of (con_spec (cr_connector r'))) = Some ''hidden''"
proof -
  have "get_stored_connector (\<lambda>_ _ m. (Inr (stored_item mfa_resource [] ''r1''), m)) ascii_tables (table_codec [mfa_resource]) 0 ''google'' True ()
      = (Inr (mfa_resource\<lparr>cr_revision := ''r1''\<rparr>), ())"
    by (simp add: get_stored_connector_def mfa_decode)
  from mfa_secret_not_stripped [OF this] show ?thesis by (auto simp: mfa_resource_def)
qed

end
