(* ===== verification/GroupLookup.thy ===== *)
theory GroupLookup
  imports Policy
begin

text \<open>
  The Cloud Identity group lookup, \<^verbatim>\<open>lib/googleoidc/groups.go\<close>: the byte budget, the round tripper that
  pins one method, the search over pages, the gates on what Google returns, the classification of
  failures, and the CEL literal of the query.

  The network is an argument \<open>net\<close>: the answer to the n-th request of a lookup. The generated client
  \<^verbatim>\<open>google.golang.org/api/cloudidentity/v1\<close> is an argument \<open>gapi\<close>: the HTTP request it builds for a call and
  how it decodes a response. The state of a lookup also records the requests that reached the
  network and the bytes read from it, which the code does not keep: they are what its bounds are about.
\<close>

section \<open>Errors and requests\<close>

datatype lookup_error =
    CiRequest | CiRedirect | CiBody | CiBudget | CiPageLimit | CiRelationLimit
  | DeadlineExceeded | Canceled
  | ApiError int "string list" "string option list"
  | JsonError | UnexpectedEOF | OtherLookupError

record http_request =
  rq_method :: string
  rq_url :: "url option"
  rq_host :: string

text \<open>A response: its body is what the stream delivers, \<open>None\<close> when there is none; the stream may
  fail after some bytes, and so may closing it.\<close>

record http_response =
  rs_status :: int
  rs_location :: string
  rs_body :: "string option"
  rs_fails_after :: "nat option"
  rs_close_fails :: bool

type_synonym network = "nat \<Rightarrow> http_request \<Rightarrow> lookup_error + http_response option"

definition cloud_identity_host :: string where "cloud_identity_host = ''cloudidentity.googleapis.com''"
definition direct_groups_path :: string where
  "direct_groups_path = ''/v1/groups/-/memberships:searchDirectGroups''"
definition discussion_forum_label :: string where
  "discussion_forum_label = ''cloudidentity.googleapis.com/groups.discussion_forum''"

definition group_lookup_page_size :: nat where "group_lookup_page_size = 1000"
definition group_lookup_max_pages :: nat where "group_lookup_max_pages = 10"
definition group_lookup_max_relations :: nat where "group_lookup_max_relations = 10000"
definition group_lookup_max_bytes :: nat where "group_lookup_max_bytes = 4194304"

section \<open>The byte budget and the pinned round tripper\<close>

definition consume :: "nat \<Rightarrow> nat \<Rightarrow> bool \<times> nat" where
  "consume remaining n = (if n > remaining then (False, 0) else (True, remaining - n))"

record lookup_state =
  ls_budget :: nat
  ls_sent :: "http_request list"
  ls_read :: nat

definition pinned_request :: "string \<Rightarrow> http_request \<Rightarrow> bool" where
  "pinned_request path req \<longleftrightarrow>
     (case rq_url req of None \<Rightarrow> False
      | Some u \<Rightarrow> rq_method req = ''GET'' \<and> url_scheme u = ''https'' \<and> url_host u = cloud_identity_host
          \<and> escaped_path u = path \<and> \<not> url_user u \<and> url_opaque u = []
          \<and> (rq_host req = [] \<or> rq_host req = cloud_identity_host))"

text \<open>\<^verbatim>\<open>io.ReadAll(io.LimitReader(body, limit))\<close>.\<close>

definition read_limited :: "http_response \<Rightarrow> nat \<Rightarrow> string option" where
  "read_limited r limit =
     (let body = (case rs_body r of None \<Rightarrow> [] | Some b \<Rightarrow> b) in
      case rs_fails_after r of
        None \<Rightarrow> Some (take limit body)
      | Some n \<Rightarrow> if n < limit then None else Some (take limit body))"

definition read_count :: "http_response \<Rightarrow> nat \<Rightarrow> nat" where
  "read_count r limit =
     (let body = (case rs_body r of None \<Rightarrow> [] | Some b \<Rightarrow> b) in
      case rs_fails_after r of None \<Rightarrow> min limit (length body) | Some n \<Rightarrow> min limit (min n (length body)))"

definition ci_round_trip ::
  "network \<Rightarrow> string \<Rightarrow> http_request \<Rightarrow> lookup_state \<Rightarrow> (lookup_error + http_response) \<times> lookup_state" where
  "ci_round_trip net path req s =
     (if \<not> pinned_request path req then (Inl CiRequest, s)
      else let s1 = s\<lparr>ls_sent := ls_sent s @ [req]\<rparr> in
        case net (length (ls_sent s)) req of
          Inl e \<Rightarrow> (Inl e, s1)
        | Inr None \<Rightarrow> (Inl CiBody, s1)
        | Inr (Some r) \<Rightarrow>
            if rs_body r = None then (Inl CiBody, s1)
            else let allowed = ls_budget s1;
                     s2 = s1\<lparr>ls_read := ls_read s1 + read_count r (allowed + 1)\<rparr> in
              case read_limited r (allowed + 1) of
                None \<Rightarrow> (Inl CiBody, s2)
              | Some body \<Rightarrow>
                  if rs_close_fails r then (Inl CiBody, s2)
                  else let (ok, left) = consume allowed (length body); s3 = s2\<lparr>ls_budget := left\<rparr> in
                    if \<not> ok then (Inl CiBudget, s3) else (Inr (r\<lparr>rs_body := Some body\<rparr>), s3))"

section \<open>The search over pages\<close>

record search_call =
  sc_query :: string
  sc_page_size :: nat
  sc_page_token :: string
  sc_fields :: "string list"

record membership =
  mb_id :: string
  mb_namespace :: string
  mb_labels :: "(string \<times> string) list"

text \<open>A decoded page; \<open>None\<close> in the list is a nil relation or one without \<^verbatim>\<open>groupKey\<close>.\<close>

record search_response =
  sr_memberships :: "membership option list"
  sr_next_page_token :: string

record gapi =
  gapi_request :: "search_call \<Rightarrow> http_request"
  gapi_decode :: "http_response \<Rightarrow> lookup_error + search_response option"

record group_relation =
  gr_id :: string
  gr_namespace :: string
  gr_discussion_forum :: bool

definition has_discussion_forum_label :: "(string \<times> string) list \<Rightarrow> bool" where
  "has_discussion_forum_label labels \<longleftrightarrow> discussion_forum_label \<in> fst ` set labels"

definition redirects :: "http_response \<Rightarrow> bool" where
  "redirects r \<longleftrightarrow> rs_status r \<in> {301, 302, 303, 307, 308} \<and> rs_location r \<noteq> []"

definition do_call ::
  "gapi \<Rightarrow> network \<Rightarrow> search_call \<Rightarrow> lookup_state \<Rightarrow> (lookup_error + search_response option) \<times> lookup_state" where
  "do_call G net call s =
     (case ci_round_trip net direct_groups_path (gapi_request G call) s of
        (Inl e, s') \<Rightarrow> (Inl e, s')
      | (Inr r, s') \<Rightarrow> if redirects r then (Inl CiRedirect, s') else (gapi_decode G r, s'))"

definition relation_of :: "membership \<Rightarrow> group_relation" where
  "relation_of m = \<lparr>gr_id = mb_id m, gr_namespace = mb_namespace m,
     gr_discussion_forum = has_discussion_forum_label (mb_labels m)\<rparr>"

definition cel_rune :: "nat \<Rightarrow> string" where
  "cel_rune r =
     (if r = 92 then [CHR 0x5C, CHR 0x5C]
      else if r = 39 then [CHR 0x5C, CHR 0x27]
      else if r = 13 then [CHR 0x5C, CHR ''r'']
      else if r = 10 then [CHR 0x5C, CHR ''n'']
      else if r = 9 then [CHR 0x5C, CHR ''t'']
      else encode_rune r)"

definition cel_string :: "string \<Rightarrow> string" where
  "cel_string v = [CHR 0x27] @ concat (map cel_rune (runes v)) @ [CHR 0x27]"

definition search_query :: "string \<Rightarrow> string" where
  "search_query email = ''member_key_id == '' @ cel_string email"

definition search_fields :: "string list" where
  "search_fields = [''nextPageToken'', ''memberships/groupKey/id'', ''memberships/groupKey/namespace'',
     ''memberships/labels'']"

fun search_pages ::
  "gapi \<Rightarrow> network \<Rightarrow> string \<Rightarrow> nat \<Rightarrow> string \<Rightarrow> group_relation list \<Rightarrow> lookup_state \<Rightarrow>
     (lookup_error + group_relation list) \<times> lookup_state" where
  "search_pages G net query 0 token relations s = (Inl CiPageLimit, s)"
| "search_pages G net query (Suc n) token relations s =
     (case do_call G net \<lparr>sc_query = query, sc_page_size = group_lookup_page_size, sc_page_token = token,
                          sc_fields = search_fields\<rparr> s of
        (Inl e, s') \<Rightarrow> (Inl e, s')
      | (Inr None, s') \<Rightarrow> (Inl CiBody, s')
      | (Inr (Some page), s') \<Rightarrow>
          if list_ex (\<lambda>m. m = None) (sr_memberships page) then (Inl CiBody, s')
          else let relations' = relations @ map (\<lambda>m. relation_of (the m)) (sr_memberships page) in
            if length relations' > group_lookup_max_relations then (Inl CiRelationLimit, s')
            else if sr_next_page_token page = [] then (Inr relations', s')
            else if n = 0 then (Inl CiPageLimit, s')
            else search_pages G net query n (sr_next_page_token page) relations' s')"

definition search_groups ::
  "gapi \<Rightarrow> network \<Rightarrow> string \<Rightarrow> lookup_state \<Rightarrow> (lookup_error + group_relation list) \<times> lookup_state" where
  "search_groups G net email s = search_pages G net (search_query email) group_lookup_max_pages [] [] s"

section \<open>The gates\<close>

definition is_atext :: "nat \<Rightarrow> bool" where
  "is_atext r \<longleftrightarrow> is_alnum r \<or> r \<in> set (map byte (''!#$%&'' @ [CHR 0x27] @ ''*+-/=?^_`{|}~''))"

definition valid_address_local_part :: "string \<Rightarrow> bool" where
  "valid_address_local_part l \<longleftrightarrow> l \<noteq> [] \<and> length l \<le> 64
     \<and> \<not> (starts_with ''.'' l \<or> ends_with ''.'' l \<or> contains_sub ''..'' l)
     \<and> list_all (\<lambda>r. r = 46 \<or> is_atext r) (runes l)"

definition valid_label :: "string \<Rightarrow> bool" where
  "valid_label l \<longleftrightarrow> l \<noteq> [] \<and> length l \<le> 63 \<and> \<not> starts_with ''-'' l \<and> \<not> ends_with ''-'' l
     \<and> list_all (\<lambda>r. is_alnum r \<or> r = 45) (runes l)"

definition valid_address_domain :: "string \<Rightarrow> bool" where
  "valid_address_domain d \<longleftrightarrow> d \<noteq> [] \<and> length d \<le> 253 \<and> 2 \<le> length (split_on (CHR ''.'') d)
     \<and> list_all valid_label (split_on (CHR ''.'') d)"

definition valid_group_address :: "string \<Rightarrow> bool" where
  "valid_group_address gid \<longleftrightarrow> gid \<noteq> [] \<and> length gid \<le> 320 \<and> count_list gid (CHR ''@'') = 1
     \<and> (let (l, d, _) = cut (CHR ''@'') gid in valid_address_local_part l \<and> valid_address_domain d)"

record rejections =
  rj_namespace :: nat
  rj_label :: nat
  rj_syntax :: nat
  rj_domain :: nat

definition rejections_total :: "rejections \<Rightarrow> nat" where
  "rejections_total r = rj_namespace r + rj_label r + rj_syntax r + rj_domain r"

definition no_rejections :: rejections where
  "no_rejections = \<lparr>rj_namespace = 0, rj_label = 0, rj_syntax = 0, rj_domain = 0\<rparr>"

datatype group_outcome = NoOutcome | OutcomeSucceeded | NoGroupsVisible | OutcomeFiltered | NamespaceRejected

definition group_domain :: "golib \<Rightarrow> string \<Rightarrow> string" where
  "group_domain U gid = fst (snd (cut (CHR ''@'') (to_lower U gid)))"

fun gate_loop :: "golib \<Rightarrow> string list \<Rightarrow> group_relation list \<Rightarrow> string list \<Rightarrow> rejections \<Rightarrow> string list \<times> rejections" where
  "gate_loop U domains [] groups rj = (groups, rj)"
| "gate_loop U domains (r # rs) groups rj =
     (if gr_namespace r \<noteq> [] then gate_loop U domains rs groups (rj\<lparr>rj_namespace := rj_namespace rj + 1\<rparr>)
      else if \<not> gr_discussion_forum r then gate_loop U domains rs groups (rj\<lparr>rj_label := rj_label rj + 1\<rparr>)
      else if \<not> valid_group_address (gr_id r)
      then gate_loop U domains rs groups (rj\<lparr>rj_syntax := rj_syntax rj + 1\<rparr>)
      else if group_domain U (gr_id r) \<notin> set domains
      then gate_loop U domains rs groups (rj\<lparr>rj_domain := rj_domain rj + 1\<rparr>)
      else gate_loop U domains rs (append_new groups (to_lower U (gr_id r))) rj)"

definition gate_relations ::
  "golib \<Rightarrow> group_relation list \<Rightarrow> string list \<Rightarrow> string list \<times> group_outcome \<times> rejections" where
  "gate_relations U relations domains =
     (let (groups, rj) = gate_loop U domains relations [] no_rejections in
      (groups,
       if rj_namespace rj > 0 then NamespaceRejected
       else if rejections_total rj > 0 then OutcomeFiltered
       else if relations = [] then NoGroupsVisible
       else OutcomeSucceeded, rj))"

section \<open>Failure classes\<close>

datatype group_failure =
    NoFailure | FTimeout | FCanceled | FUnauthenticated | FInsufficientScope | FUnsupportedEdition
  | FApiNotEnabled | FPermissionDenied | FRateLimited | FUnavailable | FInvalidResponse
  | FResponseTooLarge | FPageLimitExceeded | FRelationLimit | FRequestFailed

definition forbidden_reasons :: "(string \<times> group_failure) list" where
  "forbidden_reasons =
     [(''access_token_scope_insufficient'', FInsufficientScope),
      (''insufficientpermissions'', FInsufficientScope),
      (''insufficientscope'', FInsufficientScope),
      (''customernotlicensed'', FUnsupportedEdition),
      (''customer_not_licensed'', FUnsupportedEdition),
      (''not_licensed_for_feature'', FUnsupportedEdition),
      (''unsupported_edition'', FUnsupportedEdition),
      (''service_disabled'', FApiNotEnabled),
      (''accessnotconfigured'', FApiNotEnabled)]"

definition forbidden_reasons_of :: "string list \<Rightarrow> string option list \<Rightarrow> string list" where
  "forbidden_reasons_of errs details = errs @ map the (filter (\<lambda>d. d \<noteq> None) details)"

fun classify_forbidden :: "golib \<Rightarrow> string list \<Rightarrow> group_failure" where
  "classify_forbidden U [] = FPermissionDenied"
| "classify_forbidden U (r # rs) =
     (case map_of forbidden_reasons (to_lower U (trim_space r)) of
        Some c \<Rightarrow> c | None \<Rightarrow> classify_forbidden U rs)"

definition classify_inner :: "golib \<Rightarrow> lookup_error \<Rightarrow> group_failure \<times> string list" where
  "classify_inner U e =
     (case e of
        CiBudget \<Rightarrow> (FResponseTooLarge, [])
      | CiPageLimit \<Rightarrow> (FPageLimitExceeded, [])
      | CiRelationLimit \<Rightarrow> (FRelationLimit, [])
      | CiBody \<Rightarrow> (FInvalidResponse, [])
      | CiRedirect \<Rightarrow> (FRequestFailed, [])
      | CiRequest \<Rightarrow> (FRequestFailed, [])
      | DeadlineExceeded \<Rightarrow> (FTimeout, [])
      | Canceled \<Rightarrow> (FCanceled, [])
      | ApiError code errs details \<Rightarrow>
          if code = 401 then (FUnauthenticated, [])
          else if code = 403 then
            (let rs = forbidden_reasons_of errs details; c = classify_forbidden U rs in
             if c = FPermissionDenied then (c, rs) else (c, []))
          else if code = 429 then (FRateLimited, [])
          else if code \<ge> 500 then (FUnavailable, [])
          else (FRequestFailed, [])
      | JsonError \<Rightarrow> (FInvalidResponse, [])
      | UnexpectedEOF \<Rightarrow> (FInvalidResponse, [])
      | OtherLookupError \<Rightarrow> (FRequestFailed, []))"

definition max_reason_tokens :: nat where "max_reason_tokens = 5"
definition max_reason_length :: nat where "max_reason_length = 64"

definition plain_token :: "string \<Rightarrow> bool" where
  "plain_token r \<longleftrightarrow> list_all (\<lambda>x. is_alnum x \<or> x \<in> {95, 45, 46}) (runes r)"

fun sanitize_loop :: "string list \<Rightarrow> string list \<Rightarrow> string list" where
  "sanitize_loop clean [] = clean"
| "sanitize_loop clean (reason # rs) =
     (if length clean = max_reason_tokens then clean
      else let r = trim_space reason in
        if r = [] \<or> length r > max_reason_length then sanitize_loop clean rs
        else if \<not> plain_token r then sanitize_loop clean rs
        else sanitize_loop (append_new clean r) rs)"

definition sanitize_reasons :: "string list \<Rightarrow> string list" where
  "sanitize_reasons reasons = sanitize_loop [] reasons"

definition classify_group_failure :: "golib \<Rightarrow> lookup_error \<Rightarrow> group_failure \<times> string list" where
  "classify_group_failure U e =
     (let (c, rs) = classify_inner U e in
      if c \<noteq> FPermissionDenied then (c, []) else (c, sanitize_reasons rs))"

section \<open>One lookup\<close>

record lookup_result =
  lr_groups :: "string list"
  lr_mode :: membership_mode
  lr_outcome :: group_outcome
  lr_failure :: group_failure
  lr_rejected :: rejections
  lr_reasons :: "string list"

definition lookup_failed :: "lookup_result \<Rightarrow> bool" where
  "lookup_failed r \<longleftrightarrow> lr_failure r \<noteq> NoFailure"

definition empty_result :: "membership_mode \<Rightarrow> lookup_result" where
  "empty_result mode = \<lparr>lr_groups = [], lr_mode = mode, lr_outcome = NoOutcome, lr_failure = NoFailure,
     lr_rejected = no_rejections, lr_reasons = []\<rparr>"

definition new_lookup :: lookup_state where
  "new_lookup = \<lparr>ls_budget = group_lookup_max_bytes, ls_sent = [], ls_read = 0\<rparr>"

definition lookup_groups ::
  "golib \<Rightarrow> gapi \<Rightarrow> network \<Rightarrow> group_settings \<Rightarrow> string \<Rightarrow> string \<Rightarrow> lookup_result \<times> lookup_state" where
  "lookup_groups U G net settings access_token email =
     (let result = empty_result (gs_mode settings) in
      if \<not> gs_enabled settings then (result\<lparr>lr_failure := FRequestFailed\<rparr>, new_lookup)
      else if access_token = [] \<or> trim_space email = [] \<or> gs_workspace_domains settings = []
      then (result\<lparr>lr_failure := FRequestFailed\<rparr>, new_lookup)
      else case search_groups G net email new_lookup of
          (Inl e, s) \<Rightarrow>
            let (c, rs) = classify_group_failure U e in (result\<lparr>lr_failure := c, lr_reasons := rs\<rparr>, s)
        | (Inr relations, s) \<Rightarrow>
            let (groups, outcome, rj) = gate_relations U relations (gs_workspace_domains settings) in
            (result\<lparr>lr_groups := groups, lr_outcome := outcome, lr_rejected := rj\<rparr>, s))"

datatype log_level = LogWarn | LogDebug

definition log_group_lookup :: "lookup_result \<Rightarrow> log_level \<times> string list" where
  "log_group_lookup r =
     (if lookup_failed r then (LogWarn, lr_reasons r)
      else if lr_outcome r \<noteq> OutcomeSucceeded then (LogWarn, [])
      else (LogDebug, []))"

section \<open>Bounds of a lookup\<close>

lemma read_limited_count:
  "read_limited r limit = Some body \<Longrightarrow> length body = read_count r limit"
  by (auto simp: read_limited_def read_count_def Let_def min_def split: option.split_asm if_split_asm)

lemma read_count_le: "read_count r limit \<le> limit"
  by (auto simp: read_count_def Let_def split: option.splits)

lemma ci_round_trip_sent:
  "ci_round_trip net path req s = (x, s') \<Longrightarrow>
     ls_sent s' = ls_sent s \<or> ls_sent s' = ls_sent s @ [req] \<and> pinned_request path req"
  by (auto simp: ci_round_trip_def Let_def split: if_split_asm sum.split_asm option.split_asm prod.split_asm)

lemma ci_round_trip_read:
  "ci_round_trip net path req s = (x, s') \<Longrightarrow> ls_read s' \<le> ls_read s + ls_budget s + 1"
  by (auto simp: ci_round_trip_def Let_def read_count_le split: if_split_asm sum.split_asm option.split_asm prod.split_asm)

lemma ci_round_trip_ok:
  assumes "ci_round_trip net path req s = (Inr r, s')"
  shows "ls_read s' + ls_budget s' = ls_read s + ls_budget s"
    and "\<exists>q body. net (length (ls_sent s)) req = Inr (Some q) \<and> rs_body q = Some body \<and> rs_body r = Some body
      \<and> length body \<le> ls_budget s \<and> ls_budget s' = ls_budget s - length body"
proof -
  let ?n = "ls_budget s + 1"
  from assms obtain q body where q: "net (length (ls_sent s)) req = Inr (Some q)" "rs_body q \<noteq> None"
    "read_limited q ?n = Some body" "length body \<le> ls_budget s" "rs_body r = Some body"
    and s': "s' = s\<lparr>ls_sent := ls_sent s @ [req], ls_read := ls_read s + read_count q ?n,
      ls_budget := ls_budget s - length body\<rparr>"
    by (auto simp: ci_round_trip_def Let_def consume_def split: if_split_asm sum.split_asm option.split_asm prod.split_asm)
  show "ls_read s' + ls_budget s' = ls_read s + ls_budget s"
    using s' q(4) read_limited_count [OF q(3)] by simp
  have "rs_body q = Some body"
    using q(2,3,4) by (auto simp: read_limited_def Let_def min_def split: option.split_asm if_split_asm)
  with q s' show "\<exists>q body. net (length (ls_sent s)) req = Inr (Some q) \<and> rs_body q = Some body \<and> rs_body r = Some body
      \<and> length body \<le> ls_budget s \<and> ls_budget s' = ls_budget s - length body" by auto
qed

definition within :: "lookup_state \<Rightarrow> nat \<Rightarrow> lookup_state \<Rightarrow> bool" where
  "within s n s' \<longleftrightarrow> length (ls_sent s') \<le> length (ls_sent s) + n
     \<and> set (ls_sent s') \<subseteq> set (ls_sent s) \<union> {q. pinned_request direct_groups_path q}
     \<and> ls_read s' \<le> ls_read s + ls_budget s + 1"

lemma do_call_within:
  assumes "do_call G net call s = (x, s')"
  shows "within s 1 s'" and "x = Inr page \<Longrightarrow> ls_read s' + ls_budget s' = ls_read s + ls_budget s"
proof -
  obtain y s1 where t: "ci_round_trip net direct_groups_path (gapi_request G call) s = (y, s1)" by fastforce
  with assms have s1: "s1 = s'" by (auto simp: do_call_def split: sum.split_asm if_split_asm)
  from ci_round_trip_sent [OF t] ci_round_trip_read [OF t] s1 show "within s 1 s'"
    by (auto simp: within_def)
  from assms t show "x = Inr page \<Longrightarrow> ls_read s' + ls_budget s' = ls_read s + ls_budget s"
    using ci_round_trip_ok(1) [of net direct_groups_path "gapi_request G call" s]
    by (auto simp: do_call_def split: sum.split_asm if_split_asm)
qed

lemma within_trans:
  "within s 1 s1 \<Longrightarrow> ls_read s1 + ls_budget s1 = ls_read s + ls_budget s \<Longrightarrow> within s1 n s' \<Longrightarrow> within s (Suc n) s'"
  by (auto simp: within_def)

lemma within_more: "within s m s' \<Longrightarrow> m \<le> n \<Longrightarrow> within s n s'"
  by (auto simp: within_def)

lemma search_pages_spec:
  "search_pages G net query n token relations s = (x, s') \<Longrightarrow> within s n s'
    \<and> (\<forall>rs. x = Inr rs \<longrightarrow> length rs \<le> group_lookup_max_relations)"
proof (induction n arbitrary: token relations s)
  case (Suc n)
  let ?call = "\<lparr>sc_query = query, sc_page_size = group_lookup_page_size, sc_page_token = token,
    sc_fields = search_fields\<rparr>"
  obtain y s1 where c: "do_call G net ?call s = (y, s1)" by fastforce
  note w = do_call_within [OF c]
  consider (stop) "s' = s1" "\<forall>rs. x = Inr rs \<longrightarrow> length rs \<le> group_lookup_max_relations"
    | (more) page rs tok where "y = Inr page" "search_pages G net query n tok rs s1 = (x, s')"
    using Suc.prems c by (auto simp: Let_def split: sum.split_asm option.split_asm if_split_asm)
  then show ?case
  proof cases
    case stop
    then show ?thesis using within_more [OF w(1), of "Suc n"] by simp
  next
    case more
    from Suc.IH [OF more(2)] within_trans [OF w(1) w(2) [OF more(1)], of n s'] show ?thesis by simp
  qed
qed (auto simp: within_def)

text \<open>
  Property C28: a group lookup is bounded whatever Google answers: it sends at most 10 requests, each a
  \<^verbatim>\<open>GET\<close> of the one pinned path on the Cloud Identity host over HTTPS, and it reads at most one byte more
  than the 4 MiB budget of the whole lookup.
\<close>

theorem lookup_groups_bounded:
  assumes "lookup_groups U G net settings token email = (r, s)"
  shows "length (ls_sent s) \<le> 10 \<and> ls_read s \<le> 4194304 + 1
    \<and> (\<forall>q \<in> set (ls_sent s). pinned_request direct_groups_path q)"
proof -
  obtain x s1 where g: "search_groups G net email new_lookup = (x, s1)" by fastforce
  have "within new_lookup 10 s1"
    using search_pages_spec g unfolding search_groups_def group_lookup_max_pages_def by blast
  moreover have "s = new_lookup \<or> s = s1"
    using assms g by (auto simp: lookup_groups_def Let_def split: if_split_asm sum.split_asm prod.split_asm)
  ultimately show ?thesis by (auto simp: within_def new_lookup_def group_lookup_max_bytes_def)
qed

text \<open>
  A response passes the round tripper only as a whole: what it hands on is the complete
  body that the network delivered, it fits in what is left of the budget, and the budget shrinks by
  exactly its length.
\<close>

theorem ci_round_trip_whole_body:
  assumes "ci_round_trip net path req s = (Inr r, s')"
  shows "\<exists>q body. net (length (ls_sent s)) req = Inr (Some q) \<and> rs_body q = Some body \<and> rs_body r = Some body
      \<and> length body \<le> ls_budget s \<and> ls_budget s' = ls_budget s - length body"
  by (rule ci_round_trip_ok(2) [OF assms])

section \<open>The gates are exact\<close>

definition accepted :: "golib \<Rightarrow> string list \<Rightarrow> group_relation \<Rightarrow> bool" where
  "accepted U domains r \<longleftrightarrow> gr_namespace r = [] \<and> gr_discussion_forum r \<and> valid_group_address (gr_id r)
     \<and> group_domain U (gr_id r) \<in> set domains"

definition count_if :: "('a \<Rightarrow> bool) \<Rightarrow> 'a list \<Rightarrow> nat" where
  "count_if P xs = length (filter P xs)"

lemma gate_loop_groups:
  "fst (gate_loop U ds rs groups rj) =
     fold (\<lambda>x acc. append_new acc x) (map (\<lambda>r. to_lower U (gr_id r)) (filter (accepted U ds) rs)) groups"
  by (induction U ds rs groups rj rule: gate_loop.induct) (auto simp: accepted_def)

lemma gate_loop_counts:
  "snd (gate_loop U ds rs groups rj) =
     \<lparr>rj_namespace = rj_namespace rj + count_if (\<lambda>r. gr_namespace r \<noteq> []) rs,
      rj_label = rj_label rj + count_if (\<lambda>r. gr_namespace r = [] \<and> \<not> gr_discussion_forum r) rs,
      rj_syntax = rj_syntax rj + count_if (\<lambda>r. gr_namespace r = [] \<and> gr_discussion_forum r
        \<and> \<not> valid_group_address (gr_id r)) rs,
      rj_domain = rj_domain rj + count_if (\<lambda>r. gr_namespace r = [] \<and> gr_discussion_forum r
        \<and> valid_group_address (gr_id r) \<and> group_domain U (gr_id r) \<notin> set ds) rs\<rparr>"
  by (induction U ds rs groups rj rule: gate_loop.induct) (auto simp: count_if_def)

lemma counts_add_up:
  "count_if (\<lambda>r. gr_namespace r \<noteq> []) rs + count_if (\<lambda>r. gr_namespace r = [] \<and> \<not> gr_discussion_forum r) rs
   + count_if (\<lambda>r. gr_namespace r = [] \<and> gr_discussion_forum r \<and> \<not> valid_group_address (gr_id r)) rs
   + count_if (\<lambda>r. gr_namespace r = [] \<and> gr_discussion_forum r \<and> valid_group_address (gr_id r)
       \<and> group_domain U (gr_id r) \<notin> set ds) rs
   + count_if (accepted U ds) rs = length rs"
  by (induction rs) (auto simp: count_if_def accepted_def)

lemma gate_relations_eq:
  assumes "gate_relations U rs ds = (groups, outcome, rj)"
  shows "groups = deduplicate (map (\<lambda>r. to_lower U (gr_id r)) (filter (accepted U ds) rs))"
    and "rejections_total rj + count_if (accepted U ds) rs = length rs"
    and "rj_namespace rj = count_if (\<lambda>r. gr_namespace r \<noteq> []) rs"
  using assms gate_loop_groups [of U ds rs "[]" no_rejections] gate_loop_counts [of U ds rs "[]" no_rejections]
    counts_add_up [of rs U ds]
  by (auto simp: gate_relations_def Let_def deduplicate_def rejections_total_def no_rejections_def
      split: prod.split_asm)

text \<open>
  Property C29: \<^verbatim>\<open>gateRelations\<close> keeps exactly the relations that pass all gates, as lower-cased
  addresses in the order of their first occurrence. The counters and what was kept (duplicates
  included) add up to what Google returned; the namespace class is reported exactly when a relation
  carried a namespace, success exactly when something was returned and nothing was dropped.
\<close>

theorem gate_relations_exact:
  assumes "gate_relations U rs ds = (groups, outcome, rj)"
  shows "groups = deduplicate (map (\<lambda>r. to_lower U (gr_id r)) (filter (accepted U ds) rs))
    \<and> rejections_total rj + length (filter (accepted U ds) rs) = length rs
    \<and> (outcome = NamespaceRejected \<longleftrightarrow> (\<exists>r \<in> set rs. gr_namespace r \<noteq> []))
    \<and> (outcome = OutcomeSucceeded \<longleftrightarrow> rs \<noteq> [] \<and> (\<forall>r \<in> set rs. accepted U ds r))
    \<and> (outcome = NoGroupsVisible \<longleftrightarrow> rs = [])"
proof -
  note g = gate_relations_eq [OF assms]
  have o: "outcome = (if rj_namespace rj > 0 then NamespaceRejected
       else if rejections_total rj > 0 then OutcomeFiltered
       else if rs = [] then NoGroupsVisible else OutcomeSucceeded)"
    using assms by (auto simp: gate_relations_def Let_def split: prod.split_asm)
  have n: "rj_namespace rj > 0 \<longleftrightarrow> (\<exists>r \<in> set rs. gr_namespace r \<noteq> [])"
    using g(3) by (auto simp: count_if_def filter_empty_conv)
  have t: "rejections_total rj = 0 \<longleftrightarrow> (\<forall>r \<in> set rs. accepted U ds r)"
    using g(2) by (auto simp: count_if_def) (metis add_0 filter_id_conv length_filter_less less_irrefl)+
  have nt: "rj_namespace rj > 0 \<Longrightarrow> rejections_total rj > 0" by (simp add: rejections_total_def)
  show ?thesis
    using g(1,2) o n t nt by (auto simp: count_if_def split: if_split_asm)
qed

subsection \<open>What a gated address looks like\<close>

definition safe_char :: "char \<Rightarrow> bool" where
  "safe_char c \<longleftrightarrow> 33 \<le> byte c \<and> byte c \<le> 126 \<and> byte c \<noteq> byte (CHR '','')"

lemma is_atext_range: "is_atext n \<Longrightarrow> 33 \<le> n \<and> n \<le> 126 \<and> n \<noteq> 44"
  by (auto simp: is_atext_def is_alnum_def)

lemma runes_safe:
  assumes "list_all P (runes s)" and "\<And>n. P n \<Longrightarrow> 33 \<le> n \<and> n \<le> 126 \<and> n \<noteq> 44"
  shows "is_ascii s \<and> (\<forall>c \<in> set s. safe_char c)"
proof -
  have "\<forall>r \<in> set (runes s). r < 128" using assms by (fastforce simp: list_all_iff)
  from runes_lt_128_ascii [OF this] have a: "is_ascii s" .
  then have "runes s = map byte s" by (rule runes_ascii)
  with assms have "\<forall>c \<in> set s. safe_char c"
    by (auto simp: list_all_iff safe_char_def)
  with a show ?thesis by blast
qed

lemma valid_local_safe: "valid_address_local_part l \<Longrightarrow> is_ascii l \<and> (\<forall>c \<in> set l. safe_char c)"
  unfolding valid_address_local_part_def by (rule runes_safe [of "\<lambda>r. r = 46 \<or> is_atext r"]) (auto dest: is_atext_range)

lemma set_split_on: "set s \<subseteq> insert c (\<Union> (set ` set (split_on c s)))"
proof (induction s)
  case (Cons x s)
  then show ?case by (cases "split_on c s") auto
qed simp

lemma valid_domain_safe:
  assumes "valid_address_domain d" shows "is_ascii d \<and> (\<forall>c \<in> set d. safe_char c)"
proof -
  have l: "is_ascii w \<and> (\<forall>c \<in> set w. safe_char c)" if "w \<in> set (split_on (CHR ''.'') d)" for w
  proof (rule runes_safe)
    have "valid_label w" using assms that by (simp add: valid_address_domain_def list_all_iff)
    then show "list_all (\<lambda>r. is_alnum r \<or> r = 45) (runes w)" by (simp add: valid_label_def)
  qed (auto simp: is_alnum_def)
  have "byte c < 128 \<and> safe_char c" if "c \<in> set d" for c
  proof (cases "c = CHR ''.''")
    case True
    then show ?thesis by (simp add: safe_char_def)
  next
    case False
    with that set_split_on [of d "CHR ''.''"] obtain w where "w \<in> set (split_on (CHR ''.'') d)" "c \<in> set w" by auto
    with l [of w] show ?thesis by (auto simp: is_ascii_def list_all_iff)
  qed
  then show ?thesis by (simp add: is_ascii_def list_all_iff)
qed

lemma lower_char_at: "byte c < 128 \<Longrightarrow> lower_char c = CHR ''@'' \<longleftrightarrow> c = CHR ''@''"
proof -
  assume "byte c < 128"
  then have "byte (lower_char c) = byte (CHR ''@'') \<longleftrightarrow> byte c = byte (CHR ''@'')"
    by (simp add: ascii_lower_def)
  then show ?thesis by (simp only: of_char_eq_iff)
qed

lemma lower_char_safe: "byte c < 128 \<Longrightarrow> safe_char c \<Longrightarrow> safe_char (lower_char c)"
  by (auto simp: safe_char_def ascii_lower_def)

lemma accepted_shape:
  assumes "accepted U ds r"
  shows "\<exists>l d. to_lower U (gr_id r) = l @ ''@'' @ d \<and> l \<noteq> [] \<and> CHR ''@'' \<notin> set l \<and> CHR ''@'' \<notin> set d
    \<and> d \<in> set ds \<and> (\<forall>c \<in> set (l @ d). safe_char c) \<and> length (l @ ''@'' @ d) \<le> 320"
proof -
  let ?g = "gr_id r"
  obtain l d f where c: "cut (CHR ''@'') ?g = (l, d, f)" by (metis prod_cases3)
  from assms c have v: "count_list ?g (CHR ''@'') = 1" "length ?g \<le> 320" "valid_address_local_part l"
    "valid_address_domain d" "group_domain U ?g \<in> set ds"
    by (auto simp: accepted_def valid_group_address_def)
  note g = count_list_one_cut [OF v(1) c]
  note s = valid_local_safe [OF v(3)] valid_domain_safe [OF v(4)]
  let ?L = "map lower_char l" and ?D = "map lower_char d"
  have "is_ascii ?g" using g(1) s by simp
  then have low: "to_lower U ?g = ?L @ ''@'' @ ?D"
    using g(1) by (simp add: to_lower_ascii lower_char_eval char_of_def bit_0)
  have at: "CHR ''@'' \<notin> set ?L" "CHR ''@'' \<notin> set ?D"
    using g(2,3) s lower_char_at by (auto simp: is_ascii_def list_all_iff) metis+
  have "group_domain U ?g = ?D" using low at(1) by (simp add: group_domain_def)
  moreover have "\<forall>c \<in> set (?L @ ?D). safe_char c"
    using s lower_char_safe by (auto simp: is_ascii_def list_all_iff)
  moreover have "?L \<noteq> []" using v(3) by (simp add: valid_address_local_part_def)
  moreover have "length (?L @ ''@'' @ ?D) \<le> 320" using v(2) g(1) by simp
  ultimately show ?thesis using low at v(5) by metis
qed

text \<open>
  Every group that the gates let through is one address in an allow-listed Workspace
  domain: a non-empty local part, one \<^verbatim>\<open>@\<close>, and a domain of the list, at most 320 bytes in all, with no
  white space, no comma, no control character and no byte above ASCII.
\<close>

theorem gated_groups_are_addresses:
  assumes "gate_relations U rs ds = (groups, outcome, rj)" and "g \<in> set groups"
  shows "\<exists>l d. g = l @ ''@'' @ d \<and> l \<noteq> [] \<and> CHR ''@'' \<notin> set l \<and> CHR ''@'' \<notin> set d \<and> d \<in> set ds
    \<and> (\<forall>c \<in> set (l @ d). safe_char c) \<and> length g \<le> 320"
proof -
  from assms(2) gate_relations_eq(1) [OF assms(1)] obtain r where "accepted U ds r" "g = to_lower U (gr_id r)" by auto
  with accepted_shape [of U ds r] show ?thesis by fastforce
qed

section \<open>The CEL literal\<close>

text \<open>Reading a CEL string literal after its opening quote: the bytes it stands for and what follows
  the closing quote. A raw newline or carriage return does not belong in one.\<close>

fun cel_read :: "string \<Rightarrow> (string \<times> string) option" where
  "cel_read [] = None"
| "cel_read (c # s) =
     (if c = CHR 0x27 then Some ([], s)
      else if c = CHR 0x5C then
        (case s of [] \<Rightarrow> None
         | d # s' \<Rightarrow>
             (let v = (if d = CHR 0x5C \<or> d = CHR 0x27 then Some d
                       else if d = CHR ''r'' then Some (CHR 0x0D)
                       else if d = CHR ''n'' then Some (CHR 0x0A)
                       else if d = CHR ''t'' then Some (CHR 0x09) else None) in
              case v of None \<Rightarrow> None | Some x \<Rightarrow> map_option (\<lambda>(w, r). (x # w, r)) (cel_read s')))
      else if c = CHR 0x0A \<or> c = CHR 0x0D then None
      else map_option (\<lambda>(w, r). (c # w, r)) (cel_read s))"

definition cel_parse :: "string \<Rightarrow> (string \<times> string) option" where
  "cel_parse s = (case s of [] \<Rightarrow> None | c # s' \<Rightarrow> if c = CHR 0x27 then cel_read s' else None)"

lemma cel_read_plain:
  assumes "\<forall>c \<in> set a. byte c \<notin> {39, 92, 10, 13}"
  shows "cel_read (a @ t) = map_option (\<lambda>(w, r). (a @ w, r)) (cel_read t)"
  using assms
proof (induction a)
  case Nil
  then show ?case by (simp add: case_prod_unfold option.map_ident)
next
  case (Cons c a)
  then have "c \<noteq> CHR 0x27" "c \<noteq> CHR 0x5C" "c \<noteq> CHR 0x0A" "c \<noteq> CHR 0x0D" by auto
  with Cons show ?case by (simp add: option.map_comp comp_def case_prod_unfold)
qed

lemma encode_rune_high:
  assumes "128 \<le> r" "c \<in> set (encode_rune r)" shows "128 \<le> byte c"
proof -
  have b: "byte (char_of n) = n" if "n < 256" for n :: nat using that by simp
  have cont: "128 + n mod 64 < 256" "128 \<le> 128 + n mod 64" for n :: nat by simp_all
  consider (two) "r < 2048" | (bad) "2048 \<le> r" "1114112 \<le> r \<or> 55296 \<le> r \<and> r \<le> 57343"
    | (three) "2048 \<le> r" "\<not> (1114112 \<le> r \<or> 55296 \<le> r \<and> r \<le> 57343)" "r < 65536"
    | (four) "\<not> (1114112 \<le> r \<or> 55296 \<le> r \<and> r \<le> 57343)" "65536 \<le> r" by linarith
  then show ?thesis
  proof cases
    case two
    then have l: "192 + r div 64 < 256" by simp
    from two assms have "c \<in> {char_of (192 + r div 64), char_of (128 + r mod 64)}" by (simp add: encode_rune_def)
    then show ?thesis using b [OF l] b [OF cont(1), of r] by auto
  next
    case bad
    with assms have "c \<in> {char_of (239::nat), char_of (191::nat), char_of (189::nat)}" by (auto simp: encode_rune_def)
    then show ?thesis using b [of 239] b [of 191] b [of 189] by auto
  next
    case three
    then have l: "224 + r div 4096 < 256" by simp
    from three assms have "c \<in> {char_of (224 + r div 4096), char_of (128 + r div 64 mod 64), char_of (128 + r mod 64)}"
      unfolding encode_rune_def by (simp split: if_split_asm)
    then show ?thesis using b [OF l] b [OF cont(1), of r] b [OF cont(1), of "r div 64"] by auto
  next
    case four
    then have l: "240 + r div 262144 < 256" by simp
    from four assms have "c \<in> {char_of (240 + r div 262144), char_of (128 + r div 4096 mod 64),
        char_of (128 + r div 64 mod 64), char_of (128 + r mod 64)}"
      unfolding encode_rune_def by (simp split: if_split_asm)
    then show ?thesis
      using b [OF l] b [OF cont(1), of r] b [OF cont(1), of "r div 64"] b [OF cont(1), of "r div 4096"] by auto
  qed
qed

lemma cel_read_rune:
  "cel_read (cel_rune r @ t) = map_option (\<lambda>(w, q). (encode_rune r @ w, q)) (cel_read t)"
proof (cases "r \<in> {92, 39, 13, 10, 9}")
  case True
  then consider "r = 92" | "r = 39" | "r = 13" | "r = 10" | "r = 9" by blast
  then show ?thesis by cases (simp_all add: cel_rune_def encode_rune_def char_of_def bit_0)
next
  case False
  then have c: "cel_rune r = encode_rune r" by (simp add: cel_rune_def)
  have "byte c \<notin> {39, 92, 10, 13}" if "c \<in> set (encode_rune r)" for c
  proof (cases "r < 128")
    case True
    with that False show ?thesis by (auto simp: encode_rune_def)
  next
    case False
    with encode_rune_high [OF _ that] show ?thesis by auto
  qed
  then show ?thesis unfolding c by (intro cel_read_plain) blast
qed

lemma cel_read_runes:
  "cel_read (concat (map cel_rune rs) @ [CHR 0x27] @ rest) = Some (concat (map encode_rune rs), rest)"
  by (induction rs) (auto simp: cel_read_rune)



section \<open>Failures\<close>

lemma plain_token_safe: "plain_token r \<Longrightarrow> is_ascii r \<and> (\<forall>c \<in> set r. safe_char c)"
  unfolding plain_token_def
  by (rule runes_safe [of "\<lambda>x. is_alnum x \<or> x \<in> {95, 45, 46}"]) (auto simp: is_alnum_def)

lemma sanitize_loop_spec:
  assumes "length clean \<le> max_reason_tokens" and "distinct clean" and "\<forall>r \<in> set clean. P r"
    and "\<And>r. r \<in> set rs \<Longrightarrow> trim_space r \<noteq> [] \<Longrightarrow> length (trim_space r) \<le> max_reason_length \<Longrightarrow>
      plain_token (trim_space r) \<Longrightarrow> P (trim_space r)"
  shows "length (sanitize_loop clean rs) \<le> max_reason_tokens \<and> distinct (sanitize_loop clean rs)
    \<and> (\<forall>r \<in> set (sanitize_loop clean rs). P r)"
  using assms
proof (induction clean rs rule: sanitize_loop.induct)
  case (2 clean reason rs)
  show ?case
  proof (cases "length clean = max_reason_tokens")
    case False
    then have "length (append_new clean (trim_space reason)) \<le> max_reason_tokens"
      using "2.prems"(1) by (auto simp: append_new_def)
    with False "2" show ?thesis by (auto simp: Let_def not_less)
  qed (use "2" in simp)
qed simp

lemma classify_inner_failure: "fst (classify_inner U e) \<noteq> NoFailure"
proof -
  have "classify_forbidden U rs \<noteq> NoFailure" for rs
    by (induction U rs rule: classify_forbidden.induct)
       (auto simp: forbidden_reasons_def split: option.splits if_split_asm dest!: map_of_SomeD)
  then show ?thesis by (cases e) (auto simp: classify_inner_def Let_def)
qed

lemma failure_classes: "fst (classify_group_failure U e) \<noteq> NoFailure"
  using classify_inner_failure [of U e] by (auto simp: classify_group_failure_def split: prod.splits)

text \<open>
  A provider cannot write into the log. Whatever reasons an error carries, what is kept
  of them is at most five distinct tokens, each of 1 to 64 printable ASCII characters with no white
  space, and only when the class is the catch-all permission class; every other class keeps none.
\<close>

theorem failure_reasons_bounded:
  assumes "classify_group_failure U e = (c, reasons)"
  shows "c \<noteq> NoFailure \<and> (c \<noteq> FPermissionDenied \<longrightarrow> reasons = []) \<and> length reasons \<le> 5 \<and> distinct reasons
    \<and> (\<forall>r \<in> set reasons. r \<noteq> [] \<and> length r \<le> 64 \<and> (\<forall>c \<in> set r. safe_char c))"
proof -
  obtain d rs where d: "classify_inner U e = (d, rs)" by fastforce
  have s: "length (sanitize_reasons rs) \<le> 5 \<and> distinct (sanitize_reasons rs)
    \<and> (\<forall>r \<in> set (sanitize_reasons rs). r \<noteq> [] \<and> length r \<le> 64 \<and> (\<forall>c \<in> set r. safe_char c))"
    using sanitize_loop_spec [of "[]" "\<lambda>r. r \<noteq> [] \<and> length r \<le> 64 \<and> (\<forall>c \<in> set r. safe_char c)" rs] plain_token_safe
    by (auto simp: sanitize_reasons_def max_reason_tokens_def max_reason_length_def)
  from assms d classify_inner_failure [of U e] s show ?thesis
    by (auto simp: classify_group_failure_def split: if_split_asm)
qed

lemma lookup_groups_cases:
  assumes "lookup_groups U G net settings token email = (r, s)"
  shows "lookup_failed r \<and> lr_groups r = [] \<or>
    \<not> lookup_failed r \<and> gs_enabled settings \<and> (\<exists>rs. length rs \<le> group_lookup_max_relations
      \<and> gate_relations U rs (gs_workspace_domains settings) = (lr_groups r, lr_outcome r, lr_rejected r))"
proof -
  obtain x s1 where g: "search_groups G net email new_lookup = (x, s1)" by fastforce
  show ?thesis
  proof (cases x)
    case (Inl e)
    then show ?thesis using assms g failure_classes [of U e]
      by (auto simp: lookup_groups_def lookup_failed_def empty_result_def Let_def split: if_split_asm prod.split_asm)
  next
    case (Inr rs)
    have "length rs \<le> group_lookup_max_relations"
      using search_pages_spec [of G net "search_query email" group_lookup_max_pages "[]" "[]" new_lookup x s1] g Inr
      by (simp add: search_groups_def)
    with assms g Inr show ?thesis
      by (auto simp: lookup_groups_def lookup_failed_def empty_result_def Let_def split: if_split_asm prod.split_asm)
  qed
qed

text \<open>
  A failed lookup grants nothing: either the lookup has a failure class and an empty group
  list, or the connector enabled it and the groups are what the gates kept of at most 10000
  relations.
\<close>

theorem failed_lookup_has_no_groups:
  assumes "lookup_groups U G net settings token email = (r, s)"
  shows "lookup_failed r \<and> lr_groups r = [] \<or>
    \<not> lookup_failed r \<and> gs_enabled settings \<and> (\<exists>rs. length rs \<le> 10000
      \<and> gate_relations U rs (gs_workspace_domains settings) = (lr_groups r, lr_outcome r, lr_rejected r))"
  using lookup_groups_cases [OF assms] by (simp add: group_lookup_max_relations_def)

section \<open>Concrete lookups\<close>

definition sample_relations :: "group_relation list" where
  "sample_relations =
     [\<lparr>gr_id = ''Ops@Ex.com'', gr_namespace = [], gr_discussion_forum = True\<rparr>,
      \<lparr>gr_id = ''ops@ex.com'', gr_namespace = [], gr_discussion_forum = True\<rparr>,
      \<lparr>gr_id = ''adm@ex.com'', gr_namespace = ''identitysources/1'', gr_discussion_forum = True\<rparr>,
      \<lparr>gr_id = ''a b@ex.com'', gr_namespace = [], gr_discussion_forum = True\<rparr>]"

lemmas group_eval = valid_group_address_def valid_address_local_part_def valid_address_domain_def
  valid_label_def is_atext_def is_alnum_def cut_def runes_def group_domain_def Let_def go_eval

lemma sample_gates:
  "gate_relations ascii_tables sample_relations [''ex.com''] =
     ([''ops@ex.com''], NamespaceRejected, \<lparr>rj_namespace = 1, rj_label = 0, rj_syntax = 1, rj_domain = 0\<rparr>)"
  by (simp add: sample_relations_def gate_relations_def no_rejections_def group_eval del: decode.simps(2))

theorem gate_relations_exact_witness:
  "[''ops@ex.com''] = deduplicate (map (\<lambda>r. to_lower ascii_tables (gr_id r))
      (filter (accepted ascii_tables [''ex.com'']) sample_relations))"
  using gate_relations_exact [OF sample_gates] by blast

theorem gated_groups_are_addresses_witness:
  "\<exists>l d. ''ops@ex.com'' = l @ ''@'' @ d \<and> l \<noteq> [] \<and> d \<in> set [''ex.com''] \<and> list_all safe_char (l @ d)
    \<and> length ''ops@ex.com'' \<le> 320"
proof -
  have "\<exists>l d. ''ops@ex.com'' = l @ ''@'' @ d \<and> l \<noteq> [] \<and> CHR ''@'' \<notin> set l \<and> CHR ''@'' \<notin> set d \<and> d \<in> set [''ex.com'']
      \<and> (\<forall>c \<in> set (l @ d). safe_char c) \<and> length ''ops@ex.com'' \<le> 320"
    by (rule gated_groups_are_addresses [OF sample_gates]) simp
  then show ?thesis unfolding list_all_iff by blast
qed

definition sample_url :: url where
  "sample_url = \<lparr>url_scheme = ''https'', url_opaque = [], url_user = False, url_host = cloud_identity_host,
     url_path = direct_groups_path, url_raw_path = [], url_force_query = False, url_raw_query = [],
     url_fragment = []\<rparr>"

definition sample_http :: http_request where
  "sample_http = \<lparr>rq_method = ''GET'', rq_url = Some sample_url, rq_host = []\<rparr>"

definition sample_page :: search_response where
  "sample_page = \<lparr>sr_memberships = [Some \<lparr>mb_id = ''Ops@Ex.com'', mb_namespace = [],
     mb_labels = [(discussion_forum_label, [])]\<rparr>], sr_next_page_token = []\<rparr>"

definition sample_gapi :: gapi where
  "sample_gapi = \<lparr>gapi_request = (\<lambda>_. sample_http), gapi_decode = (\<lambda>_. Inr (Some sample_page))\<rparr>"

definition sample_net :: network where
  "sample_net = (\<lambda>_ _. Inr (Some \<lparr>rs_status = 200, rs_location = [], rs_body = Some ''{}'',
     rs_fails_after = None, rs_close_fails = False\<rparr>))"

definition sample_settings :: group_settings where
  "sample_settings = \<lparr>gs_enabled = True, gs_mode = MembershipDirect, gs_workspace_domains = [''ex.com'']\<rparr>"

lemma sample_pinned: "pinned_request direct_groups_path sample_http"
  unfolding pinned_request_def sample_http_def sample_url_def by code_simp

lemma sample_round_trip:
  "ci_round_trip sample_net direct_groups_path sample_http new_lookup =
     (Inr \<lparr>rs_status = 200, rs_location = [], rs_body = Some ''{}'', rs_fails_after = None, rs_close_fails = False\<rparr>,
      \<lparr>ls_budget = 4194302, ls_sent = [sample_http], ls_read = 2\<rparr>)"
  using sample_pinned
  by (simp add: ci_round_trip_def sample_net_def new_lookup_def group_lookup_max_bytes_def read_limited_def
      read_count_def consume_def)

lemma sample_lookup:
  "lookup_groups ascii_tables sample_gapi sample_net sample_settings ''tok'' ''ann@ex.com'' =
     (\<lparr>lr_groups = [''ops@ex.com''], lr_mode = MembershipDirect, lr_outcome = OutcomeSucceeded,
       lr_failure = NoFailure, lr_rejected = no_rejections, lr_reasons = []\<rparr>,
      \<lparr>ls_budget = 4194302, ls_sent = [sample_http], ls_read = 2\<rparr>)"
proof -
  have c: "do_call sample_gapi sample_net call new_lookup =
      (Inr (Some sample_page), \<lparr>ls_budget = 4194302, ls_sent = [sample_http], ls_read = 2\<rparr>)" for call
    by (simp add: do_call_def sample_gapi_def sample_round_trip redirects_def)
  have g: "gate_relations ascii_tables [\<lparr>gr_id = ''Ops@Ex.com'', gr_namespace = [], gr_discussion_forum = True\<rparr>]
      [''ex.com''] = ([''ops@ex.com''], OutcomeSucceeded, no_rejections)"
    by (simp add: gate_relations_def no_rejections_def rejections_total_def group_eval del: decode.simps(2))
  have t: "trim_space ''ann@ex.com'' \<noteq> []" by (simp add: go_eval del: decode.simps(2))
  have pages: "group_lookup_max_pages = Suc 9" by (simp add: group_lookup_max_pages_def)
  have p: "search_groups sample_gapi sample_net ''ann@ex.com'' new_lookup =
      (Inr [\<lparr>gr_id = ''Ops@Ex.com'', gr_namespace = [], gr_discussion_forum = True\<rparr>],
       \<lparr>ls_budget = 4194302, ls_sent = [sample_http], ls_read = 2\<rparr>)"
    unfolding search_groups_def pages
    by (subst search_pages.simps(2)) (simp add: c sample_page_def relation_of_def
        has_discussion_forum_label_def group_lookup_max_relations_def)
  show ?thesis by (simp add: lookup_groups_def sample_settings_def p g t empty_result_def)
qed

theorem lookup_groups_bounded_witness:
  "length [sample_http] \<le> 10 \<and> (2::nat) \<le> 4194304 + 1 \<and> list_all (pinned_request direct_groups_path) [sample_http]"
  using lookup_groups_bounded [OF sample_lookup] by (simp add: list_all_iff)

theorem ci_round_trip_whole_body_witness:
  "\<exists>q body. sample_net 0 sample_http = Inr (Some q) \<and> rs_body q = Some body \<and> Some ''{}'' = Some body
     \<and> length body \<le> ls_budget new_lookup \<and> (4194302::nat) = ls_budget new_lookup - length body"
  using ci_round_trip_whole_body [OF sample_round_trip] by (simp add: new_lookup_def)

theorem failed_lookup_has_no_groups_witness:
  "\<exists>rs. length rs \<le> 10000 \<and> gate_relations ascii_tables rs [''ex.com''] =
     ([''ops@ex.com''], OutcomeSucceeded, no_rejections)"
  using failed_lookup_has_no_groups [OF sample_lookup] by (simp add: lookup_failed_def sample_settings_def)

lemma sample_failure:
  "classify_group_failure ascii_tables (ApiError 403 [''x'', ''bad one''] [None, Some ''y'']) =
     (FPermissionDenied, [''x'', ''y''])"
  by (simp add: classify_group_failure_def classify_inner_def forbidden_reasons_of_def forbidden_reasons_def
      sanitize_reasons_def max_reason_tokens_def max_reason_length_def plain_token_def is_alnum_def runes_def
      go_eval del: decode.simps(2))

theorem failure_reasons_bounded_witness:
  "length [''x'', ''y''] \<le> 5 \<and> (\<forall>r \<in> set [''x'', ''y'']. r \<noteq> [] \<and> length r \<le> 64 \<and> (\<forall>c \<in> set r. safe_char c))"
  using failure_reasons_bounded [OF sample_failure] by blast

end
