(* ===== verification/Transport.thy ===== *)
theory Transport
  imports Policy
begin

text \<open>
  What the Auth Service may fetch: the endpoint allow-list and its client
  (\<^verbatim>\<open>lib/googleoidc/transport.go\<close>), the pinned discovery document and the scopes
  (\<^verbatim>\<open>lib/googleoidc/service.go\<close>), the bounded response body (\<^verbatim>\<open>lib/oidc/round_tripper.go\<close>) and the
  cache of discovery document and key set (\<^verbatim>\<open>lib/oidc/caching_token_validator.go\<close>).

  A round tripper is a function from a request and the state of the network to an answer and the new
  state. \<^verbatim>\<open>http.Client.Do\<close> is modelled as the loop over redirects it is; how it derives the next
  request from a response is an argument.
\<close>

section \<open>URLs as text\<close>

record endpoint =
  ep_url :: url
  ep_userinfo :: string
  ep_omit_host :: bool

definition url_string :: "endpoint \<Rightarrow> string" where
  "url_string e =
     (let u = ep_url e;
          sch = (if url_scheme u \<noteq> [] then url_scheme u @ '':'' else []);
          auth = (if url_scheme u \<noteq> [] \<or> url_host u \<noteq> [] \<or> url_user u then
                    (if ep_omit_host e \<and> url_host u = [] \<and> \<not> url_user u then []
                     else (if url_host u \<noteq> [] \<or> url_path u \<noteq> [] \<or> url_user u then ''//'' else [])
                        @ (if url_user u then ep_userinfo e @ ''@'' else [])
                        @ escape EncodeHost (url_host u))
                  else []);
          path = escaped_path u;
          slash = (if path \<noteq> [] \<and> hd path \<noteq> CHR ''/'' \<and> url_host u \<noteq> [] then ''/'' else []);
          dot = (if sch @ auth @ slash = [] \<and> CHR '':'' \<in> set (takeWhile (\<lambda>c. c \<noteq> CHR ''/'') path) then ''./'' else [])
      in (if url_opaque u \<noteq> [] then sch @ url_opaque u else sch @ auth @ slash @ dot @ path)
         @ (if url_force_query u \<or> url_raw_query u \<noteq> [] then ''?'' @ url_raw_query u else [])
         @ (if url_fragment u \<noteq> [] then ''#'' @ escape EncodeFragment (url_fragment u) else []))"

section \<open>The allow-list (transport.go)\<close>

definition google_discovery_endpoint :: string where
  "google_discovery_endpoint = ''https://accounts.google.com/.well-known/openid-configuration''"
definition google_authorization_endpoint :: string where
  "google_authorization_endpoint = ''https://accounts.google.com/o/oauth2/v2/auth''"
definition google_token_endpoint :: string where
  "google_token_endpoint = ''https://oauth2.googleapis.com/token''"
definition google_jwks_endpoint :: string where
  "google_jwks_endpoint = ''https://www.googleapis.com/oauth2/v3/certs''"

definition max_redirects :: nat where "max_redirects = 10"

definition allowed_endpoints :: "string list" where
  "allowed_endpoints = [google_discovery_endpoint, google_token_endpoint, google_jwks_endpoint]"

definition is_allowed_endpoint :: "endpoint option \<Rightarrow> bool" where
  "is_allowed_endpoint e = (case e of None \<Rightarrow> False | Some u \<Rightarrow> url_string u \<in> set allowed_endpoints)"

record 'q request =
  rq_endpoint :: "endpoint option"
  rq_rest :: 'q

type_synonym ('q, 'r, 'w) round_tripper = "'q request \<Rightarrow> 'w \<Rightarrow> 'r result \<times> 'w"

record ('q, 'r, 'w) client =
  cl_transport :: "('q, 'r, 'w) round_tripper option"
  cl_check_redirect :: "('q request \<Rightarrow> nat \<Rightarrow> err option) option"

definition allow_list_round_trip :: "('q, 'r, 'w) round_tripper \<Rightarrow> ('q, 'r, 'w) round_tripper" where
  "allow_list_round_trip nxt req w =
     (if \<not> is_allowed_endpoint (rq_endpoint req)
      then (Inl (Err AccessDenied ''OIDC provider endpoint is not allowed''), w)
      else nxt req w)"

definition allow_list_redirect ::
  "('q request \<Rightarrow> nat \<Rightarrow> err option) option \<Rightarrow> 'q request \<Rightarrow> nat \<Rightarrow> err option" where
  "allow_list_redirect previous req via =
     (if \<not> is_allowed_endpoint (rq_endpoint req)
      then Some (Err AccessDenied ''OIDC provider redirect is not allowed'')
      else case previous of
          Some p \<Rightarrow> p req via
        | None \<Rightarrow> if via \<ge> max_redirects then Some (Err AccessDenied ''too many OIDC provider redirects'') else None)"

definition restrict_client_to_google :: "('q, 'r, 'w) client option \<Rightarrow> ('q, 'r, 'w) client result" where
  "restrict_client_to_google c =
     (case c of
        None \<Rightarrow> Inl (Err BadParameter ''missing http client'')
      | Some cl \<Rightarrow>
          (case cl_transport cl of
             None \<Rightarrow> Inl (Err BadParameter ''the OIDC http client has no transport to wrap'')
           | Some t \<Rightarrow> Inr \<lparr>cl_transport = Some (allow_list_round_trip t),
                           cl_check_redirect = Some (allow_list_redirect (cl_check_redirect cl))\<rparr>))"

text \<open>\<^verbatim>\<open>http.Client.Do\<close>: send, and follow the redirect that \<open>redirect_of\<close> derives from a response unless
  \<^verbatim>\<open>CheckRedirect\<close> refuses it. The fuel counts the requests; the default policy of the client stops
  after ten.\<close>

fun client_do ::
  "('q, 'r, 'w) client \<Rightarrow> ('q request \<Rightarrow> 'r \<Rightarrow> 'q request option) \<Rightarrow> nat \<Rightarrow> nat \<Rightarrow> 'q request \<Rightarrow> 'w \<Rightarrow>
     ('r result \<times> 'w) option" where
  "client_do cl redirect_of 0 via req w = None"
| "client_do cl redirect_of (Suc n) via req w =
     (case cl_transport cl of
        None \<Rightarrow> Some (Inl (Err OtherError ''no transport''), w)
      | Some t \<Rightarrow>
          (case t req w of
             (Inl e, w') \<Rightarrow> Some (Inl e, w')
           | (Inr r, w') \<Rightarrow>
               (case redirect_of req r of
                  None \<Rightarrow> Some (Inr r, w')
                | Some req' \<Rightarrow>
                    (case (case cl_check_redirect cl of
                             None \<Rightarrow> if via + 1 \<ge> 10 then Some (Err OtherError ''stopped after 10 redirects'') else None
                           | Some f \<Rightarrow> f req' (via + 1)) of
                       Some e \<Rightarrow> Some (Inl e, w')
                     | None \<Rightarrow> client_do cl redirect_of n (via + 1) req' w'))))"

section \<open>The bounded body (round_tripper.go)\<close>

definition max_data_size :: nat where "max_data_size = 1024 * 1024"

text \<open>\<^verbatim>\<open>limitReadCloser.Read\<close>: \<open>n\<close> bytes are left, the caller's buffer has \<open>len\<close> bytes, and the inner reader
  gives \<open>got\<close> bytes and perhaps an error.\<close>

definition limit_read :: "nat \<Rightarrow> nat \<Rightarrow> (nat \<Rightarrow> nat \<times> err option) \<Rightarrow> (nat \<times> err option) \<times> nat" where
  "limit_read n len inner =
     (if n = 0 then ((0, Some (Err OtherError ''response exceeds maximum size'')), 0)
      else let len' = min len n; (got, e) = inner len' in ((got, e), n - got))"

text \<open>A caller that reads until it meets an error.\<close>

fun limit_reads :: "nat \<Rightarrow> (nat \<times> (nat \<Rightarrow> nat \<times> err option)) list \<Rightarrow> nat" where
  "limit_reads n [] = 0"
| "limit_reads n ((len, inner) # rs) =
     (let ((got, e), n') = limit_read n len inner in
      if e \<noteq> None then got else got + limit_reads n' rs)"

section \<open>Discovery and scopes (service.go)\<close>

record discovery =
  dc_issuer :: string
  dc_authorization_endpoint :: string
  dc_token_endpoint :: string
  dc_jwks_uri :: string

definition validate_discovery_config :: "discovery option \<Rightarrow> err option" where
  "validate_discovery_config d =
     (case d of
        None \<Rightarrow> Some (Err BadParameter ''OIDC discovery document contains an unsupported endpoint'')
      | Some dc \<Rightarrow>
          if dc_issuer dc \<noteq> google_issuer \<or> dc_authorization_endpoint dc \<noteq> google_authorization_endpoint
             \<or> dc_token_endpoint dc \<noteq> google_token_endpoint \<or> dc_jwks_uri dc \<noteq> google_jwks_endpoint
          then Some (Err BadParameter ''OIDC discovery document contains an unsupported endpoint'') else None)"

definition connector_scopes :: "oidc_connector \<Rightarrow> string list" where
  "connector_scopes c = ''openid'' # filter (\<lambda>s. s \<noteq> [] \<and> s \<noteq> ''openid'') (scope (con_spec c))"

record oauth2_config =
  oc_client_id :: string
  oc_client_secret :: string
  oc_redirect_url :: string
  oc_scopes :: "string list"
  oc_auth_url :: string
  oc_token_url :: string

text \<open>\<open>discover\<close> is \<^verbatim>\<open>client.Discover\<close> of the issuer with the restricted client.\<close>

definition new_oauth2_config ::
  "(string \<Rightarrow> discovery option result) \<Rightarrow> oidc_connector \<Rightarrow> string \<Rightarrow> oauth2_config result" where
  "new_oauth2_config discover c callback_url =
     (case discover (issuer_url (con_spec c)) of
        Inl e \<Rightarrow> Inl e
      | Inr d \<Rightarrow>
          (case validate_discovery_config d of
             Some e \<Rightarrow> Inl e
           | None \<Rightarrow> Inr \<lparr>oc_client_id = client_id (con_spec c), oc_client_secret = client_secret (con_spec c),
               oc_redirect_url = callback_url, oc_scopes = connector_scopes c,
               oc_auth_url = dc_authorization_endpoint (the d), oc_token_url = dc_token_endpoint (the d)\<rparr>))"

section \<open>The caching validator (caching_token_validator.go)\<close>

definition discovery_ttl :: int where "discovery_ttl = 3600 * second"
definition key_set_ttl :: int where "key_set_ttl = 24 * 3600 * second"

text \<open>A key set fetches the keys at its URI when asked; it is known by that URI.\<close>

record validator =
  va_discovery :: "discovery option"
  va_discovery_expires :: "int option"
  va_last_jwks_uri :: string
  va_key_set :: "string option"
  va_key_set_expires :: "int option"

definition new_validator :: validator where
  "new_validator = \<lparr>va_discovery = None, va_discovery_expires = None, va_last_jwks_uri = [],
     va_key_set = None, va_key_set_expires = None\<rparr>"

definition after_opt :: "int \<Rightarrow> int option \<Rightarrow> bool" where
  "after_opt now e = (case e of None \<Rightarrow> False | Some t \<Rightarrow> t < now)"

definition drop_expired_discovery :: "int \<Rightarrow> validator \<Rightarrow> validator" where
  "drop_expired_discovery now v =
     (if after_opt now (va_discovery_expires v) then v\<lparr>va_discovery := None, va_discovery_expires := None\<rparr> else v)"

definition set_discovery :: "int \<Rightarrow> discovery \<Rightarrow> validator \<Rightarrow> validator" where
  "set_discovery now dc v =
     (let v1 = v\<lparr>va_discovery := Some dc, va_discovery_expires := Some (now + discovery_ttl)\<rparr>;
          v2 = (if va_last_jwks_uri v1 \<noteq> [] \<and> va_last_jwks_uri v1 \<noteq> dc_jwks_uri dc
                then v1\<lparr>va_key_set := None, va_key_set_expires := None\<rparr> else v1)
      in v2\<lparr>va_last_jwks_uri := dc_jwks_uri dc\<rparr>)"

definition drop_expired_key_set :: "int \<Rightarrow> validator \<Rightarrow> validator" where
  "drop_expired_key_set now v =
     (if after_opt now (va_key_set_expires v) then v\<lparr>va_key_set := None, va_key_set_expires := None\<rparr> else v)"

definition fresh_key_set :: "int \<Rightarrow> validator \<Rightarrow> validator" where
  "fresh_key_set now v =
     (if va_key_set v = None
      then v\<lparr>va_key_set := Some (case va_discovery v of None \<Rightarrow> [] | Some dc \<Rightarrow> dc_jwks_uri dc),
             va_key_set_expires := Some (now + key_set_ttl)\<rparr> else v)"

definition get_key_set :: "discovery result \<Rightarrow> int \<Rightarrow> validator \<Rightarrow> string result \<times> validator" where
  "get_key_set discovered now v =
     (let v1 = drop_expired_discovery now v in
      case (if va_discovery v1 = None then
              (case discovered of Inl e \<Rightarrow> Inl e | Inr dc \<Rightarrow> Inr (set_discovery now dc v1))
            else Inr v1) of
        Inl e \<Rightarrow> (Inl e, v1)
      | Inr v2 \<Rightarrow>
          let v3 = fresh_key_set now (drop_expired_key_set now v2) in
          (Inr (case va_key_set v3 of None \<Rightarrow> [] | Some k \<Rightarrow> k), v3))"

section \<open>Where an allowed request goes\<close>

definition google_hosts :: "string set" where
  "google_hosts = {''accounts.google.com'', ''oauth2.googleapis.com'', ''www.googleapis.com''}"

lemma allowed_shape:
  assumes "s \<in> set allowed_endpoints"
  obtains h rest where "s = ''https://'' @ h @ CHR ''/'' # rest" "h \<in> google_hosts" "CHR ''/'' \<notin> set h"
    "CHR ''@'' \<notin> set s" "CHR ''?'' \<notin> set s" "CHR ''#'' \<notin> set s" "CHR ''%'' \<notin> set s"
    "CHR '':'' \<notin> set h" "CHR '':'' \<notin> set rest"
proof -
  from assms consider "s = google_discovery_endpoint" | "s = google_token_endpoint" | "s = google_jwks_endpoint"
    by (auto simp: allowed_endpoints_def)
  then show thesis
  proof cases
    case 1
    show ?thesis
      by (rule that [of "''accounts.google.com''" "''.well-known/openid-configuration''"])
         (simp_all add: 1 google_discovery_endpoint_def google_hosts_def)
  next
    case 2
    show ?thesis
      by (rule that [of "''oauth2.googleapis.com''" "''token''"])
         (simp_all add: 2 google_token_endpoint_def google_hosts_def)
  next
    case 3
    show ?thesis
      by (rule that [of "''www.googleapis.com''" "''oauth2/v3/certs''"])
         (simp_all add: 3 google_jwks_endpoint_def google_hosts_def)
  qed
qed

lemma upper_hex_not_slash: "n < 16 \<Longrightarrow> upper_hex n \<noteq> CHR ''/''"
proof
  assume n: "n < 16" and e: "upper_hex n = CHR ''/''"
  from e have "byte (upper_hex n) = 47" by simp
  moreover have "byte (upper_hex n) = (if n < 10 then 48 + n else 55 + n)"
    using n unfolding upper_hex_def by (subst of_char_of) auto
  ultimately show False using n by (auto split: if_split_asm)
qed

lemma escape_host_no_slash: "CHR ''/'' \<notin> set (escape EncodeHost s)"
proof -
  have "CHR ''/'' \<notin> set (escape_char EncodeHost c)" for c
  proof (cases "should_escape EncodeHost c")
    case True
    have "byte c div 16 < 16" using nat_of_char_less_256 [of c] by linarith
    then have "upper_hex (byte c div 16) \<noteq> CHR ''/''" "upper_hex (byte c mod 16) \<noteq> CHR ''/''"
      by (simp_all add: upper_hex_not_slash)
    with True show ?thesis by (simp add: escape_char_def eq_commute [of "CHR ''/''"])
  next
    case False
    have "should_escape EncodeHost (CHR ''/'')" by (simp add: should_escape_def is_alnum_def)
    with False show ?thesis by (auto simp: escape_char_def)
  qed
  then show ?thesis by (auto simp: escape_def)
qed

lemma escape_no_percent: "CHR ''%'' \<notin> set (escape m s) \<Longrightarrow> escape m s = s"
  by (induction s) (auto simp: escape_def escape_char_def split: if_split_asm)

lemma split_at_first:
  "a @ b = c @ x # d \<Longrightarrow> x \<notin> set a \<Longrightarrow> x \<notin> set c \<Longrightarrow> b = [] \<or> hd b = x \<Longrightarrow> b \<noteq> [] \<Longrightarrow> a = c"
proof -
  assume e: "a @ b = c @ x # d" and x: "x \<notin> set a" "x \<notin> set c" and b: "b = [] \<or> hd b = x" "b \<noteq> []"
  then obtain b' where b': "b = x # b'" by (cases b) auto
  have t: "takeWhile (\<lambda>y. y \<noteq> x) (u @ x # v) = u" if "x \<notin> set u" for u v using that by (induction u) auto
  show "a = c" using t [OF x(1), of b'] t [OF x(2), of d] e b' by simp
qed

lemma hierarchical_string:
  assumes "url_opaque (ep_url e) = []" and "url_host (ep_url e) \<noteq> []"
  shows "\<exists>tail. url_string e =
      (if url_scheme (ep_url e) \<noteq> [] then url_scheme (ep_url e) @ '':'' else []) @ ''//''
      @ (if url_user (ep_url e) then ep_userinfo e @ ''@'' else []) @ escape EncodeHost (url_host (ep_url e)) @ tail
      @ (if url_force_query (ep_url e) \<or> url_raw_query (ep_url e) \<noteq> [] then ''?'' @ url_raw_query (ep_url e) else [])
      @ (if url_fragment (ep_url e) \<noteq> [] then ''#'' @ escape EncodeFragment (url_fragment (ep_url e)) else [])
    \<and> (tail = [] \<or> hd tail = CHR ''/'')"
  using assms
  by (intro exI [of _ "(if escaped_path (ep_url e) \<noteq> [] \<and> hd (escaped_path (ep_url e)) \<noteq> CHR ''/'' then ''/'' else [])
      @ escaped_path (ep_url e)"]) (auto simp: url_string_def Let_def)

lemma allowed_endpoint_host:
  assumes "is_allowed_endpoint (Some e)" and "url_opaque (ep_url e) = []" and "url_host (ep_url e) \<noteq> []"
  shows "url_scheme (ep_url e) = ''https''" and "url_host (ep_url e) \<in> google_hosts" and "\<not> url_user (ep_url e)"
    and "url_raw_query (ep_url e) = []" and "url_fragment (ep_url e) = []"
proof -
  let ?u = "ep_url e" let ?H = "escape EncodeHost (url_host (ep_url e))"
  from assms(1) have "url_string e \<in> set allowed_endpoints" by (simp add: is_allowed_endpoint_def)
  then obtain h rest where s: "url_string e = ''https://'' @ h @ CHR ''/'' # rest" "h \<in> google_hosts" "CHR ''/'' \<notin> set h"
    and no: "CHR ''@'' \<notin> set (url_string e)" "CHR ''?'' \<notin> set (url_string e)" "CHR ''#'' \<notin> set (url_string e)"
      "CHR ''%'' \<notin> set (url_string e)" and col: "CHR '':'' \<notin> set h" "CHR '':'' \<notin> set rest"
    by (rule allowed_shape)
  obtain tail where t: "url_string e =
      (if url_scheme ?u \<noteq> [] then url_scheme ?u @ '':'' else []) @ ''//''
      @ (if url_user ?u then ep_userinfo e @ ''@'' else []) @ ?H @ tail
      @ (if url_force_query ?u \<or> url_raw_query ?u \<noteq> [] then ''?'' @ url_raw_query ?u else [])
      @ (if url_fragment ?u \<noteq> [] then ''#'' @ escape EncodeFragment (url_fragment ?u) else [])"
    and tl: "tail = [] \<or> hd tail = CHR ''/''" using hierarchical_string [OF assms(2,3)] by blast
  from no t show u: "\<not> url_user ?u" and q: "url_raw_query ?u = []" and f: "url_fragment ?u = []"
    by (auto split: if_split_asm)
  from no t have fq: "\<not> url_force_query ?u" by (auto split: if_split_asm)
  have sc: "url_scheme ?u \<noteq> []" using t s(1) by (auto split: if_split_asm)
  with t u q f fq have eq: "url_scheme ?u @ CHR '':'' # ''//'' @ ?H @ tail = ''https://'' @ h @ CHR ''/'' # rest"
    using s(1) by simp
  have "CHR '':'' \<notin> set (url_scheme ?u)"
  proof
    assume "CHR '':'' \<in> set (url_scheme ?u)"
    then have "2 \<le> count_list (url_scheme ?u @ CHR '':'' # ''//'' @ ?H @ tail) (CHR '':'')"
      using count_list_0_iff [of "url_scheme ?u" "CHR '':''"] by simp
    then show False using col unfolding eq by (simp add: count_notin)
  qed
  with eq have "cut (CHR '':'') (''https'' @ CHR '':'' # ''//'' @ h @ CHR ''/'' # rest) =
      (url_scheme ?u, ''//'' @ ?H @ tail, True)" by (metis append.assoc append_Cons append_Nil cut_append)
  then show "url_scheme ?u = ''https''" by (simp add: cut_def)
  with eq have e2: "?H @ tail = h @ CHR ''/'' # rest" by simp
  have ne: "tail \<noteq> []" using e2 escape_host_no_slash [of "url_host ?u"] by (metis append_Nil2 in_set_conv_decomp)
  have "?H = h" using split_at_first [OF e2 escape_host_no_slash s(3) tl ne] .
  moreover have "CHR ''%'' \<notin> set ?H" using no(4) t by auto
  ultimately show "url_host ?u \<in> google_hosts" using escape_no_percent s(2) by metis
qed

text \<open>
  A request that passes the allow-list goes to Google over HTTPS. For a URL with a host and
  no opaque part, which is what parsing an absolute URL gives, the scheme is \<^verbatim>\<open>https\<close>, the host is
  one of the three Google hosts, and there is no user information, query or fragment.
\<close>

theorem allowed_request_goes_to_google:
  assumes "is_allowed_endpoint (Some e)" and "url_opaque (ep_url e) = []" and "url_host (ep_url e) \<noteq> []"
  shows "url_scheme (ep_url e) = ''https'' \<and> url_host (ep_url e) \<in> google_hosts \<and> \<not> url_user (ep_url e)
    \<and> url_raw_query (ep_url e) = [] \<and> url_fragment (ep_url e) = []"
  using allowed_endpoint_host [OF assms] by blast

definition sample_endpoint :: endpoint where
  "sample_endpoint = \<lparr>ep_url = no_url\<lparr>url_scheme := ''https'', url_host := ''oauth2.googleapis.com'',
     url_path := ''/token''\<rparr>, ep_userinfo = [], ep_omit_host = False\<rparr>"

lemma sample_allowed: "is_allowed_endpoint (Some sample_endpoint)"
  by code_simp

theorem allowed_request_goes_to_google_witness:
  "url_scheme (ep_url sample_endpoint) = ''https'' \<and> url_host (ep_url sample_endpoint) \<in> google_hosts"
  using allowed_request_goes_to_google [OF sample_allowed] by (simp add: sample_endpoint_def no_url_def)

section \<open>The restricted client\<close>

text \<open>A transport that also records what it is asked.\<close>

definition recording :: "('q, 'r, 'w) round_tripper \<Rightarrow> ('q, 'r, 'q request list \<times> 'w) round_tripper" where
  "recording t req lw = (let (r, w') = t req (snd lw) in (r, fst lw @ [req], w'))"

lemma client_do_restricted:
  fixes t :: "('q, 'r, 'w) round_tripper"
  assumes "cl = \<lparr>cl_transport = Some (allow_list_round_trip (recording t)),
      cl_check_redirect = Some (allow_list_redirect None)\<rparr>"
  shows "via < 10 \<Longrightarrow> n = 10 - via \<Longrightarrow>
    \<exists>r l' w'. client_do cl redirect_of n via req (l, w) = Some (r, l @ l', w') \<and> length l' \<le> n
      \<and> (\<forall>q \<in> set l'. is_allowed_endpoint (rq_endpoint q))"
proof (induction n arbitrary: via req l w)
  case (Suc n)
  obtain r w1 where t: "t req w = (r, w1)" by fastforce
  show ?case
  proof (cases "is_allowed_endpoint (rq_endpoint req)")
    case False
    then show ?thesis by (simp add: assms allow_list_round_trip_def)
  next
    case True
    then have st: "allow_list_round_trip (recording t) req (l, w) = (r, l @ [req], w1)"
      using t by (simp add: allow_list_round_trip_def recording_def)
    show ?thesis
    proof (cases r)
      case (Inl e)
      with st True show ?thesis by (simp add: assms)
    next
      case (Inr resp)
      show ?thesis
      proof (cases "redirect_of req resp")
        case None
        with Inr st True show ?thesis by (simp add: assms)
      next
        case (Some req')
        show ?thesis
        proof (cases "allow_list_redirect None req' (via + 1)")
          case refused: (Some e)
          with Some Inr st True show ?thesis by (simp add: assms)
        next
          case None
          then have v: "via + 1 < 10"
            by (auto simp: allow_list_redirect_def max_redirects_def split: if_split_asm)
          with Suc.prems have "n = 10 - (via + 1)" by simp
          from Suc.IH [OF v this, of req' "l @ [req]" w1] obtain r2 l2 w2 where
            "client_do cl redirect_of n (via + 1) req' (l @ [req], w1) = Some (r2, (l @ [req]) @ l2, w2)"
            "length l2 \<le> n" "\<forall>q \<in> set l2. is_allowed_endpoint (rq_endpoint q)" by blast
          with None Some Inr st True show ?thesis by (simp add: assms)
        qed
      qed
    qed
  qed
qed simp

text \<open>
  Property C31: the restricted client never leaves the allow-list. Whatever the network answers and
  whatever redirects it sends, \<^verbatim>\<open>Do\<close> returns, the wrapped transport sees at most ten requests, and
  every one of them is to an allowed endpoint.
\<close>

theorem restricted_client_stays_on_allow_list:
  fixes t :: "('q, 'r, 'w) round_tripper"
  assumes "restrict_client_to_google
      (Some \<lparr>cl_transport = Some (recording t), cl_check_redirect = None\<rparr>) = Inr cl"
  shows "\<exists>r sent w'. client_do cl redirect_of 10 0 req ([], w) = Some (r, sent, w') \<and> length sent \<le> 10
    \<and> (\<forall>q \<in> set sent. is_allowed_endpoint (rq_endpoint q))"
proof -
  from assms have "cl = \<lparr>cl_transport = Some (allow_list_round_trip (recording t)),
      cl_check_redirect = Some (allow_list_redirect None)\<rparr>"
    by (simp add: restrict_client_to_google_def)
  from client_do_restricted [OF this, of 0 10 redirect_of req "[]" w] show ?thesis by simp
qed

definition sample_transport :: "(unit, nat, unit) round_tripper" where
  "sample_transport = (\<lambda>_ w. (Inr 302, w))"

theorem restricted_client_stays_on_allow_list_witness:
  "\<exists>r sent w'. client_do \<lparr>cl_transport = Some (allow_list_round_trip (recording sample_transport)),
      cl_check_redirect = Some (allow_list_redirect None)\<rparr> (\<lambda>q _. Some q) 10 0
      \<lparr>rq_endpoint = Some sample_endpoint, rq_rest = ()\<rparr> ([], ()) = Some (r, sent, w')
    \<and> length sent \<le> 10 \<and> list_all (\<lambda>q. is_allowed_endpoint (rq_endpoint q)) sent"
  unfolding list_all_iff
  by (rule restricted_client_stays_on_allow_list [where t = sample_transport])
     (simp add: restrict_client_to_google_def)

section \<open>Bounds, discovery and key sets\<close>

lemma limit_reads_bound:
  "\<forall>(len, inner) \<in> set rs. \<forall>k. fst (inner k) \<le> k \<Longrightarrow> limit_reads n rs \<le> n"
proof (induction rs arbitrary: n)
  case (Cons p rs)
  obtain len inner where p: "p = (len, inner)" by fastforce
  obtain got e where g: "inner (min len n) = (got, e)" by fastforce
  from Cons.prems p have "\<forall>k. fst (inner k) \<le> k" by simp
  then have "fst (inner (min len n)) \<le> min len n" by blast
  with g have got: "got \<le> n" by simp
  have "limit_reads (n - got) rs \<le> n - got" using Cons by simp
  with got show ?case by (cases "n = 0") (auto simp: p limit_read_def g)
qed simp

text \<open>
  A caller of the bounded round tripper gets at most one byte more than 1 MiB of a
  response body, however it sizes its reads, when the reader below keeps the contract of
  \<^verbatim>\<open>io.Reader\<close> (it returns no more than the buffer holds).
\<close>

theorem response_body_bounded:
  assumes "\<forall>(len, inner) \<in> set rs. \<forall>k. fst (inner k) \<le> k"
  shows "limit_reads (max_data_size + 1) rs \<le> max_data_size + 1"
  using limit_reads_bound [OF assms] .

theorem response_body_bounded_witness:
  "limit_reads (max_data_size + 1) [(4096, \<lambda>k. (k, None)), (4096, \<lambda>k. (0, None))] \<le> max_data_size + 1"
  by (rule response_body_bounded) simp

text \<open>
  The authorization URL and the token URL of a login are Google's own, and \<^verbatim>\<open>openid\<close> is
  requested exactly once, first: a discovery document that names any other endpoint is refused.
\<close>

theorem oauth2_config_pinned:
  assumes "new_oauth2_config discover c callback = Inr cfg"
  shows "oc_auth_url cfg = google_authorization_endpoint \<and> oc_token_url cfg = google_token_endpoint
    \<and> oc_redirect_url cfg = callback \<and> hd (oc_scopes cfg) = ''openid'' \<and> count_list (oc_scopes cfg) ''openid'' = 1
    \<and> set (oc_scopes cfg) \<subseteq> insert ''openid'' (set (scope (con_spec c)))"
  using assms
  by (auto simp: new_oauth2_config_def validate_discovery_config_def connector_scopes_def
      split: sum.split_asm option.split_asm if_split_asm)

definition sample_discovery :: discovery where
  "sample_discovery = \<lparr>dc_issuer = google_issuer, dc_authorization_endpoint = google_authorization_endpoint,
     dc_token_endpoint = google_token_endpoint, dc_jwks_uri = google_jwks_endpoint\<rparr>"

definition sample_oauth2 :: oauth2_config where
  "sample_oauth2 = \<lparr>oc_client_id = ''cid'', oc_client_secret = ''sec'', oc_redirect_url = ''https://p/cb'',
     oc_scopes = [''openid'', ''email'', cloud_identity_groups_read_scope],
     oc_auth_url = google_authorization_endpoint, oc_token_url = google_token_endpoint\<rparr>"

lemma sample_oauth2_eq:
  "new_oauth2_config (\<lambda>_. Inr (Some sample_discovery)) sample_connector ''https://p/cb'' = Inr sample_oauth2"
  by (simp add: new_oauth2_config_def validate_discovery_config_def connector_scopes_def sample_discovery_def
      sample_connector_def sample_spec_def sample_oauth2_def cloud_identity_groups_read_scope_def)

theorem oauth2_config_pinned_witness:
  "oc_auth_url sample_oauth2 = google_authorization_endpoint \<and> count_list (oc_scopes sample_oauth2) ''openid'' = 1"
  using oauth2_config_pinned [OF sample_oauth2_eq] by blast

text \<open>The states a validator reaches, and what holds of them when every discovery document names a
  key set URI.\<close>

inductive validator_reach :: "(discovery \<Rightarrow> bool) \<Rightarrow> validator \<Rightarrow> bool" for ok where
  new: "validator_reach ok new_validator"
| step: "validator_reach ok v \<Longrightarrow> (\<And>dc. d = Inr dc \<Longrightarrow> ok dc) \<Longrightarrow> get_key_set d now v = (r, v') \<Longrightarrow>
    validator_reach ok v'"

definition validator_inv :: "validator \<Rightarrow> bool" where
  "validator_inv v \<longleftrightarrow> (\<forall>k. va_key_set v = Some k \<longrightarrow> k = va_last_jwks_uri v \<and> k \<noteq> [])
     \<and> (\<forall>dc. va_discovery v = Some dc \<longrightarrow> dc_jwks_uri dc = va_last_jwks_uri v \<and> dc_jwks_uri dc \<noteq> [])
     \<and> (va_key_set v = None \<longleftrightarrow> va_key_set_expires v = None)
     \<and> (va_discovery v = None \<longleftrightarrow> va_discovery_expires v = None)"

lemma drop_expired_discovery_inv: "validator_inv v \<Longrightarrow> validator_inv (drop_expired_discovery now v)"
  by (auto simp: validator_inv_def drop_expired_discovery_def)

lemma set_discovery_inv:
  "validator_inv v \<Longrightarrow> dc_jwks_uri dc \<noteq> [] \<Longrightarrow> validator_inv (set_discovery now dc v)"
  by (auto simp: validator_inv_def set_discovery_def Let_def)

lemma key_set_steps_inv:
  "validator_inv v \<Longrightarrow> va_discovery v \<noteq> None \<Longrightarrow> validator_inv (fresh_key_set now (drop_expired_key_set now v))"
  by (auto simp: validator_inv_def fresh_key_set_def drop_expired_key_set_def)

lemma get_key_set_cases:
  assumes "get_key_set d now v = (r, v')"
  obtains (failed) e where "r = Inl e" "v' = drop_expired_discovery now v"
  | (ok) v2 k where "r = Inr k" "v' = fresh_key_set now (drop_expired_key_set now v2)" "va_key_set v' = Some k"
      "va_discovery v2 \<noteq> None" "v2 = drop_expired_discovery now v
        \<or> (\<exists>dc. d = Inr dc \<and> v2 = set_discovery now dc (drop_expired_discovery now v))"
proof -
  let ?v1 = "drop_expired_discovery now v"
  have ks: "va_key_set (fresh_key_set now w) \<noteq> None" for w by (simp add: fresh_key_set_def)
  show thesis
  proof (cases "va_discovery ?v1 = None")
    case False
    with assms ks [of "drop_expired_key_set now ?v1"] show ?thesis
      by (intro ok [of _ ?v1]) (auto simp: get_key_set_def Let_def)
  next
    case True
    show ?thesis
    proof (cases d)
      case (Inl e)
      with True assms show ?thesis by (intro failed [of e]) (auto simp: get_key_set_def Let_def)
    next
      case (Inr dc)
      let ?v2 = "set_discovery now dc ?v1"
      have "va_discovery ?v2 \<noteq> None" by (simp add: set_discovery_def Let_def)
      with True Inr assms ks [of "drop_expired_key_set now ?v2"] show ?thesis
        by (intro ok [of _ ?v2]) (auto simp: get_key_set_def Let_def)
    qed
  qed
qed

lemma get_key_set_inv:
  assumes "get_key_set d now v = (r, v')" and "validator_inv v" and "\<And>dc. d = Inr dc \<Longrightarrow> dc_jwks_uri dc \<noteq> []"
  shows "validator_inv v'"
  using assms(1)
proof (cases rule: get_key_set_cases)
  case failed
  with drop_expired_discovery_inv [OF assms(2)] show ?thesis by simp
next
  case (ok v2 k)
  have "validator_inv v2"
    using ok(5) drop_expired_discovery_inv [OF assms(2), of now] set_discovery_inv assms(3) by blast
  with ok key_set_steps_inv show ?thesis by blast
qed

lemma validator_reach_inv: "validator_reach (\<lambda>dc. dc_jwks_uri dc \<noteq> []) v \<Longrightarrow> validator_inv v"
proof (induction rule: validator_reach.induct)
  case new
  then show ?case by (simp add: validator_inv_def new_validator_def)
next
  case (step v d now r v')
  then show ?case using get_key_set_inv by blast
qed

lemma get_key_set_state:
  assumes "get_key_set d now v = (Inr k, v')" and "validator_inv v'"
  shows "\<exists>dc t s. va_discovery v' = Some dc \<and> k = dc_jwks_uri dc \<and> va_discovery_expires v' = Some t \<and> now \<le> t
    \<and> va_key_set_expires v' = Some s \<and> now \<le> s"
proof -
  obtain v2 where v2: "v' = fresh_key_set now (drop_expired_key_set now v2)" "va_key_set v' = Some k"
      "va_discovery v2 \<noteq> None" "v2 = drop_expired_discovery now v
        \<or> (\<exists>dc. d = Inr dc \<and> v2 = set_discovery now dc (drop_expired_discovery now v))"
    using assms(1) by (cases rule: get_key_set_cases) auto
  have "va_discovery_expires (set_discovery now dc w) = Some (now + discovery_ttl)" for dc w
    by (simp add: set_discovery_def Let_def)
  moreover have "\<not> after_opt now (va_discovery_expires (drop_expired_discovery now v))"
    by (simp add: drop_expired_discovery_def after_opt_def)
  ultimately have "\<not> after_opt now (va_discovery_expires v2)"
    using v2(4) by (auto simp: after_opt_def discovery_ttl_def second_def)
  then have "va_discovery v' \<noteq> None" "\<not> after_opt now (va_discovery_expires v')"
    using v2(1,3) by (simp_all add: fresh_key_set_def drop_expired_key_set_def)
  moreover have "\<not> after_opt now (va_key_set_expires v')"
    using v2(1) by (simp add: fresh_key_set_def drop_expired_key_set_def after_opt_def key_set_ttl_def second_def)
  ultimately show ?thesis using assms(2) v2(2)
    by (cases "va_discovery v'"; cases "va_discovery_expires v'"; cases "va_key_set_expires v'")
       (auto simp: validator_inv_def after_opt_def)
qed

text \<open>
  The keys a token is checked against are current. In every state a validator reaches
  with discovery documents that name a key set URI, a successful \<^verbatim>\<open>getKeySet\<close> returns the key set of the
  URI in the document it holds; that document was fetched at most one hour ago and the key set
  was created at most a day ago.
\<close>

theorem key_set_current:
  assumes "validator_reach (\<lambda>dc. dc_jwks_uri dc \<noteq> []) v" and "get_key_set d now v = (Inr k, v')"
    and "\<And>dc. d = Inr dc \<Longrightarrow> dc_jwks_uri dc \<noteq> []"
  shows "\<exists>dc t s. va_discovery v' = Some dc \<and> k = dc_jwks_uri dc \<and> va_discovery_expires v' = Some t \<and> now \<le> t
    \<and> va_key_set_expires v' = Some s \<and> now \<le> s"
  using get_key_set_state [OF assms(2) get_key_set_inv [OF assms(2) validator_reach_inv [OF assms(1)] assms(3)]]
  by blast

definition sample_validator :: validator where
  "sample_validator = \<lparr>va_discovery = Some sample_discovery, va_discovery_expires = Some (5 + discovery_ttl),
     va_last_jwks_uri = google_jwks_endpoint, va_key_set = Some google_jwks_endpoint,
     va_key_set_expires = Some (5 + key_set_ttl)\<rparr>"

lemma sample_validator_eq:
  "get_key_set (Inr sample_discovery) 5 new_validator = (Inr google_jwks_endpoint, sample_validator)"
  by (simp add: get_key_set_def new_validator_def drop_expired_discovery_def set_discovery_def fresh_key_set_def
      drop_expired_key_set_def after_opt_def sample_validator_def sample_discovery_def)

theorem key_set_current_witness:
  "\<exists>dc t s. va_discovery sample_validator = Some dc \<and> google_jwks_endpoint = dc_jwks_uri dc
    \<and> va_discovery_expires sample_validator = Some t \<and> 5 \<le> t \<and> va_key_set_expires sample_validator = Some s \<and> 5 \<le> s"
  by (rule key_set_current [OF validator_reach.new sample_validator_eq])
     (simp add: sample_discovery_def google_jwks_endpoint_def)

text \<open>
  The hypothesis is needed. A document without a key set URI leaves a key set that a later
  document does not replace, because the code compares with the last URI only when that is not
  empty: here, after the first document has expired, the document names Google's URI and the key
  set returned is still that of the empty one.
\<close>

theorem key_set_stale_after_empty_uri:
  "\<exists>v r v'. validator_reach (\<lambda>_. True) v \<and> get_key_set (Inr sample_discovery) (2 * discovery_ttl) v = (r, v')
     \<and> va_discovery v' = Some sample_discovery \<and> r = Inr []"
proof -
  let ?d = "sample_discovery\<lparr>dc_jwks_uri := []\<rparr>"
  define v where "v = snd (get_key_set (Inr ?d) 0 new_validator)"
  have "validator_reach (\<lambda>_. True) v"
    unfolding v_def by (rule validator_reach.step [OF validator_reach.new]) (auto intro: surjective_pairing)
  moreover have "fst (get_key_set (Inr sample_discovery) (2 * discovery_ttl) v) = Inr []"
    and "va_discovery (snd (get_key_set (Inr sample_discovery) (2 * discovery_ttl) v)) = Some sample_discovery"
    by (simp_all add: v_def get_key_set_def new_validator_def drop_expired_discovery_def set_discovery_def
        fresh_key_set_def drop_expired_key_set_def after_opt_def sample_discovery_def discovery_ttl_def
        key_set_ttl_def second_def)
  ultimately show ?thesis by (metis surjective_pairing)
qed

end
