(* ===== verification/Replace.thy ===== *)
theory Replace
  imports GoText
begin

text \<open>
  Teleport's matching expressions, \<^verbatim>\<open>lib/utils/replace.go\<close>: an expression that starts with \<^verbatim>\<open>^\<close> and
  ends with \<^verbatim>\<open>$\<close> is a raw regular expression, any other is a glob whose \<^verbatim>\<open>*\<close> is the group \<^verbatim>\<open>(.*)\<close> and
  whose other runes stand for themselves. The glob is matched rune by rune as Go's \<^verbatim>\<open>regexp\<close> does,
  its groups greedy; a template is expanded as \<^verbatim>\<open>Regexp.ReplaceAllString\<close> expands it. A raw regular
  expression goes to the parameter \<open>raw_regexp\<close>. The cache of compiled expressions holds no state
  that a result depends on.
\<close>

section \<open>From globs to regular expressions\<close>

definition meta_chars :: string where
  "meta_chars = [CHR 0x5C] @ ''.+*?()|[]{}^$''"

definition quote_meta :: "string \<Rightarrow> string" where
  "quote_meta s = concat (map (\<lambda>c. if c \<in> set meta_chars then [CHR 0x5C, c] else [c]) s)"

text \<open>\<^verbatim>\<open>replaceWildcard.ReplaceAllString(s, "(.*)")\<close>: every \<^verbatim>\<open>\*\<close>, from the left.\<close>

fun replace_wildcard :: "string \<Rightarrow> string" where
  "replace_wildcard (a # b # s) =
     (if a = CHR 0x5C \<and> b = CHR ''*'' then ''(.*)'' @ replace_wildcard s
      else a # replace_wildcard (b # s))"
| "replace_wildcard s = s"

definition glob_to_regexp :: "string \<Rightarrow> string" where
  "glob_to_regexp s = replace_wildcard (quote_meta s)"

definition is_regexp :: "string \<Rightarrow> bool" where
  "is_regexp e \<longleftrightarrow> starts_with ''^'' e \<and> ends_with ''$'' e"

definition expression_to_regexp :: "string \<Rightarrow> string" where
  "expression_to_regexp e = (if is_regexp e then e else ''^'' @ glob_to_regexp e @ ''$'')"

text \<open>\<^verbatim>\<open>reExpansion\<close>, \<^verbatim>\<open>\$[^\$]+\<close>: a dollar sign that another character follows.\<close>

fun contains_expansion :: "string \<Rightarrow> bool" where
  "contains_expansion (a # b # s) \<longleftrightarrow> a = CHR ''$'' \<and> b \<noteq> CHR ''$'' \<or> contains_expansion (b # s)"
| "contains_expansion s \<longleftrightarrow> False"

section \<open>Compiled expressions\<close>

datatype regexp = Glob bool "nat list" | Raw "string \<Rightarrow> string \<Rightarrow> string option"

definition compile_expression :: "golib \<Rightarrow> bool \<Rightarrow> string \<Rightarrow> regexp result" where
  "compile_expression U ignore_case e =
     (if is_regexp e then
        (case raw_regexp U ignore_case e of
           None \<Rightarrow> Inl (Err BadParameter ''error parsing regexp'')
         | Some f \<Rightarrow> Inr (Raw f))
      else if valid_utf8 e then Inr (Glob ignore_case (runes e))
      else Inl (Err BadParameter ''error parsing regexp: invalid UTF-8''))"

definition rune_matches :: "golib \<Rightarrow> bool \<Rightarrow> nat \<Rightarrow> nat \<Rightarrow> bool" where
  "rune_matches U ignore_case p r \<longleftrightarrow> (if ignore_case then fold_rune U p = fold_rune U r else p = r)"

fun first_some :: "('a \<Rightarrow> 'b option) \<Rightarrow> 'a list \<Rightarrow> 'b option" where
  "first_some f [] = None"
| "first_some f (x # xs) = (case f x of Some y \<Rightarrow> Some y | None \<Rightarrow> first_some f xs)"

text \<open>The groups of the leftmost-first match: \<^verbatim>\<open>.*\<close> takes the longest run without a newline that lets
  the rest match.\<close>

primrec glob_match :: "(nat \<Rightarrow> nat \<Rightarrow> bool) \<Rightarrow> nat list \<Rightarrow> (nat \<times> string) list \<Rightarrow> string list option" where
  "glob_match eq [] = (\<lambda>inp. if inp = [] then Some [] else None)"
| "glob_match eq (p # ps) = (\<lambda>inp.
     if p = 42 then
       first_some (\<lambda>n. map_option (Cons (concat (map snd (take n inp)))) (glob_match eq ps (drop n inp)))
         (rev [0..<Suc (length (takeWhile (\<lambda>x. fst x \<noteq> 10) inp))])
     else case inp of [] \<Rightarrow> None | x # inp' \<Rightarrow> if eq p (fst x) then glob_match eq ps inp' else None)"

section \<open>Templates\<close>

definition is_digit_char :: "char \<Rightarrow> bool" where
  "is_digit_char c \<longleftrightarrow> 48 \<le> byte c \<and> byte c \<le> 57"

definition is_word_rune :: "golib \<Rightarrow> nat \<Rightarrow> bool" where
  "is_word_rune U r \<longleftrightarrow>
     (if r < 128 then 48 \<le> r \<and> r \<le> 57 \<or> 65 \<le> r \<and> r \<le> 90 \<or> 97 \<le> r \<and> r \<le> 122 \<or> r = 95 else uc_word U r)"

fun parse_num :: "nat \<Rightarrow> string \<Rightarrow> nat option" where
  "parse_num acc [] = Some acc"
| "parse_num acc (c # s) =
     (if is_digit_char c \<and> acc < 100000000 then parse_num (acc * 10 + (byte c - 48)) s else None)"

definition group_number :: "string \<Rightarrow> nat option" where
  "group_number name = (if hd name = CHR ''0'' \<and> 1 < length name then None else parse_num 0 name)"

definition extract_name :: "golib \<Rightarrow> string \<Rightarrow> (nat option \<times> string) option" where
  "extract_name U s =
     (if s = [] then None
      else let brace = (hd s = CHR ''{''); t = (if brace then tl s else s);
               name = concat (map snd (takeWhile (\<lambda>x. is_word_rune U (fst x)) (decode t)));
               rest = drop (length name) t in
        if name = [] then None
        else if brace then
          (case rest of [] \<Rightarrow> None
           | c # rest' \<Rightarrow> if c = CHR ''}'' then Some (group_number name, rest') else None)
        else Some (group_number name, rest))"

definition group_text :: "string list \<Rightarrow> nat option \<Rightarrow> string" where
  "group_text groups n = (case n of None \<Rightarrow> [] | Some i \<Rightarrow> if i < length groups then groups ! i else [])"

lemma extract_name_shorter: "extract_name U s = Some (n, rest) \<Longrightarrow> length rest < length s"
proof -
  assume a: "extract_name U s = Some (n, rest)"
  define t where "t = (if hd s = CHR ''{'' then tl s else s)"
  define name where "name = concat (map snd (takeWhile (\<lambda>x. is_word_rune U (fst x)) (decode t)))"
  from a have "s \<noteq> []" "name \<noteq> []" "length rest \<le> length (drop (length name) t)"
    unfolding extract_name_def t_def name_def
    by (auto simp: Let_def simp del: length_drop split: if_split_asm list.split_asm)
  moreover have "length t \<le> length s" by (simp add: t_def)
  ultimately show ?thesis by (cases name; cases s) auto
qed

lemma cut_shorter: "c \<in> set s \<Longrightarrow> cut c s = (a, b, f) \<Longrightarrow> length b < length s"
  using cut_found(1) [of c s a b f] by simp

function expand :: "golib \<Rightarrow> string list \<Rightarrow> string \<Rightarrow> string" where
  "expand U groups template =
     (if CHR ''$'' \<notin> set template then template
      else let (before, after, _) = cut (CHR ''$'') template in
        before @
        (if after \<noteq> [] \<and> hd after = CHR ''$'' then ''$'' @ expand U groups (tl after)
         else case extract_name U after of
             None \<Rightarrow> ''$'' @ expand U groups after
           | Some (n, rest) \<Rightarrow> group_text groups n @ expand U groups rest))"
  by pat_completeness auto

termination
proof (relation "measure (\<lambda>(U, groups, template). length template)", goal_cases)
  case (2 U groups template p before q after f)
  then have "length after < length template" using cut_shorter [of "CHR ''$''" template before after f] by simp
  then show ?case by simp
next
  case (3 U groups template p before q after f)
  then show ?case using cut_shorter [of "CHR ''$''" template before after f] by simp
next
  case (4 U groups template p before q after f e n rest)
  then show ?case
    using cut_shorter [of "CHR ''$''" template before after f] extract_name_shorter [of U after n rest] by simp
qed simp

declare expand.simps [simp del]

section \<open>Matching and replacing\<close>

definition replace_regexp_with :: "golib \<Rightarrow> regexp \<Rightarrow> string \<Rightarrow> string \<Rightarrow> string option" where
  "replace_regexp_with U e template input =
     (case e of
        Glob ic ps \<Rightarrow>
          map_option (\<lambda>groups. expand U (input # groups) template)
            (glob_match (rune_matches U ic) ps (decode input))
      | Raw f \<Rightarrow> f input template)"

definition replace_regexp :: "golib \<Rightarrow> string \<Rightarrow> string \<Rightarrow> string \<Rightarrow> string result" where
  "replace_regexp U e template input =
     (case compile_expression U False e of
        Inl er \<Rightarrow> Inl er
      | Inr re \<Rightarrow> (case replace_regexp_with U re template input of
                     None \<Rightarrow> Inl (Err NotFound ''no match found'') | Some out \<Rightarrow> Inr out))"

definition regexp_matches :: "golib \<Rightarrow> regexp \<Rightarrow> string \<Rightarrow> bool" where
  "regexp_matches U re input \<longleftrightarrow> replace_regexp_with U re [] input \<noteq> None"

definition match_string :: "golib \<Rightarrow> string \<Rightarrow> string \<Rightarrow> bool result" where
  "match_string U input e =
     (case compile_expression U False e of Inl er \<Rightarrow> Inl er | Inr re \<Rightarrow> Inr (regexp_matches U re input))"

fun slice_matches_regex :: "golib \<Rightarrow> string \<Rightarrow> string list \<Rightarrow> bool result" where
  "slice_matches_regex U input [] = Inr False"
| "slice_matches_regex U input (e # es) =
     (case match_string U input e of
        Inl er \<Rightarrow> Inl er
      | Inr r \<Rightarrow> if r then Inr True else slice_matches_regex U input es)"

definition regex_matches_any :: "golib \<Rightarrow> string list \<Rightarrow> string \<Rightarrow> bool result" where
  "regex_matches_any U inputs e =
     (case compile_expression U False e of
        Inl er \<Rightarrow> Inl er | Inr re \<Rightarrow> Inr (list_ex (regexp_matches U re) inputs))"

section \<open>The language of a glob\<close>

text \<open>What a glob matches, as a relation on runes: a \<^verbatim>\<open>*\<close> is any run without a newline.\<close>

fun glob_language :: "(nat \<Rightarrow> nat \<Rightarrow> bool) \<Rightarrow> nat list \<Rightarrow> nat list \<Rightarrow> bool" where
  "glob_language eq [] rs \<longleftrightarrow> rs = []"
| "glob_language eq (p # ps) rs \<longleftrightarrow>
     (if p = 42 then \<exists>a b. rs = a @ b \<and> 10 \<notin> set a \<and> glob_language eq ps b
      else \<exists>r b. rs = r # b \<and> eq p r \<and> glob_language eq ps b)"

lemma first_some_Some: "first_some f xs = Some y \<Longrightarrow> \<exists>x \<in> set xs. f x = Some y"
  by (induction xs) (auto split: option.splits)

lemma first_some_None: "first_some f xs = None \<longleftrightarrow> (\<forall>x \<in> set xs. f x = None)"
  by (induction xs) (auto split: option.splits)

lemma run_without:
  "n \<le> length (takeWhile P xs) \<Longrightarrow> x \<in> set (take n xs) \<Longrightarrow> P x"
  by (metis min.absorb1 set_takeWhileD takeWhile_eq_take take_take in_set_takeD)

lemma run_shorter: "xs = a @ b \<Longrightarrow> \<forall>x \<in> set a. P x \<Longrightarrow> length a \<le> length (takeWhile P xs)"
  by (simp add: takeWhile_append2)

lemma glob_match_language: "glob_match eq ps inp \<noteq> None \<longleftrightarrow> glob_language eq ps (map fst inp)"
proof (induction ps arbitrary: inp)
  case (Cons p ps)
  let ?n = "length (takeWhile (\<lambda>x. fst x \<noteq> 10) inp)"
  show ?case
  proof (cases "p = 42")
    case True
    have "glob_match eq (p # ps) inp \<noteq> None \<longleftrightarrow> (\<exists>n \<le> ?n. glob_match eq ps (drop n inp) \<noteq> None)"
      using True by (auto simp: first_some_None less_Suc_eq_le simp del: upt_Suc not_None_eq)
    also have "\<dots> \<longleftrightarrow> (\<exists>n \<le> ?n. glob_language eq ps (map fst (drop n inp)))" by (simp only: Cons.IH)
    also have "\<dots> \<longleftrightarrow> (\<exists>a b. map fst inp = a @ b \<and> 10 \<notin> set a \<and> glob_language eq ps b)"
    proof
      assume "\<exists>n \<le> ?n. glob_language eq ps (map fst (drop n inp))"
      then obtain n where n: "n \<le> ?n" "glob_language eq ps (map fst (drop n inp))" by blast
      have "map fst inp = map fst (take n inp) @ map fst (drop n inp)"
        by (metis append_take_drop_id map_append)
      moreover have "10 \<notin> set (map fst (take n inp))" using run_without [OF n(1)] by fastforce
      ultimately show "\<exists>a b. map fst inp = a @ b \<and> 10 \<notin> set a \<and> glob_language eq ps b"
        using n(2) by blast
    next
      assume "\<exists>a b. map fst inp = a @ b \<and> 10 \<notin> set a \<and> glob_language eq ps b"
      then obtain a b where ab: "map fst inp = a @ b" "10 \<notin> set a" "glob_language eq ps b" by blast
      then obtain u v where uv: "inp = u @ v" "map fst u = a" "map fst v = b"
        by (auto simp: map_eq_append_conv)
      have "\<forall>x \<in> set u. fst x \<noteq> 10" using ab(2) uv(2) by (metis image_eqI set_map)
      then have "length u \<le> ?n" using run_shorter [OF uv(1)] by blast
      moreover have "drop (length u) inp = v" using uv(1) by simp
      ultimately show "\<exists>n \<le> ?n. glob_language eq ps (map fst (drop n inp))" using ab(3) uv(3) by metis
    qed
    finally show ?thesis using True by simp
  next
    case False
    with Cons show ?thesis by (cases inp) auto
  qed
qed simp

lemma glob_language_literal:
  "42 \<notin> set ps \<Longrightarrow> glob_language eq ps rs \<longleftrightarrow> list_all2 eq ps rs"
  by (induction ps arbitrary: rs) (auto simp: list_all2_Cons1)

lemma glob_language_literal_eq: "42 \<notin> set ps \<Longrightarrow> glob_language (=) ps rs \<longleftrightarrow> rs = ps"
  by (auto simp: glob_language_literal list.rel_eq)

lemma rune_matches_exact [simp]: "rune_matches U False = (=)"
  by (intro ext) (simp add: rune_matches_def)

lemma runes_inj: "valid_utf8 s \<Longrightarrow> valid_utf8 t \<Longrightarrow> runes s = runes t \<Longrightarrow> s = t"
  by (metis encode_runes)

lemma replace_glob_Some:
  "replace_regexp_with U (Glob ic ps) template input \<noteq> None \<longleftrightarrow> glob_language (rune_matches U ic) ps (runes input)"
  by (simp add: replace_regexp_with_def glob_match_language [symmetric] runes_def del: not_None_eq)

lemma compile_glob:
  "compile_expression U ic e = Inr re \<Longrightarrow> \<not> is_regexp e \<Longrightarrow> re = Glob ic (runes e) \<and> valid_utf8 e"
  by (auto simp: compile_expression_def split: if_split_asm)

section \<open>Properties\<close>

text \<open>
  Matching a string against a glob is a full match rune by rune: it succeeds exactly
  when the runes of the input are those of the expression with every \<^verbatim>\<open>*\<close> replaced by a run of
  runes without a newline. An expression that is not valid UTF-8 is refused.
\<close>

theorem match_string_glob:
  assumes "\<not> is_regexp e"
  shows "match_string U input e =
    (if valid_utf8 e then Inr (glob_language (=) (runes e) (runes input))
     else Inl (Err BadParameter ''error parsing regexp: invalid UTF-8''))"
  using assms replace_glob_Some [of U False "runes e" "[]" input]
  by (simp add: match_string_def compile_expression_def regexp_matches_def del: not_None_eq)

theorem match_string_glob_witness:
  "match_string ascii_tables ''ann@ex.com'' ''*@ex.com'' =
     Inr (glob_language (=) (runes ''*@ex.com'') (runes ''ann@ex.com''))"
proof -
  have "\<not> is_regexp ''*@ex.com''" by (simp add: is_regexp_def starts_with_def)
  moreover have "valid_utf8 ''*@ex.com''" by (simp add: valid_utf8_def decode_ascii rune_error_def del: decode.simps(2))
  ultimately show ?thesis using match_string_glob [of "''*@ex.com''" ascii_tables "''ann@ex.com''"] by simp
qed

text \<open>
  An expression without \<^verbatim>\<open>*\<close> and without the form of a raw regular expression matches
  exactly itself, among inputs that are valid UTF-8: no character of it is interpreted.
\<close>

theorem match_string_literal:
  assumes "\<not> is_regexp e" and "CHR ''*'' \<notin> set e" and "valid_utf8 e" and "valid_utf8 input"
  shows "match_string U input e = Inr (input = e)"
proof -
  have "42 \<notin> set (runes e)" using assms(2) set_ascii_runes [of 42 e] by (simp add: char_of_def bit_0)
  then have "glob_language (=) (runes e) (runes input) \<longleftrightarrow> runes input = runes e"
    by (rule glob_language_literal_eq)
  moreover have "runes input = runes e \<longleftrightarrow> input = e" using runes_inj assms(3,4) by blast
  moreover have "match_string U input e = Inr (glob_language (=) (runes e) (runes input))"
    using assms(1,3) replace_glob_Some [of U False "runes e" "[]" input]
    by (simp add: match_string_def compile_expression_def regexp_matches_def del: not_None_eq)
  ultimately show ?thesis by simp
qed

theorem match_string_literal_witness: "match_string ascii_tables ''a.c'' ''a.b'' = Inr False"
  using match_string_literal [of "''a.b''" "''a.c''" ascii_tables]
  by (simp add: is_regexp_def starts_with_def valid_utf8_def decode_ascii rune_error_def del: decode.simps(2))

text \<open>How the text that \<^verbatim>\<open>regexp.Compile\<close> is given reads: literal characters, escaped ones, groups.\<close>

datatype token = Lit char | Star

fun read_regexp :: "string \<Rightarrow> token list option" where
  "read_regexp [] = Some []"
| "read_regexp (c # s) =
     (if c = CHR 0x5C then (case s of [] \<Rightarrow> None | d # s' \<Rightarrow> map_option (Cons (Lit d)) (read_regexp s'))
      else if c = CHR ''('' then
        (case s of a # b # d # s' \<Rightarrow>
           if [a, b, d] = ''.*)'' then map_option (Cons Star) (read_regexp s') else None
         | _ \<Rightarrow> None)
      else if c \<in> set meta_chars then None
      else map_option (Cons (Lit c)) (read_regexp s))"

lemma quote_meta_Cons:
  "quote_meta (c # s) = (if c \<in> set meta_chars then [CHR 0x5C, c] else [c]) @ quote_meta s"
  by (simp add: quote_meta_def)

lemma quote_meta_hd: "quote_meta s = CHR ''*'' # t \<Longrightarrow> False"
  by (cases s) (auto simp: quote_meta_def meta_chars_def split: if_split_asm)

lemma replace_wildcard_skip:
  "\<not> (c = CHR 0x5C \<and> (\<exists>t. s = CHR ''*'' # t)) \<Longrightarrow> replace_wildcard (c # s) = c # replace_wildcard s"
  by (cases s) auto

lemma glob_to_regexp_Cons:
  "glob_to_regexp (c # s) =
     (if c = CHR ''*'' then ''(.*)'' else if c \<in> set meta_chars then [CHR 0x5C, c] else [c]) @ glob_to_regexp s"
proof -
  have skip: "replace_wildcard (c # quote_meta s) = c # replace_wildcard (quote_meta s)"
    using quote_meta_hd by (intro replace_wildcard_skip) auto
  have bs: "CHR 0x5C \<in> set meta_chars" and st: "CHR ''*'' \<in> set meta_chars" by (simp_all add: meta_chars_def)
  show ?thesis
  proof (cases "c \<in> set meta_chars \<and> c \<noteq> CHR ''*''")
    case True
    then have "replace_wildcard (CHR 0x5C # c # quote_meta s) = CHR 0x5C # replace_wildcard (c # quote_meta s)"
      by (intro replace_wildcard_skip) auto
    with True skip show ?thesis by (simp add: glob_to_regexp_def quote_meta_Cons)
  next
    case False
    then consider "c = CHR ''*''" | "c \<notin> set meta_chars" "c \<noteq> CHR ''*''" using st by blast
    then show ?thesis using skip st by cases (simp_all add: glob_to_regexp_def quote_meta_Cons)
  qed
qed

text \<open>
  The regular expression built from a glob quotes everything but the wildcards: read back,
  its text is the group \<^verbatim>\<open>(.*)\<close> for each \<^verbatim>\<open>*\<close> of the glob and the literal character for every other
  character, so no other character of the glob acts as an operator.
\<close>

theorem glob_to_regexp_reads_back:
  "read_regexp (glob_to_regexp s) = Some (map (\<lambda>c. if c = CHR ''*'' then Star else Lit c) s)"
proof (induction s)
  case (Cons c s)
  show ?case
  proof (cases "c = CHR ''*''")
    case True
    with Cons show ?thesis by (simp add: glob_to_regexp_Cons)
  next
    case False
    have "CHR 0x5C \<in> set meta_chars" "CHR ''('' \<in> set meta_chars" by (simp_all add: meta_chars_def)
    with Cons False show ?thesis by (cases "c \<in> set meta_chars") (auto simp: glob_to_regexp_Cons)
  qed
qed (simp add: glob_to_regexp_def quote_meta_def)

end
