(* ===== verification/Traits.thy ===== *)
theory Traits
  imports Replace Policy
begin

text \<open>
  Mapping traits to roles, \<^verbatim>\<open>lib/services/traits.go\<close>. Traits are a map from a trait name to its values;
  the loop over the Go map looks at the one entry the mapping names, so its order does not matter.
  The messages of the warnings are kept as their arguments. The properties tie the mapping to the
  connector policy: a role is granted to addresses of the allow-listed domains only.
\<close>

type_synonym traits = "string \<Rightarrow> string list option"

datatype warning =
    BadInsensitive string
  | BadSensitive string
  | CaseOnly string string string

text \<open>The loop over the roles of one mapping for one trait value: the warnings, the roles collected
  with their \<^verbatim>\<open>expanded\<close> flag, and whether the mapping is left (\<^verbatim>\<open>continue TraitMappingLoop\<close>).\<close>

fun map_value :: "golib \<Rightarrow> string \<Rightarrow> string \<Rightarrow> string list \<Rightarrow> warning list \<times> (string \<times> bool) list \<times> bool" where
  "map_value U expr v [] = ([], [], False)"
| "map_value U expr v (role # roles) =
     (case compile_expression U True expr of
        Inl _ \<Rightarrow> ([BadInsensitive expr], [], True)
      | Inr insensitive \<Rightarrow>
     (case replace_regexp_with U insensitive role v of
        None \<Rightarrow> ([], [], False)
      | Some out \<Rightarrow>
          if out = [] then map_value U expr v roles
          else case compile_expression U False expr of
              Inl _ \<Rightarrow> ([BadSensitive expr], [], True)
            | Inr sensitive \<Rightarrow>
                let (ws, rs, leave) = map_value U expr v roles in
                if replace_regexp_with U sensitive role v = None
                then (CaseOnly v expr out # ws, rs, leave)
                else (ws, (out, out \<noteq> role) # rs, leave)))"

fun map_values :: "golib \<Rightarrow> trait_mapping \<Rightarrow> string list \<Rightarrow> warning list \<times> (string \<times> bool) list" where
  "map_values U m [] = ([], [])"
| "map_values U m (v # vs) =
     (let (ws, rs, leave) = map_value U (tm_value m) v (tm_roles m) in
      if leave then (ws, rs)
      else let (ws', rs') = map_values U m vs in (ws @ ws', rs @ rs'))"

fun map_traits :: "golib \<Rightarrow> trait_mapping list \<Rightarrow> traits \<Rightarrow> warning list \<times> (string \<times> bool) list" where
  "map_traits U [] traits = ([], [])"
| "map_traits U (m # ms) traits =
     (let (ws, rs) = (case traits (tm_trait m) of None \<Rightarrow> ([], []) | Some vs \<Rightarrow> map_values U m vs);
          (ws', rs') = map_traits U ms traits
      in (ws @ ws', rs @ rs'))"

definition traits_to_roles :: "golib \<Rightarrow> trait_mapping list \<Rightarrow> traits \<Rightarrow> warning list \<times> string list" where
  "traits_to_roles U ms traits =
     (let (ws, rs) = map_traits U ms traits in (ws, deduplicate (map fst rs)))"

text \<open>\<^verbatim>\<open>TraitsToRoleMatchers\<close>; \<open>new_matcher\<close> is \<^verbatim>\<open>parse.NewMatcher\<close>.\<close>

datatype 'a matcher = LiteralMatcher string | Matcher 'a

fun collect_matchers ::
  "(string \<Rightarrow> 'a result) \<Rightarrow> (string \<times> bool) list \<Rightarrow> 'a matcher list \<times> err option" where
  "collect_matchers new_matcher [] = ([], None)"
| "collect_matchers new_matcher ((role, expanded) # rs) =
     (let (ms, first) = collect_matchers new_matcher rs in
      if expanded \<or> contains_expansion role then (LiteralMatcher role # ms, first)
      else case new_matcher role of
          Inl e \<Rightarrow> (ms, Some e)
        | Inr m \<Rightarrow> (Matcher m # ms, first))"

definition traits_to_role_matchers ::
  "golib \<Rightarrow> (string \<Rightarrow> 'a result) \<Rightarrow> trait_mapping list \<Rightarrow> traits \<Rightarrow> 'a matcher list result" where
  "traits_to_role_matchers U new_matcher ms traits =
     (case collect_matchers new_matcher (snd (map_traits U ms traits)) of
        (_, Some e) \<Rightarrow> Inl e
      | (matchers, None) \<Rightarrow> Inr matchers)"

section \<open>What grants a role\<close>

lemma map_value_grants:
  "map_value U expr v roles = (ws, rs, leave) \<Longrightarrow> (out, f) \<in> set rs \<Longrightarrow>
     \<exists>re role. compile_expression U False expr = Inr re \<and> replace_regexp_with U re role v \<noteq> None
       \<and> role \<in> set roles \<and> out \<noteq> []"
proof (induction U expr v roles arbitrary: ws rs leave rule: map_value.induct)
  case (2 U expr v role roles)
  obtain ws' rs' leave' where r: "map_value U expr v roles = (ws', rs', leave')" by (metis prod_cases3)
  from "2.prems" obtain ins o' where ins: "compile_expression U True expr = Inr ins"
    and o': "replace_regexp_with U ins role v = Some o'"
    by (auto split: sum.split_asm option.split_asm)
  show ?case
  proof (cases "o' = []")
    case True
    with "2.prems" ins o' "2.IH"(1) [OF ins o' True] show ?thesis by auto
  next
    case False
    with "2.prems" ins o' obtain re where re: "compile_expression U False expr = Inr re"
      by (cases "compile_expression U False expr") auto
    note IH = "2.IH"(2) [OF ins o' False re r]
    from "2.prems" ins o' False re r have
      "(out, f) \<in> set rs' \<or> replace_regexp_with U re role v \<noteq> None \<and> out = o'"
      by (auto split: if_split_asm)
    with IH re False show ?thesis by auto
  qed
qed simp

lemma map_values_grants:
  "map_values U m vs = (ws, rs) \<Longrightarrow> (out, f) \<in> set rs \<Longrightarrow>
     \<exists>v \<in> set vs. \<exists>re role. compile_expression U False (tm_value m) = Inr re
       \<and> replace_regexp_with U re role v \<noteq> None \<and> role \<in> set (tm_roles m) \<and> out \<noteq> []"
proof (induction U m vs arbitrary: ws rs rule: map_values.induct)
  case (2 U m v vs)
  obtain w1 r1 leave where 1: "map_value U (tm_value m) v (tm_roles m) = (w1, r1, leave)" by (metis prod_cases3)
  obtain w2 r2 where r: "map_values U m vs = (w2, r2)" by fastforce
  from "2.prems" 1 r have "(out, f) \<in> set r1 \<or> \<not> leave \<and> (out, f) \<in> set r2"
    by (auto split: if_split_asm)
  then show ?case
  proof
    assume "(out, f) \<in> set r1"
    with map_value_grants [OF 1] show ?thesis by auto
  next
    assume a: "\<not> leave \<and> (out, f) \<in> set r2"
    with "2.IH" [OF 1 [symmetric] refl refl _ r] show ?thesis by auto
  qed
qed simp

lemma map_traits_grants:
  "map_traits U ms traits = (ws, rs) \<Longrightarrow> (out, f) \<in> set rs \<Longrightarrow>
     \<exists>m \<in> set ms. \<exists>vs. traits (tm_trait m) = Some vs \<and> (\<exists>v \<in> set vs. \<exists>re role.
       compile_expression U False (tm_value m) = Inr re
       \<and> replace_regexp_with U re role v \<noteq> None \<and> role \<in> set (tm_roles m) \<and> out \<noteq> [])"
proof (induction ms arbitrary: ws rs)
  case (Cons m ms)
  obtain w2 r2 where r: "map_traits U ms traits = (w2, r2)" by fastforce
  obtain w1 r1 where 1: "(case traits (tm_trait m) of None \<Rightarrow> ([], []) | Some vs \<Rightarrow> map_values U m vs) = (w1, r1)"
    by fastforce
  from Cons.prems 1 r have "(out, f) \<in> set r1 \<or> (out, f) \<in> set r2" by auto
  then show ?case
  proof
    assume a: "(out, f) \<in> set r1"
    with 1 obtain vs where "traits (tm_trait m) = Some vs" "map_values U m vs = (w1, r1)"
      by (auto split: option.split_asm)
    with map_values_grants [OF this(2) a] show ?thesis by auto
  next
    assume "(out, f) \<in> set r2"
    with Cons.IH [OF r] show ?thesis by auto
  qed
qed simp

section \<open>Globs and literal roles\<close>

text \<open>A mapping whose value is a glob and whose roles are plain names, as every mapping an operator
  writes without templates.\<close>

definition plain_mapping :: "trait_mapping \<Rightarrow> bool" where
  "plain_mapping m \<longleftrightarrow> \<not> is_regexp (tm_value m) \<and> valid_utf8 (tm_value m)
     \<and> (\<forall>role \<in> set (tm_roles m). role \<noteq> [] \<and> CHR ''$'' \<notin> set role)"

lemma expand_literal [simp]: "CHR ''$'' \<notin> set role \<Longrightarrow> expand U groups role = role"
  by (subst expand.simps) simp

lemma replace_literal:
  assumes "CHR ''$'' \<notin> set role"
  shows "replace_regexp_with U (Glob ic ps) role v =
    (if glob_language (rune_matches U ic) ps (runes v) then Some role else None)"
proof -
  have "glob_match (rune_matches U ic) ps (decode v) \<noteq> None \<longleftrightarrow> glob_language (rune_matches U ic) ps (runes v)"
    by (simp add: glob_match_language runes_def del: not_None_eq)
  with assms show ?thesis
    by (cases "glob_match (rune_matches U ic) ps (decode v)") (auto simp: replace_regexp_with_def)
qed

lemma glob_language_mono:
  "glob_language (=) ps rs \<Longrightarrow> (\<And>r. eq r r) \<Longrightarrow> glob_language eq ps rs"
  by (induction ps arbitrary: rs) (fastforce split: if_split_asm)+

lemma sensitive_insensitive:
  "glob_language (=) ps rs \<Longrightarrow> glob_language (rune_matches U ic) ps rs"
  by (rule glob_language_mono) (simp_all add: rune_matches_def)

lemma map_value_plain:
  assumes "\<not> is_regexp e" and "valid_utf8 e" and "\<forall>role \<in> set roles. role \<noteq> [] \<and> CHR ''$'' \<notin> set role"
  shows "map_value U e v roles =
    (if glob_language (=) (runes e) (runes v) then ([], map (\<lambda>r. (r, False)) roles, False)
     else if glob_language (rune_matches U True) (runes e) (runes v) then (map (CaseOnly v e) roles, [], False)
     else ([], [], False))"
  using assms(3)
proof (induction roles)
  case (Cons role roles)
  have c: "compile_expression U ic e = Inr (Glob ic (runes e))" for ic
    using assms(1,2) by (simp add: compile_expression_def)
  have role: "role \<noteq> []" "CHR ''$'' \<notin> set role" using Cons.prems by auto
  show ?case
  proof (cases "glob_language (=) (runes e) (runes v)")
    case True
    with sensitive_insensitive [OF True, of U True] Cons role c [of True] c [of False]
    show ?thesis by (simp add: replace_literal)
  next
    case False
    with Cons role c [of True] c [of False] show ?thesis
      by (cases "glob_language (rune_matches U True) (runes e) (runes v)") (simp_all add: replace_literal)
  qed
qed simp

lemma map_values_plain:
  assumes "plain_mapping m"
  shows "set (map fst (snd (map_values U m vs))) =
    {role. \<exists>v \<in> set vs. role \<in> set (tm_roles m) \<and> glob_language (=) (runes (tm_value m)) (runes v)}"
proof (induction vs)
  case (Cons v vs)
  have p: "\<not> is_regexp (tm_value m)" "valid_utf8 (tm_value m)"
    "\<forall>role \<in> set (tm_roles m). role \<noteq> [] \<and> CHR ''$'' \<notin> set role"
    using assms by (auto simp: plain_mapping_def)
  obtain w r where r: "map_values U m vs = (w, r)" by fastforce
  have f: "fst ` (\<lambda>r. (r, False)) ` A = A" for A :: "string set" by force
  show ?case using Cons
    by (auto simp: map_value_plain [OF p] r image_Un f split: if_split_asm)
qed simp

lemma traits_to_roles_plain_lemma:
  assumes "\<forall>m \<in> set ms. plain_mapping m"
  shows "set (snd (traits_to_roles U ms traits)) =
      {role. \<exists>m \<in> set ms. \<exists>vs. traits (tm_trait m) = Some vs \<and> role \<in> set (tm_roles m)
         \<and> (\<exists>v \<in> set vs. glob_language (=) (runes (tm_value m)) (runes v))}
    \<and> distinct (snd (traits_to_roles U ms traits))"
proof -
  have "set (map fst (snd (map_traits U ms traits))) =
      {role. \<exists>m \<in> set ms. \<exists>vs. traits (tm_trait m) = Some vs \<and> role \<in> set (tm_roles m)
         \<and> (\<exists>v \<in> set vs. glob_language (=) (runes (tm_value m)) (runes v))}"
    using assms
  proof (induction ms)
    case (Cons m ms)
    obtain w r where r: "map_traits U ms traits = (w, r)" by fastforce
    show ?case
    proof (cases "traits (tm_trait m)")
      case None
      with Cons r show ?thesis by auto
    next
      case (Some vs)
      obtain w1 r1 where r1: "map_values U m vs = (w1, r1)" by fastforce
      from map_values_plain [of m U vs] Cons.prems r1
      have "set (map fst r1) = {role. \<exists>v \<in> set vs. role \<in> set (tm_roles m)
          \<and> glob_language (=) (runes (tm_value m)) (runes v)}" by simp
      with Cons r r1 Some show ?thesis by auto
    qed
  qed simp
  then show ?thesis by (simp add: traits_to_roles_def case_prod_unfold Let_def)
qed

text \<open>
  For mappings that are globs with plain role names, the roles of a login are exactly
  those of the mappings whose trait has a value that the glob matches, case included; the result
  has no duplicates.
\<close>

theorem traits_to_roles_plain:
  assumes "\<forall>m \<in> set ms. plain_mapping m"
  shows "set (snd (traits_to_roles U ms traits)) =
      {role. \<exists>m \<in> set ms. \<exists>vs. traits (tm_trait m) = Some vs \<and> role \<in> set (tm_roles m)
         \<and> (\<exists>v \<in> set vs. glob_language (=) (runes (tm_value m)) (runes v))}
    \<and> distinct (snd (traits_to_roles U ms traits))"
  by (rule traits_to_roles_plain_lemma [OF assms])

definition sample_traits :: traits where
  "sample_traits = [''email'' \<mapsto> [''ann@ex.com''], groups_claim \<mapsto> [''qa@ex.com'']]"

definition sample_plain :: "trait_mapping list" where
  "sample_plain = [\<lparr>tm_trait = ''email'', tm_value = ''ann@ex.com'', tm_roles = [''dev'', ''dev'']\<rparr>]"

lemma sample_plain_ok: "\<forall>m \<in> set sample_plain. plain_mapping m"
  by (simp add: sample_plain_def plain_mapping_def is_regexp_def starts_with_def valid_utf8_def decode_ascii
      rune_error_def del: decode.simps(2))

theorem traits_to_roles_plain_witness:
  "set (snd (traits_to_roles ascii_tables sample_plain sample_traits)) = {''dev''}"
  using traits_to_roles_plain [OF sample_plain_ok, of ascii_tables sample_traits]
    glob_language_literal_eq [of "runes ''ann@ex.com''"]
  by (simp add: sample_plain_def sample_traits_def groups_claim_def runes_ascii del: glob_language.simps)

section \<open>Roles and the domain allow-list\<close>

text \<open>In Go's tables the only runes above ASCII that fold to an ASCII one are U+212A, to \<^verbatim>\<open>k\<close>, and
  U+017F, to \<^verbatim>\<open>s\<close>.\<close>

definition fold_to_letters :: "golib \<Rightarrow> bool" where
  "fold_to_letters U \<longleftrightarrow> (\<forall>r \<ge> 128. 128 \<le> uc_fold U r \<or> uc_fold U r \<in> {107, 115})"

definition in_domains :: "golib \<Rightarrow> string list \<Rightarrow> string \<Rightarrow> bool" where
  "in_domains U domains v \<longleftrightarrow>
     (\<exists>pre d domain. d \<in> set domains \<and> equal_fold U d domain \<and> runes v = pre @ 64 # runes domain)"

lemma fold_star:
  assumes "fold_to_letters U" and "fold_rune U r = 42" shows "r = 42"
proof (cases "r < 128")
  case True
  with assms(2) show ?thesis by (auto simp: fold_rune_def ascii_lower_def split: if_split_asm)
next
  case False
  with assms(1) have "128 \<le> uc_fold U r \<or> uc_fold U r \<in> {107, 115}" by (simp add: fold_to_letters_def)
  with assms(2) False show ?thesis by (auto simp: fold_rune_def)
qed

lemma equal_fold_no_star:
  assumes "fold_to_letters U" and "equal_fold U d t" and "CHR ''*'' \<notin> set d"
  shows "42 \<notin> set (runes t)"
proof
  assume "42 \<in> set (runes t)"
  then have "fold_rune U 42 \<in> set (map (fold_rune U) (runes d))"
    using assms(2) by (auto simp: equal_fold_def)
  then obtain r where r: "r \<in> set (runes d)" "fold_rune U r = 42" by (auto simp: fold_rune_def ascii_lower_def)
  with fold_star [OF assms(1)] have "42 \<in> set (runes d)" by blast
  with assms(3) set_ascii_runes [of 42 d] show False by (simp add: char_of_def bit_0)
qed

lemma literal_no_star: "is_literal_local_part l \<Longrightarrow> 42 \<notin> set (runes l)"
  by (auto simp: is_literal_local_part_def list_all_iff)

lemma address_value_matches:
  assumes "fold_to_letters U" and "address_value U domains e" and "\<forall>d \<in> set domains. \<not> bad_domain d"
    and "glob_language (=) (runes e) (runes v)"
  shows "in_domains U domains v"
proof -
  from assms(2) obtain l t d where e: "e = l @ CHR ''@'' # t" "l \<noteq> []" "d \<in> set domains" "equal_fold U d t"
    and l: "l = ''*'' \<or> is_literal_local_part l" by (auto simp: address_value_def)
  have re: "runes e = runes l @ 64 # runes t" unfolding e(1) by (subst runes_split_ascii) simp_all
  have "\<not> bad_domain d" using assms(3) e(3) by blast
  from good_domain_chars(2) [OF this] have t: "42 \<notin> set (runes t)"
    by (rule equal_fold_no_star [OF assms(1) e(4)])
  then have st: "42 \<notin> set (64 # runes t)" by simp
  from l have "\<exists>pre. runes v = pre @ 64 # runes t"
  proof
    assume "l = ''*''"
    then have "runes l = [42]" by (simp add: runes_ascii)
    with assms(4) re glob_language_literal_eq [OF st] show ?thesis by auto
  next
    assume "is_literal_local_part l"
    then have "42 \<notin> set (runes e)" using re t literal_no_star by simp
    from glob_language_literal_eq [OF this] assms(4) re show ?thesis by simp
  qed
  with e(3,4) show ?thesis by (auto simp: in_domains_def)
qed

lemma address_not_regexp:
  assumes "validate_address_claim_value U e domains = None" shows "\<not> is_regexp e"
  using assms by (auto simp: validate_address_claim_value_def is_regexp_def split: if_split_asm)

lemma validated_mapping:
  assumes "check_mappings U domains cms = None" and "m \<in> set cms"
  shows "\<not> is_regexp (cm_value m)" and "address_value U domains (cm_value m)"
    and "cm_claim m \<in> {''email'', groups_claim}"
proof -
  show "address_value U domains (cm_value m)" "cm_claim m \<in> {''email'', groups_claim}"
    using check_mappings_None [OF assms] by auto
  from assms show "\<not> is_regexp (cm_value m)"
  proof (induction U domains cms rule: check_mappings.induct)
    case (2 U domains m' ms)
    then obtain g where g: "grammar_for_claim (cm_claim m') = Some g"
      and v: "cg_validate g U (cm_value m') domains = None" and r: "check_mappings U domains ms = None"
      by (auto split: option.split_asm)
    from grammar_for_claim_Some(2) [OF g] v have "validate_address_claim_value U (cm_value m') domains = None"
      by simp
    from address_not_regexp [OF this] have "\<not> is_regexp (cm_value m')" .
    with "2.IH" [OF g v r] "2.prems" show ?case by auto
  qed simp
qed

lemma granted_in_domains:
  assumes "fold_to_letters U" and "workspace_domains U conn = Inr domains"
    and "check_mappings U domains (claims_to_roles (con_spec conn)) = None"
    and "role \<in> set (snd (traits_to_roles U (get_trait_mappings conn) traits))"
  shows "\<exists>name \<in> {''email'', groups_claim}. \<exists>vs. traits name = Some vs \<and> (\<exists>v \<in> set vs. in_domains U domains v)"
proof -
  obtain ws rs where mt: "map_traits U (get_trait_mappings conn) traits = (ws, rs)" by fastforce
  with assms(4) obtain f where "(role, f) \<in> set rs" by (auto simp: traits_to_roles_def)
  from map_traits_grants [OF mt this] obtain m vs v re r where
    m: "m \<in> set (get_trait_mappings conn)" and vs: "traits (tm_trait m) = Some vs" "v \<in> set vs"
    and re: "compile_expression U False (tm_value m) = Inr re" "replace_regexp_with U re r v \<noteq> None" by blast
  from m obtain cm where cm: "cm \<in> set (claims_to_roles (con_spec conn))" "tm_trait m = cm_claim cm"
    "tm_value m = cm_value cm" by (auto simp: get_trait_mappings_def)
  note v = validated_mapping [OF assms(3) cm(1)]
  from compile_glob [OF re(1)] v(1) cm(3) have "re = Glob False (runes (cm_value cm))" by simp
  with re(2) replace_glob_Some [of U False] have "glob_language (=) (runes (cm_value cm)) (runes v)" by simp
  with address_value_matches [OF assms(1) v(2)] workspace_domains_Inr(3) [OF assms(2)]
  have "in_domains U domains v" by blast
  with vs v(3) cm(2) show ?thesis by metis
qed

text \<open>
  With a connector that passes \<^verbatim>\<open>ValidateConnector\<close>, a role is granted only because of a
  value of the email or the groups trait that is an address in an allow-listed Workspace domain:
  its runes end in \<^verbatim>\<open>@\<close> and a domain equal, case aside, to one of the list. Nothing a claim value
  may contain widens a mapping beyond the domains.
\<close>

theorem roles_only_for_workspace_domains:
  assumes "validate_connector U (Some conn) = None" and "fold_to_letters U"
    and "workspace_domains U conn = Inr domains"
    and "role \<in> set (snd (traits_to_roles U (get_trait_mappings conn) traits))"
  shows "\<exists>name \<in> {''email'', groups_claim}. \<exists>vs. traits name = Some vs \<and> (\<exists>v \<in> set vs. in_domains U domains v)"
  using validate_connector_parts [OF assms(1)] granted_in_domains [OF assms(2,3) _ assms(4)] assms(3)
  by (metis sum.inject(2))

lemma sample_granted:
  "''dev'' \<in> set (snd (traits_to_roles ascii_tables (get_trait_mappings sample_connector) sample_traits))"
proof -
  have p: "\<forall>m \<in> set (get_trait_mappings sample_connector). plain_mapping m"
    by (simp add: get_trait_mappings_def sample_connector_def sample_spec_def plain_mapping_def is_regexp_def
        starts_with_def valid_utf8_def decode_ascii rune_error_def del: decode.simps(2))
  have g: "glob_language (=) (runes ''*@ex.com'') (runes ''ann@ex.com'')"
    by (simp add: runes_ascii)
  show ?thesis
    unfolding traits_to_roles_plain_lemma [OF p, THEN conjunct1]
    using g by (simp add: get_trait_mappings_def sample_connector_def sample_spec_def sample_traits_def
        groups_claim_def)
qed

theorem roles_only_for_workspace_domains_witness:
  "\<exists>name \<in> {''email'', groups_claim}. \<exists>vs. sample_traits name = Some vs
     \<and> (\<exists>v \<in> set vs. in_domains ascii_tables [''ex.com'', ''b.org''] v)"
  by (rule roles_only_for_workspace_domains [OF sample_valid _ sample_domains sample_granted])
     (simp add: fold_to_letters_def ascii_tables_def)

end
