(* ===== verification/Identity.thy ===== *)
theory Identity
  imports Traits
begin

text \<open>
  From verified claims to a Teleport user, the second half of \<^verbatim>\<open>lib/googleoidc/callback.go\<close>: the identity
  checks on an ID token, claims as traits, the role calculation, and the user a login creates or
  updates with the binding of a Google subject to one user name.

  A claim map is a partial map from names to JSON values; a floating-point value is kept as the
  text \<^verbatim>\<open>strconv.FormatFloat\<close> gives. The login rule evaluator and the role set (\<^verbatim>\<open>FetchRoles\<close> and
  \<^verbatim>\<open>AdjustSessionTTL\<close>) are arguments. The user table is what the backend holds of the users: an expired
  user is gone, a creation of an existing name fails, and an update needs the current revision.
\<close>

section \<open>Failure classes (audit.go)\<close>

datatype failure_class =
    ProviderError | InvalidCallback | UnknownState | CallbackReplayed | RequestValidation
  | ConnectorResolution | PKCEVerification | RedirectValidation | ProviderConfiguration
  | TokenExchange | IDTokenValidation | IdentityValidation | HostedDomain | EmailDomain
  | ClaimsProcessing | RoleMapping | UserCreation | LoginHook | UserStateFailed
  | CredentialIssuance | InternalError

type_synonym 'a outcome = "(failure_class option \<times> err) + 'a"

section \<open>Claims\<close>

datatype json = JString string | JStrings "string list" | JList "json list" | JBool bool | JFloat string
  | JNumber string | JOther

type_synonym claim_map = "string \<Rightarrow> json option"

record id_claims =
  ic_issued_at :: int
  ic_not_before :: int
  ic_subject :: string
  ic_email :: string
  ic_email_verified :: bool
  ic_name :: string
  ic_expiration :: int
  ic_acr :: string
  ic_raw :: claim_map

definition hosted_domain :: "id_claims option \<Rightarrow> string" where
  "hosted_domain c =
     (case c of None \<Rightarrow> []
      | Some cl \<Rightarrow> (case ic_raw cl ''hd'' of Some (JString s) \<Rightarrow> s | _ \<Rightarrow> []))"

definition check_identity_claims ::
  "golib \<Rightarrow> id_claims option \<Rightarrow> string list \<Rightarrow> int \<Rightarrow> (failure_class \<times> err) option" where
  "check_identity_claims U claims domains now =
     (case claims of
        None \<Rightarrow> Some (IdentityValidation, Err AccessDenied ''OIDC provider did not return claims'')
      | Some c \<Rightarrow>
          if ic_issued_at c > now + second
          then Some (IdentityValidation, Err AccessDenied ''OIDC provider returned a future issued-at time'')
          else if ic_not_before c > now + second
          then Some (IdentityValidation, Err AccessDenied ''OIDC provider returned a future not-before time'')
          else if ic_subject c = []
          then Some (IdentityValidation, Err AccessDenied ''OIDC provider did not return a subject'')
          else if ic_email c = []
          then Some (IdentityValidation, Err AccessDenied ''OIDC provider did not return an email'')
          else if \<not> ic_email_verified c
          then Some (IdentityValidation, Err AccessDenied ''OIDC provider did not verify email'')
          else case check_hosted_domain U (hosted_domain claims) domains of
              Some e \<Rightarrow> Some (HostedDomain, e)
            | None \<Rightarrow> map_option (Pair EmailDomain) (check_email_domain U (ic_email c) domains))"

fun strings_of :: "json list \<Rightarrow> string list" where
  "strings_of [] = []"
| "strings_of (JString s # js) = s # strings_of js"
| "strings_of (_ # js) = strings_of js"

definition trait_of_claim :: "json \<Rightarrow> string list option" where
  "trait_of_claim j =
     (case j of
        JString s \<Rightarrow> Some [s]
      | JStrings ss \<Rightarrow> Some ss
      | JList js \<Rightarrow> if strings_of js = [] then None else Some (strings_of js)
      | JBool b \<Rightarrow> Some [if b then ''true'' else ''false'']
      | JFloat t \<Rightarrow> Some [t]
      | JNumber t \<Rightarrow> Some [t]
      | JOther \<Rightarrow> None)"

definition claims_to_traits :: "claim_map \<Rightarrow> traits" where
  "claims_to_traits claims = (\<lambda>name. case claims name of None \<Rightarrow> None | Some j \<Rightarrow> trait_of_claim j)"

definition username_from_claims :: "oidc_connector \<Rightarrow> claim_map \<Rightarrow> string result" where
  "username_from_claims conn claims =
     (let name = (if username_claim (con_spec conn) = [] then ''email'' else username_claim (con_spec conn)) in
      case claims name of
        None \<Rightarrow> Inl (Err AccessDenied ''OIDC provider did not return required username claim'')
      | Some (JString s) \<Rightarrow>
          if s = [] then Inl (Err AccessDenied ''OIDC username claim must be a non-empty string'') else Inr s
      | Some _ \<Rightarrow> Inl (Err AccessDenied ''OIDC username claim must be a non-empty string''))"

section \<open>Roles\<close>

datatype role_source = SourceEmail | SourceGroups | SourceBoth | SourceNone

definition role_source_for_mappings :: "golib \<Rightarrow> trait_mapping list \<Rightarrow> traits \<Rightarrow> role_source" where
  "role_source_for_mappings U ms traits =
     (let email_roles = snd (traits_to_roles U (filter (\<lambda>m. tm_trait m = ''email'') ms) traits);
          group_roles = snd (traits_to_roles U (filter (\<lambda>m. tm_trait m = groups_claim) ms) traits) in
      if email_roles \<noteq> [] \<and> group_roles \<noteq> [] then SourceBoth
      else if email_roles \<noteq> [] then SourceEmail
      else if group_roles \<noteq> [] then SourceGroups
      else SourceNone)"

definition min_ttl :: "int \<Rightarrow> int \<Rightarrow> int" where
  "min_ttl a b = (if a = 0 then b else if b = 0 then a else if a < b then a else b)"

record role_env =
  re_evaluate :: "traits \<Rightarrow> (string list \<times> traits) result"
  re_fetch :: "string list \<Rightarrow> traits \<Rightarrow> (int \<Rightarrow> int) result"

record user_params =
  up_connector :: string
  up_username :: string
  up_user_id :: string
  up_roles :: "string list"
  up_traits :: traits
  up_session_ttl :: int

record role_audit =
  ra_source :: role_source
  ra_warnings :: nat
  ra_rules :: "string list"

definition calculate_user ::
  "golib \<Rightarrow> role_env \<Rightarrow> oidc_connector \<Rightarrow> claim_map \<Rightarrow> id_claims \<Rightarrow> oidc_auth_request \<Rightarrow> string list \<Rightarrow>
     user_params result \<times> role_audit" where
  "calculate_user U E conn claims idc request verified =
     (let a0 = \<lparr>ra_source = SourceNone, ra_warnings = 0, ra_rules = []\<rparr> in
      case username_from_claims conn claims of
        Inl e \<Rightarrow> (Inl e, a0)
      | Inr username \<Rightarrow>
     (let traits = claims_to_traits claims;
          (warnings, roles) = traits_to_roles U (get_trait_mappings conn) traits;
          a1 = a0\<lparr>ra_warnings := length warnings\<rparr> in
      if roles = [] then (Inl (Err AccessDenied ''OIDC claims did not match any configured roles''), a1)
      else let a2 = a1\<lparr>ra_source := role_source_for_mappings U (get_trait_mappings conn) traits\<rparr> in
      case re_evaluate E traits of
        Inl e \<Rightarrow> (Inl e, a2)
      | Inr (rules, traits1) \<Rightarrow>
     (let a3 = a2\<lparr>ra_rules := rules\<rparr>;
          traits2 = (if verified \<noteq> [] then traits1(groups_claim \<mapsto> verified) else traits1(groups_claim := None)) in
      case re_fetch E roles traits2 of
        Inl e \<Rightarrow> (Inl e, a3)
      | Inr adjust \<Rightarrow>
          (Inr \<lparr>up_connector = con_name conn, up_username = username, up_user_id = ic_subject idc,
             up_roles = roles, up_traits = traits2,
             up_session_ttl = min_ttl (adjust max_cert_duration) (cert_ttl request)\<rparr>, a3))))"

section \<open>Users\<close>

record external_identity =
  ei_connector :: string
  ei_username :: string
  ei_user_id :: string

record connector_ref =
  cr_type :: string
  cr_id :: string
  cr_identity :: string

record user =
  us_name :: string
  us_roles :: "string list"
  us_traits :: traits
  us_expires :: "int option"
  us_identities :: "external_identity list"
  us_connector :: "connector_ref option"
  us_revision :: string

definition is_same_provider :: "connector_ref \<Rightarrow> connector_ref option \<Rightarrow> bool" where
  "is_same_provider r other =
     (case other of None \<Rightarrow> False | Some r' \<Rightarrow> cr_type r' = cr_type r \<and> cr_id r' = cr_id r)"

definition user_live :: "int \<Rightarrow> user \<Rightarrow> bool" where
  "user_live now u = (case us_expires u of None \<Rightarrow> True | Some e \<Rightarrow> now < e)"

definition get_users :: "int \<Rightarrow> user list \<Rightarrow> user list" where
  "get_users now tbl = filter (user_live now) tbl"

definition get_user :: "int \<Rightarrow> string \<Rightarrow> user list \<Rightarrow> user option" where
  "get_user now name tbl = find (\<lambda>u. us_name u = name) (get_users now tbl)"

text \<open>\<^verbatim>\<open>services.ValidateUser\<close> for a user without local authentication.\<close>

definition validate_user :: "user \<Rightarrow> err option" where
  "validate_user u =
     (if us_name u = [] then Some (Err BadParameter ''missing parameter Name'')
      else if list_ex (\<lambda>i. ei_connector i = []) (us_identities u)
      then Some (Err BadParameter ''ConnectorID: missing value'')
      else if list_ex (\<lambda>i. ei_username i = []) (us_identities u)
      then Some (Err BadParameter ''Username: missing username'')
      else None)"

definition store_create_user :: "int \<Rightarrow> string \<Rightarrow> user \<Rightarrow> user list \<Rightarrow> user result \<times> user list" where
  "store_create_user now rv u tbl =
     (case validate_user u of
        Some e \<Rightarrow> (Inl e, tbl)
      | None \<Rightarrow>
          if get_user now (us_name u) tbl \<noteq> None then (Inl (Err AlreadyExists ''user already registered''), tbl)
          else let u' = u\<lparr>us_revision := rv\<rparr> in (Inr u', get_users now tbl @ [u']))"

definition store_update_user :: "int \<Rightarrow> string \<Rightarrow> user \<Rightarrow> user list \<Rightarrow> user result \<times> user list" where
  "store_update_user now rv u tbl =
     (case validate_user u of
        Some e \<Rightarrow> (Inl e, tbl)
      | None \<Rightarrow>
          (case get_user now (us_name u) tbl of
             None \<Rightarrow> (Inl (Err CompareFailed ''resource revision does not match''), tbl)
           | Some old \<Rightarrow>
               if us_revision old \<noteq> us_revision u
               then (Inl (Err CompareFailed ''resource revision does not match''), tbl)
               else let u' = u\<lparr>us_revision := rv\<rparr> in
                 (Inr u', map (\<lambda>x. if us_name x = us_name u then u' else x) (get_users now tbl))))"

definition validate_subject_binding :: "user list result \<Rightarrow> string \<Rightarrow> string \<Rightarrow> string \<Rightarrow> err option" where
  "validate_subject_binding users connector subject username =
     (case users of
        Inl _ \<Rightarrow> Some (Err AccessDenied ''OIDC subject binding could not be verified'')
      | Inr us \<Rightarrow>
          if list_ex (\<lambda>u. us_name u \<noteq> username \<and>
               list_ex (\<lambda>i. ei_connector i = connector \<and> ei_user_id i \<noteq> [] \<and> ei_user_id i = subject) (us_identities u)) us
          then Some (Err AccessDenied ''OIDC subject is already bound to a different user'') else None)"

fun validate_identities :: "external_identity list \<Rightarrow> string \<Rightarrow> string \<Rightarrow> bool \<Rightarrow> err option" where
  "validate_identities [] connector subject found =
     (if found then None else Some (Err AccessDenied ''existing OIDC user has no identity for this connector''))"
| "validate_identities (i # is) connector subject found =
     (if ei_connector i \<noteq> connector then validate_identities is connector subject found
      else if ei_user_id i = [] \<or> ei_user_id i \<noteq> subject
      then Some (Err AccessDenied ''OIDC subject does not match the existing user'')
      else validate_identities is connector subject True)"

definition validate_existing_subject :: "user \<Rightarrow> string \<Rightarrow> string \<Rightarrow> err option" where
  "validate_existing_subject u connector subject = validate_identities (us_identities u) connector subject False"

definition new_user :: "int \<Rightarrow> user_params \<Rightarrow> user" where
  "new_user now p = \<lparr>us_name = up_username p, us_roles = up_roles p, us_traits = up_traits p,
     us_expires = Some (now + up_session_ttl p),
     us_identities = [\<lparr>ei_connector = up_connector p, ei_username = up_username p, ei_user_id = up_user_id p\<rparr>],
     us_connector = Some \<lparr>cr_type = ''oidc'', cr_id = up_connector p, cr_identity = up_username p\<rparr>,
     us_revision = []\<rparr>"

text \<open>\<open>list_err\<close> and \<open>get_err\<close> are failures of the backend under \<^verbatim>\<open>GetUsers\<close> and \<^verbatim>\<open>GetUser\<close>.\<close>

definition create_user ::
  "err option \<Rightarrow> err option \<Rightarrow> int \<Rightarrow> string \<Rightarrow> user_params \<Rightarrow> bool \<Rightarrow> user list \<Rightarrow> user result \<times> user list" where
  "create_user list_err get_err now rv p dry_run tbl =
     (let u = new_user now p;
          users = (case list_err of Some e \<Rightarrow> Inl e | None \<Rightarrow> Inr (get_users now tbl)) in
      case validate_subject_binding users (up_connector p) (up_user_id p) (up_username p) of
        Some e \<Rightarrow> (Inl e, tbl)
      | None \<Rightarrow>
     (case get_err of Some e \<Rightarrow> (Inl e, tbl)
      | None \<Rightarrow>
     (case get_user now (up_username p) tbl of
        None \<Rightarrow>
          if dry_run then (Inr u, tbl)
          else store_create_user now rv u tbl
      | Some old \<Rightarrow>
          if \<not> is_same_provider (the (us_connector u)) (us_connector old)
          then (Inl (Err AlreadyExists ''local user already exists and is not an OIDC user''), tbl)
          else case validate_existing_subject old (up_connector p) (up_user_id p) of
              Some e \<Rightarrow> (Inl e, tbl)
            | None \<Rightarrow>
                if dry_run then (Inr u, tbl)
                else store_update_user now rv (u\<lparr>us_revision := us_revision old\<rparr>) tbl)))"

section \<open>What the identity checks establish\<close>

definition email_domain :: "golib \<Rightarrow> string \<Rightarrow> string \<Rightarrow> bool" where
  "email_domain U email d \<longleftrightarrow>
     (\<exists>l. to_lower U (trim_space email) = l @ ''@'' @ d \<and> l \<noteq> [] \<and> d \<noteq> [] \<and> CHR ''@'' \<notin> set d)"

definition identity_ok :: "golib \<Rightarrow> string list \<Rightarrow> int \<Rightarrow> id_claims \<Rightarrow> bool" where
  "identity_ok U domains now c \<longleftrightarrow>
     ic_issued_at c \<le> now + second \<and> ic_not_before c \<le> now + second \<and> ic_subject c \<noteq> [] \<and> ic_email c \<noteq> []
     \<and> ic_email_verified c
     \<and> (\<exists>hd. ic_raw c ''hd'' = Some (JString hd) \<and> to_lower U (trim_space hd) \<in> set domains)
     \<and> (\<exists>d \<in> set domains. email_domain U (ic_email c) d)"

lemma check_email_domain_None:
  "check_email_domain U email domains = None \<longleftrightarrow> (\<exists>d \<in> set domains. email_domain U email d)"
proof
  assume "check_email_domain U email domains = None"
  then obtain l d where "last_cut (CHR ''@'') (to_lower U (trim_space email)) = Some (l, d)"
    "l \<noteq> []" "d \<noteq> []" "d \<in> set domains"
    by (auto simp: check_email_domain_def split: option.split_asm if_split_asm)
  then show "\<exists>d \<in> set domains. email_domain U email d"
    by (auto simp: email_domain_def last_cut_Some)
next
  assume "\<exists>d \<in> set domains. email_domain U email d"
  then obtain d l where d: "d \<in> set domains" "l \<noteq> []" "d \<noteq> []"
    "to_lower U (trim_space email) = l @ CHR ''@'' # d" "CHR ''@'' \<notin> set d"
    by (auto simp: email_domain_def)
  then have "last_cut (CHR ''@'') (to_lower U (trim_space email)) = Some (l, d)" by (simp add: last_cut_Some)
  with d show "check_email_domain U email domains = None" by (simp add: check_email_domain_def)
qed

lemma to_lower_trim_Nil [simp]: "to_lower U (trim_space []) = []"
  by (simp add: trim_space_def)

lemma check_hosted_domain_None:
  assumes "[] \<notin> set domains"
  shows "check_hosted_domain U h domains = None \<longleftrightarrow> to_lower U (trim_space h) \<in> set domains"
  using assms by (auto simp: check_hosted_domain_def Let_def)

lemma check_identity_claims_None:
  assumes "[] \<notin> set domains"
  shows "check_identity_claims U claims domains now = None \<longleftrightarrow>
    (\<exists>c. claims = Some c \<and> identity_ok U domains now c)"
proof (cases claims)
  case (Some c)
  have hd: "to_lower U (trim_space (hosted_domain claims)) \<in> set domains \<longleftrightarrow>
      (\<exists>h. ic_raw c ''hd'' = Some (JString h) \<and> to_lower U (trim_space h) \<in> set domains)"
    using assms Some by (auto simp: hosted_domain_def split: option.splits json.splits)
  show ?thesis
    using Some hd check_hosted_domain_None [OF assms, of U "hosted_domain claims"] check_email_domain_None [of U "ic_email c" domains]
    by (auto simp: check_identity_claims_def identity_ok_def split: option.splits)
qed (simp add: check_identity_claims_def)

text \<open>
  Property C21: the identity checks accept exactly the tokens they are meant to: claims are present, the
  token is not from the future by more than a second, subject and email are not empty, the email is
  verified, the \<^verbatim>\<open>hd\<close> claim is a string that names an allow-listed domain, and the domain of the
  email, after its last \<^verbatim>\<open>@\<close>, is allow-listed too.
\<close>

theorem identity_checks_exact:
  assumes "workspace_domains U conn = Inr domains"
  shows "check_identity_claims U claims domains now = None \<longleftrightarrow>
    (\<exists>c. claims = Some c \<and> identity_ok U domains now c)"
proof -
  have "[] \<notin> set domains" using workspace_domains_Inr(3) [OF assms] by auto
  then show ?thesis by (rule check_identity_claims_None)
qed

section \<open>What the role calculation establishes\<close>

lemma calculate_user_elim:
  assumes "calculate_user U E conn claims idc req verified = (Inr p, a)"
  obtains username roles rules traits1 traits2 adjust where "username_from_claims conn claims = Inr username"
    "snd (traits_to_roles U (get_trait_mappings conn) (claims_to_traits claims)) = roles" "roles \<noteq> []"
    "traits2 = (if verified \<noteq> [] then traits1(groups_claim \<mapsto> verified) else traits1(groups_claim := None))"
    "re_fetch E roles traits2 = Inr adjust"
    "p = \<lparr>up_connector = con_name conn, up_username = username, up_user_id = ic_subject idc,
       up_roles = roles, up_traits = traits2,
       up_session_ttl = min_ttl (adjust max_cert_duration) (cert_ttl req)\<rparr>"
proof -
  obtain ws roles where tr: "traits_to_roles U (get_trait_mappings conn) (claims_to_traits claims) = (ws, roles)"
    by fastforce
  from assms obtain username where n: "username_from_claims conn claims = Inr username"
    by (cases "username_from_claims conn claims") (auto simp: calculate_user_def)
  from assms n tr have ne: "roles \<noteq> []" by (auto simp: calculate_user_def)
  from assms n tr ne obtain rules traits1 where ev: "re_evaluate E (claims_to_traits claims) = Inr (rules, traits1)"
    by (cases "re_evaluate E (claims_to_traits claims)") (auto simp: calculate_user_def Let_def)
  let ?t = "if verified \<noteq> [] then traits1(groups_claim \<mapsto> verified) else traits1(groups_claim := None)"
  from assms n tr ne ev obtain adjust where f: "re_fetch E roles ?t = Inr adjust"
    by (cases "re_fetch E roles ?t") (simp_all add: calculate_user_def Let_def split: if_split_asm)
  from assms n tr ne ev f have "p = \<lparr>up_connector = con_name conn, up_username = username, up_user_id = ic_subject idc,
       up_roles = roles, up_traits = ?t, up_session_ttl = min_ttl (adjust max_cert_duration) (cert_ttl req)\<rparr>"
    by (simp add: calculate_user_def Let_def)
  from that [OF n _ ne refl f this] tr show thesis by simp
qed

lemma calculate_user_ok:
  assumes "calculate_user U E conn claims idc req verified = (Inr p, a)"
  shows "username_from_claims conn claims = Inr (up_username p)"
    and "up_roles p = snd (traits_to_roles U (get_trait_mappings conn) (claims_to_traits claims))"
    and "up_roles p \<noteq> []" and "up_connector p = con_name conn" and "up_user_id p = ic_subject idc"
    and "up_traits p groups_claim = (if verified = [] then None else Some verified)"
    and "\<exists>adjust. re_fetch E (up_roles p) (up_traits p) = Inr adjust
      \<and> up_session_ttl p = min_ttl (adjust max_cert_duration) (cert_ttl req)"
  using assms by (rule calculate_user_elim; simp)+

text \<open>
  The groups trait of a user is exactly what Cloud Identity confirmed for this login,
  whatever the login rules return: the verified list when there is one, no trait at all otherwise.
  The roles are those the mappings give for the claims, at least one, and they do not depend on the
  login rules.
\<close>

theorem groups_trait_is_verified:
  assumes "calculate_user U E conn claims idc req verified = (Inr p, a)"
  shows "up_traits p groups_claim = (if verified = [] then None else Some verified) \<and> up_roles p \<noteq> []
    \<and> up_roles p = snd (traits_to_roles U (get_trait_mappings conn) (claims_to_traits claims))"
  using calculate_user_ok [OF assms] by blast

text \<open>What the code relies on about a role set: \<^verbatim>\<open>AdjustSessionTTL\<close> only shortens a duration.\<close>

definition shortens_ttl :: "role_env \<Rightarrow> bool" where
  "shortens_ttl E \<longleftrightarrow> (\<forall>roles traits adjust. re_fetch E roles traits = Inr adjust \<longrightarrow>
     0 < adjust max_cert_duration \<and> adjust max_cert_duration \<le> max_cert_duration)"

lemma session_ttl_le:
  assumes "calculate_user U E conn claims idc req verified = (Inr p, a)"
    and "shortens_ttl E" and "0 \<le> cert_ttl req"
  shows "0 < up_session_ttl p \<and> up_session_ttl p \<le> max_cert_duration
    \<and> (cert_ttl req \<noteq> 0 \<longrightarrow> up_session_ttl p \<le> cert_ttl req)"
proof -
  from calculate_user_ok(7) [OF assms(1)] obtain adjust where
    "re_fetch E (up_roles p) (up_traits p) = Inr adjust"
    and t: "up_session_ttl p = min_ttl (adjust max_cert_duration) (cert_ttl req)" by blast
  then have "0 < adjust max_cert_duration \<and> adjust max_cert_duration \<le> max_cert_duration"
    using assms(2) unfolding shortens_ttl_def by blast
  with t assms(3) show ?thesis by (auto simp: min_ttl_def)
qed

section \<open>One subject, one user\<close>

definition subject_of :: "user \<Rightarrow> string \<Rightarrow> string \<Rightarrow> bool" where
  "subject_of u connector subject \<longleftrightarrow> subject \<noteq> [] \<and>
     (\<exists>i \<in> set (us_identities u). ei_connector i = connector \<and> ei_user_id i = subject)"

definition users_ok :: "user list \<Rightarrow> bool" where
  "users_ok tbl \<longleftrightarrow> distinct (map us_name tbl)
     \<and> (\<forall>u \<in> set tbl. \<forall>v \<in> set tbl. \<forall>c s. subject_of u c s \<longrightarrow> subject_of v c s \<longrightarrow> us_name u = us_name v)"

lemma users_okD:
  "users_ok tbl \<Longrightarrow> u \<in> set tbl \<Longrightarrow> v \<in> set tbl \<Longrightarrow> subject_of u c s \<Longrightarrow> subject_of v c s \<Longrightarrow> us_name u = us_name v"
  unfolding users_ok_def by (elim conjE ballE allE impE) auto

lemma users_okI:
  "distinct (map us_name tbl) \<Longrightarrow> (\<And>u v c s. u \<in> set tbl \<Longrightarrow> v \<in> set tbl \<Longrightarrow> subject_of u c s \<Longrightarrow>
     subject_of v c s \<Longrightarrow> us_name u = us_name v) \<Longrightarrow> users_ok tbl"
  unfolding users_ok_def by (intro conjI ballI allI impI) blast+

lemma users_ok_live: "users_ok tbl \<Longrightarrow> users_ok (get_users now tbl)"
  by (auto simp: users_ok_def get_users_def distinct_map_filter)

lemma get_user_Some: "get_user now n tbl = Some u \<Longrightarrow> u \<in> set (get_users now tbl) \<and> us_name u = n"
  by (auto simp: get_user_def find_Some_iff)

lemma get_user_None: "get_user now n tbl = None \<longleftrightarrow> n \<notin> us_name ` set (get_users now tbl)"
  by (auto simp: get_user_def find_None_iff)

lemma subject_of_new [simp]:
  "subject_of (new_user now p) c s \<longleftrightarrow> s \<noteq> [] \<and> c = up_connector p \<and> s = up_user_id p"
  by (auto simp: subject_of_def new_user_def)

lemma subject_of_revision [simp]: "subject_of (u\<lparr>us_revision := r\<rparr>) c s = subject_of u c s"
  by (simp add: subject_of_def)

lemma binding_ok:
  "validate_subject_binding (Inr us) c s n = None \<longleftrightarrow> (\<forall>u \<in> set us. subject_of u c s \<longrightarrow> us_name u = n)"
  by (auto simp: validate_subject_binding_def list_ex_iff subject_of_def)

lemma create_user_elim:
  assumes "create_user le ge now rv p dry tbl = (r, tbl')"
  obtains (unchanged) "tbl' = tbl"
  | (created) "\<forall>u \<in> set (get_users now tbl). subject_of u (up_connector p) (up_user_id p) \<longrightarrow> us_name u = up_username p"
      "get_user now (up_username p) tbl = None" "tbl' = get_users now tbl @ [(new_user now p)\<lparr>us_revision := rv\<rparr>]"
      "r = Inr ((new_user now p)\<lparr>us_revision := rv\<rparr>)" "\<not> dry"
  | (updated) old where
      "\<forall>u \<in> set (get_users now tbl). subject_of u (up_connector p) (up_user_id p) \<longrightarrow> us_name u = up_username p"
      "get_user now (up_username p) tbl = Some old"
      "tbl' = map (\<lambda>x. if us_name x = up_username p then (new_user now p)\<lparr>us_revision := rv\<rparr> else x) (get_users now tbl)"
      "r = Inr ((new_user now p)\<lparr>us_revision := rv\<rparr>)" "\<not> dry"
proof (cases "tbl' = tbl")
  case True
  then show ?thesis by (rule unchanged)
next
  case False
  have name: "us_name (new_user now p) = up_username p" by (simp add: new_user_def)
  from assms False have b: "validate_subject_binding (Inr (get_users now tbl)) (up_connector p) (up_user_id p) (up_username p) = None"
    and le: "le = None" and ge: "ge = None" and dry: "\<not> dry"
    by (auto simp: create_user_def Let_def validate_subject_binding_def split: option.split_asm if_split_asm)
  show ?thesis
  proof (cases "get_user now (up_username p) tbl")
    case None
    with assms b le ge dry have "store_create_user now rv (new_user now p) tbl = (r, tbl')"
      by (simp add: create_user_def)
    with False None name dry show ?thesis
      by (intro created) (auto simp: b [unfolded binding_ok] store_create_user_def Let_def split: option.split_asm)
  next
    case (Some old)
    from assms b le ge dry Some False
    have "store_update_user now rv ((new_user now p)\<lparr>us_revision := us_revision old\<rparr>) tbl = (r, tbl')"
      by (auto simp: create_user_def Let_def split: option.split_asm if_split_asm)
    with False Some name dry show ?thesis
      by (intro updated [of old])
         (auto simp: b [unfolded binding_ok] store_update_user_def Let_def split: option.split_asm if_split_asm)
  qed
qed

lemma create_user_keeps_binding:
  assumes "users_ok tbl" and "create_user le ge now rv p dry tbl = (r, tbl')"
  shows "users_ok tbl'"
  using assms(2)
proof (cases rule: create_user_elim)
  case unchanged
  with assms(1) show ?thesis by simp
next
  case created
  let ?n = "(new_user now p)\<lparr>us_revision := rv\<rparr>"
  have fresh: "up_username p \<notin> us_name ` set (get_users now tbl)" using created(2) by (simp add: get_user_None)
  have free: "\<not> subject_of u (up_connector p) (up_user_id p)" if "u \<in> set (get_users now tbl)" for u
    using created(1) fresh that by (metis image_eqI)
  have "us_name u = us_name v"
    if s: "u \<in> set tbl'" "v \<in> set tbl'" "subject_of u c s" "subject_of v c s" for u v c s
  proof -
    from s(1,2) created(3) consider "u = ?n" "v = ?n" | "u = ?n" "v \<in> set (get_users now tbl)"
      | "u \<in> set (get_users now tbl)" "v = ?n" | "u \<in> set (get_users now tbl)" "v \<in> set (get_users now tbl)" by auto
    then show ?thesis
    proof cases
      case 2
      with s(3,4) free [of v] show ?thesis by simp
    next
      case 3
      with s(3,4) free [of u] show ?thesis by simp
    next
      case 4
      from users_okD [OF users_ok_live [OF assms(1)] 4 s(3,4)] show ?thesis .
    qed simp
  qed
  moreover have "distinct (map us_name tbl')"
    using users_ok_live [OF assms(1), of now] created(3) fresh by (simp add: users_ok_def new_user_def)
  ultimately show ?thesis by (intro users_okI)
next
  case (updated old)
  let ?n = "(new_user now p)\<lparr>us_revision := rv\<rparr>"
  let ?f = "\<lambda>x. if us_name x = up_username p then ?n else x"
  have n: "us_name ?n = up_username p" by (simp add: new_user_def)
  then have "map us_name (map ?f (get_users now tbl)) = map us_name (get_users now tbl)" by simp
  then have d: "distinct (map us_name tbl')"
    using users_ok_live [OF assms(1), of now] unfolding updated(3) users_ok_def by (simp only:)
  have "us_name u = us_name v" if uv: "u \<in> set tbl'" "v \<in> set tbl'" "subject_of u c s" "subject_of v c s" for u v c s
  proof -
    have mem: "w = ?n \<or> w \<in> set (get_users now tbl) \<and> us_name w \<noteq> up_username p" if "w \<in> set tbl'" for w
      using that updated(3) by (auto split: if_split_asm)
    from mem [OF uv(1)] mem [OF uv(2)] consider "u = ?n" "v = ?n"
      | "u = ?n" "v \<in> set (get_users now tbl)" "us_name v \<noteq> up_username p"
      | "u \<in> set (get_users now tbl)" "us_name u \<noteq> up_username p" "v = ?n"
      | "u \<in> set (get_users now tbl)" "v \<in> set (get_users now tbl)" by blast
    then show ?thesis
    proof cases
      case 2
      with uv(3,4) updated(1) show ?thesis by simp
    next
      case 3
      with uv(3,4) updated(1) show ?thesis by simp
    next
      case 4
      from users_okD [OF users_ok_live [OF assms(1)] 4 uv(3,4)] show ?thesis .
    qed simp
  qed
  with d show ?thesis by (intro users_okI)
qed

text \<open>
  A Google subject belongs to one user. If the user names are distinct and no subject of a
  connector is bound to two names, the same holds after any login's \<^verbatim>\<open>createUser\<close>, whether it creates,
  updates or fails.
\<close>

theorem subject_binding_unique:
  assumes "users_ok tbl" and "create_user le ge now rv p dry tbl = (r, tbl')"
  shows "users_ok tbl'"
  by (rule create_user_keeps_binding [OF assms])

lemma validate_identities_None:
  "validate_identities is c s f = None \<longleftrightarrow>
     (\<forall>i \<in> set is. ei_connector i = c \<longrightarrow> ei_user_id i = s \<and> s \<noteq> []) \<and> (f \<or> (\<exists>i \<in> set is. ei_connector i = c))"
  by (induction "is" arbitrary: f) auto

text \<open>
  Property C20: no login takes over an account. When \<^verbatim>\<open>createUser\<close> succeeds for a name that exists, the
  existing user was created by the same connector and is bound to the very subject of this login;
  in every case the users of other names that are still live are unchanged.
\<close>

theorem existing_account_not_taken_over:
  assumes "create_user le ge now rv p dry tbl = (Inr u, tbl')"
  shows "(\<forall>old. get_user now (up_username p) tbl = Some old \<longrightarrow>
      (\<exists>r. us_connector old = Some r \<and> cr_type r = ''oidc'' \<and> cr_id r = up_connector p)
      \<and> subject_of old (up_connector p) (up_user_id p))
    \<and> (\<forall>v. us_name v \<noteq> up_username p \<longrightarrow> user_live now v \<longrightarrow> (v \<in> set tbl' \<longleftrightarrow> v \<in> set tbl))"
proof (intro conjI allI impI)
  fix old assume g: "get_user now (up_username p) tbl = Some old"
  with assms have "is_same_provider \<lparr>cr_type = ''oidc'', cr_id = up_connector p, cr_identity = up_username p\<rparr> (us_connector old)"
    and "validate_existing_subject old (up_connector p) (up_user_id p) = None"
    by (auto simp: create_user_def new_user_def Let_def split: option.split_asm if_split_asm)
  then show "\<exists>r. us_connector old = Some r \<and> cr_type r = ''oidc'' \<and> cr_id r = up_connector p"
    and "subject_of old (up_connector p) (up_user_id p)"
    by (auto simp: is_same_provider_def validate_existing_subject_def validate_identities_None subject_of_def
        split: option.split_asm)
next
  fix v assume v: "us_name v \<noteq> up_username p" "user_live now v"
  have n: "us_name (new_user now p) = up_username p" by (simp add: new_user_def)
  from assms show "v \<in> set tbl' \<longleftrightarrow> v \<in> set tbl"
  proof (cases rule: create_user_elim)
    case created
    with v n show ?thesis by (auto simp: get_users_def)
  next
    case (updated old)
    with v n show ?thesis by (auto simp: get_users_def split: if_split_asm)
  qed simp
qed

section \<open>A concrete login\<close>

definition sample_claims :: id_claims where
  "sample_claims = \<lparr>ic_issued_at = 0, ic_not_before = 0, ic_subject = ''s1'', ic_email = ''ann@ex.com'',
     ic_email_verified = True, ic_name = ''Ann'', ic_expiration = 3600, ic_acr = [],
     ic_raw = [''hd'' \<mapsto> JString ''Ex.com'', ''email'' \<mapsto> JString ''ann@ex.com'']\<rparr>"

lemma sample_identity: "check_identity_claims ascii_tables (Some sample_claims) [''ex.com'', ''b.org''] 0 = None"
  by (simp add: check_identity_claims_def sample_claims_def second_def hosted_domain_def check_hosted_domain_def
      check_email_domain_def last_cut_def go_eval del: decode.simps(2))

theorem identity_checks_exact_witness: "identity_ok ascii_tables [''ex.com'', ''b.org''] 0 sample_claims"
  using identity_checks_exact [OF sample_domains, of "Some sample_claims" 0] sample_identity by simp

definition sample_role_env :: role_env where
  "sample_role_env = \<lparr>re_evaluate = (\<lambda>t. Inr ([''rule''], t(groups_claim \<mapsto> [''forged@ex.com'']))),
     re_fetch = (\<lambda>_ _. Inr (\<lambda>d. min d (3600 * second)))\<rparr>"

definition sample_claim_map :: claim_map where
  "sample_claim_map = [''email'' \<mapsto> JString ''ann@ex.com'', groups_claim \<mapsto> JStrings [''qa@ex.com'']]"

lemma sample_claim_traits: "claims_to_traits sample_claim_map = sample_traits"
  by (intro ext) (simp add: claims_to_traits_def sample_claim_map_def sample_traits_def trait_of_claim_def)

definition sample_auth_request :: oidc_auth_request where
  "sample_auth_request = \<lparr>connector_id = ''google'', state_token = ''t'', csrf_token = replicate 64 CHR ''a'', redirect_url = [],
     ssh_public_key = [], tls_public_key = [], cert_ttl = 0, create_web_session = True,
     client_redirect_url = ''/web'', compatibility = [], route_to_cluster = [], kubernetes_cluster = [],
     sso_test_flow = False, connector_spec = None, proxy_address = ''tp.ex.com'',
     client_login_ip = ''10.0.0.1'', client_user_agent = [], pkce_verifier = ''v'', login_hint = [], req_scope = []\<rparr>"

definition sample_params :: user_params where
  "sample_params = (case fst (calculate_user ascii_tables sample_role_env sample_connector sample_claim_map
     sample_claims sample_auth_request [''qa@ex.com'']) of Inr p \<Rightarrow> p | Inl _ \<Rightarrow> undefined)"

lemma sample_calculated:
  "calculate_user ascii_tables sample_role_env sample_connector sample_claim_map sample_claims sample_auth_request
     [''qa@ex.com''] = (Inr sample_params, snd (calculate_user ascii_tables sample_role_env sample_connector
     sample_claim_map sample_claims sample_auth_request [''qa@ex.com'']))"
proof -
  have n: "username_from_claims sample_connector sample_claim_map = Inr ''ann@ex.com''"
    by (simp add: username_from_claims_def sample_connector_def sample_spec_def sample_claim_map_def groups_claim_def)
  have "snd (traits_to_roles ascii_tables (get_trait_mappings sample_connector) sample_traits) \<noteq> []"
    using sample_granted by auto
  then have "\<exists>p. fst (calculate_user ascii_tables sample_role_env sample_connector sample_claim_map sample_claims
      sample_auth_request [''qa@ex.com'']) = Inr p"
    using n by (simp add: calculate_user_def sample_claim_traits sample_role_env_def Let_def case_prod_unfold)
  then show ?thesis by (auto simp: sample_params_def intro: prod_eqI)
qed

theorem groups_trait_is_verified_witness:
  "up_traits sample_params groups_claim = Some [''qa@ex.com''] \<and> up_roles sample_params \<noteq> []"
  using groups_trait_is_verified [OF sample_calculated] by force

lemma sample_shortens: "shortens_ttl sample_role_env"
  by (auto simp: shortens_ttl_def sample_role_env_def max_cert_duration_def second_def)

definition sample_user_params :: user_params where
  "sample_user_params = \<lparr>up_connector = ''google'', up_username = ''ann@ex.com'', up_user_id = ''s1'',
     up_roles = [''dev''], up_traits = sample_traits, up_session_ttl = 100\<rparr>"

definition sample_table :: "user list" where
  "sample_table = [(new_user 0 sample_user_params)\<lparr>us_revision := ''r1''\<rparr>]"

lemma sample_table_ok: "users_ok sample_table"
  by (simp add: users_ok_def sample_table_def)

lemma sample_login:
  "create_user None None 5 ''r2'' sample_user_params False sample_table =
     (Inr ((new_user 5 sample_user_params)\<lparr>us_revision := ''r2''\<rparr>),
      [(new_user 5 sample_user_params)\<lparr>us_revision := ''r2''\<rparr>])"
  by (simp add: create_user_def sample_table_def sample_user_params_def new_user_def get_users_def get_user_def
      user_live_def validate_subject_binding_def is_same_provider_def validate_existing_subject_def
      store_update_user_def validate_user_def Let_def)

theorem subject_binding_unique_witness: "users_ok [(new_user 5 sample_user_params)\<lparr>us_revision := ''r2''\<rparr>]"
  by (rule subject_binding_unique [OF sample_table_ok sample_login])

theorem existing_account_not_taken_over_witness:
  "subject_of ((new_user 0 sample_user_params)\<lparr>us_revision := ''r1''\<rparr>) ''google'' ''s1''"
proof -
  have "get_user 5 ''ann@ex.com'' sample_table = Some ((new_user 0 sample_user_params)\<lparr>us_revision := ''r1''\<rparr>)"
    by (simp add: get_user_def get_users_def sample_table_def user_live_def new_user_def sample_user_params_def)
  then show ?thesis using existing_account_not_taken_over [OF sample_login] by (simp add: sample_user_params_def)
qed

end
