(* ===== verification/Redirect.thy ===== *)
theory Redirect
  imports Replace Connector
begin

text \<open>
  Where a console login may be sent at its end: \<^verbatim>\<open>ValidateClientRedirect\<close> of
  \<^verbatim>\<open>lib/client/sso/redirector.go\<close>. \<open>in_cidr host range\<close> says that \<open>host\<close> is an IP address and that
  \<open>range\<close> is a CIDR prefix that contains it (\<^verbatim>\<open>netip.ParseAddr\<close>, \<^verbatim>\<open>Unmap\<close>, \<^verbatim>\<open>ParsePrefix\<close>, \<^verbatim>\<open>Contains\<close>); it is an argument.
\<close>

datatype ceremony = CeremonyLogin | CeremonyMFA | CeremonyTest

definition web_mfa_redirect :: string where "web_mfa_redirect = ''/web/sso_confirm''"

text \<open>\<^verbatim>\<open>url.ParseQuery\<close>: the pairs, or \<open>None\<close> for an error in any of them.\<close>

fun parse_pairs :: "string list \<Rightarrow> (string \<times> string) list option" where
  "parse_pairs [] = Some []"
| "parse_pairs (p # ps) =
     (if p = [] then parse_pairs ps
      else if CHR '';'' \<in> set p then None
      else let (k, v, _) = cut (CHR ''='') p in
        case (unescape EncodeQuery k, unescape EncodeQuery v, parse_pairs ps) of
          (Some k', Some v', Some r) \<Rightarrow> Some ((k', v') # r)
        | _ \<Rightarrow> None)"

definition parse_query :: "string \<Rightarrow> (string \<times> string) list option" where
  "parse_query q = parse_pairs (split_on (CHR ''&'') q)"

text \<open>\<^verbatim>\<open>len(q) == 1 && len(q[name]) == 1\<close>: one parameter, given once.\<close>

definition only_param :: "string \<Rightarrow> (string \<times> string) list \<Rightarrow> bool" where
  "only_param name q \<longleftrightarrow> length (deduplicate (map fst q)) = 1 \<and> length (filter (\<lambda>p. fst p = name) q) = 1"

definition check_query :: "string \<Rightarrow> url \<Rightarrow> err option" where
  "check_query name u =
     (case parse_query (url_raw_query u) of
        None \<Rightarrow> Some (Err OtherError ''parsing query in client redirect URL'')
      | Some q \<Rightarrow> if only_param name q then None
                 else Some (Err BadParameter ''malformed query parameters in client redirect URL''))"

definition unknown_hostname :: err where
  "unknown_hostname = Err AccessDenied ''unknown custom client redirect URL hostname''"

fun https_hostname_allowed :: "golib \<Rightarrow> string \<Rightarrow> string list \<Rightarrow> bool" where
  "https_hostname_allowed U host [] \<longleftrightarrow> False"
| "https_hostname_allowed U host (e # es) \<longleftrightarrow>
     (case match_string U host e of
        Inr r \<Rightarrow> r \<or> https_hostname_allowed U host es
      | Inl _ \<Rightarrow> https_hostname_allowed U host es)"

definition validate_custom_host ::
  "golib \<Rightarrow> (string \<Rightarrow> string \<Rightarrow> bool) \<Rightarrow> url \<Rightarrow> redirect_settings \<Rightarrow> err option" where
  "validate_custom_host U in_cidr u settings =
     (if list_ex (in_cidr (hostname u)) (insecure_allowed_cidr_ranges settings) then None
      else if url_scheme u = ''https'' then
        (if port u \<notin> {[], ''443''} then Some (Err BadParameter ''invalid port in client redirect URL'')
         else if https_hostname_allowed U (hostname u) (allowed_https_hostnames settings) then None
         else Some unknown_hostname)
      else Some unknown_hostname)"

definition validate_client_redirect ::
  "golib \<Rightarrow> (string \<Rightarrow> string \<Rightarrow> bool) \<Rightarrow> string \<Rightarrow> ceremony \<Rightarrow> redirect_settings option \<Rightarrow> err option" where
  "validate_client_redirect U in_cidr client_redirect kind settings =
     (if client_redirect = [] then None
      else case url_parse U client_redirect of
          None \<Rightarrow> Some (Err OtherError ''parsing client redirect URL'')
        | Some u \<Rightarrow>
            if url_opaque u \<noteq> [] then Some (Err BadParameter ''unexpected opaque client redirect URL'')
            else if url_user u then Some (Err BadParameter ''unexpected userinfo in client redirect URL'')
            else if url_fragment u \<noteq> [] then Some (Err BadParameter ''unexpected fragment in client redirect URL'')
            else if url_path u = web_mfa_redirect then
              (if kind \<noteq> CeremonyMFA
               then Some (Err BadParameter ''the web mfa redirect path cannot be used for non-MFA flows'')
               else if is_abs u \<or> hostname u \<noteq> []
               then Some (Err BadParameter ''invalid client redirect URL for SSO MFA'')
               else check_query ''channel_id'' u)
            else if escaped_path u \<noteq> ''/callback'' then Some (Err BadParameter ''invalid path in client redirect URL'')
            else if check_query ''secret_key'' u \<noteq> None then check_query ''secret_key'' u
            else if url_scheme u \<noteq> ''http'' \<and> url_scheme u \<noteq> ''https''
            then Some (Err BadParameter ''invalid scheme in client redirect URL'')
            else if url_scheme u = ''http'' \<and> hostname u \<in> {''localhost'', ''127.0.0.1'', ''::1''} then None
            else if kind = CeremonyTest
            then Some (Err AccessDenied ''custom client redirect URLs are not allowed in SSO test'')
            else case settings of
                None \<Rightarrow> Some unknown_hostname
              | Some st \<Rightarrow> validate_custom_host U in_cidr u st)"

section \<open>What is accepted\<close>

definition loopback_redirect :: "url \<Rightarrow> bool" where
  "loopback_redirect u \<longleftrightarrow> url_scheme u = ''http'' \<and> hostname u \<in> {''localhost'', ''127.0.0.1'', ''::1''}"

definition configured_redirect :: "golib \<Rightarrow> (string \<Rightarrow> string \<Rightarrow> bool) \<Rightarrow> redirect_settings \<Rightarrow> url \<Rightarrow> bool" where
  "configured_redirect U in_cidr st u \<longleftrightarrow> url_scheme u \<in> {''http'', ''https''}
     \<and> ((\<exists>r \<in> set (insecure_allowed_cidr_ranges st). in_cidr (hostname u) r)
        \<or> url_scheme u = ''https'' \<and> port u \<in> {[], ''443''}
          \<and> (\<exists>e \<in> set (allowed_https_hostnames st). match_string U (hostname u) e = Inr True))"

lemma https_hostname_allowed_iff:
  "https_hostname_allowed U host es \<longleftrightarrow> (\<exists>e \<in> set es. match_string U host e = Inr True)"
  by (induction es) (auto split: sum.splits)

lemma validate_custom_host_None:
  "validate_custom_host U in_cidr u st = None \<Longrightarrow> url_scheme u \<in> {''http'', ''https''} \<Longrightarrow>
     configured_redirect U in_cidr st u"
  by (auto simp: validate_custom_host_def configured_redirect_def https_hostname_allowed_iff list_ex_iff
      split: if_split_asm)

lemma accepted_login_redirect:
  assumes "validate_client_redirect U in_cidr r kind settings = None" and "r \<noteq> []" and "kind \<noteq> CeremonyMFA"
  shows "\<exists>u. url_parse U r = Some u \<and> url_opaque u = [] \<and> \<not> url_user u \<and> url_fragment u = []
    \<and> escaped_path u = ''/callback'' \<and> check_query ''secret_key'' u = None
    \<and> (loopback_redirect u
       \<or> kind = CeremonyLogin \<and> (\<exists>st. settings = Some st \<and> configured_redirect U in_cidr st u))"
proof -
  from assms(1,2) obtain u where u: "url_parse U r = Some u"
    by (auto simp: validate_client_redirect_def split: option.split_asm)
  from assms u have c: "url_opaque u = []" "\<not> url_user u" "url_fragment u = []" "escaped_path u = ''/callback''"
    "check_query ''secret_key'' u = None" "url_scheme u \<in> {''http'', ''https''}"
    by (auto simp: validate_client_redirect_def split: if_split_asm)
  show ?thesis
  proof (cases "loopback_redirect u")
    case True
    with u c show ?thesis by blast
  next
    case False
    with assms u c obtain st where "settings = Some st" "kind = CeremonyLogin"
      "validate_custom_host U in_cidr u st = None"
      by (cases kind; cases settings)
         (auto simp: validate_client_redirect_def loopback_redirect_def split: if_split_asm)
    with u c validate_custom_host_None [of U in_cidr u st] show ?thesis by blast
  qed
qed

text \<open>
  A client redirect URL accepted for a login or a test is empty, or is a URL with the path
  \<^verbatim>\<open>/callback\<close>, exactly one \<^verbatim>\<open>secret_key\<close> parameter and no user information or fragment, that goes over
  HTTP to the loopback interface, or, in a login only, to a host that the connector's redirect
  settings list. A test never leaves the loopback interface.
\<close>

theorem client_redirect_accepted:
  assumes "validate_client_redirect U in_cidr r kind settings = None" and "r \<noteq> []" and "kind \<noteq> CeremonyMFA"
  shows "\<exists>u. url_parse U r = Some u \<and> url_opaque u = [] \<and> \<not> url_user u \<and> url_fragment u = []
    \<and> escaped_path u = ''/callback'' \<and> check_query ''secret_key'' u = None
    \<and> (loopback_redirect u
       \<or> kind = CeremonyLogin \<and> (\<exists>st. settings = Some st \<and> configured_redirect U in_cidr st u))"
  by (rule accepted_login_redirect [OF assms])

definition sample_key_text :: string where
  "sample_key_text = concat (replicate 32 ''72'')"

definition sample_redirect_url :: string where
  "sample_redirect_url = ''http://127.0.0.1:8080/callback?secret_key='' @ sample_key_text"

lemma sample_redirect_ok:
  "validate_client_redirect ascii_tables (\<lambda>_ _. False) sample_redirect_url CeremonyLogin None = None"
  by code_simp

theorem client_redirect_accepted_witness:
  "\<exists>u. url_parse ascii_tables sample_redirect_url = Some u \<and> url_opaque u = [] \<and> \<not> url_user u \<and> url_fragment u = []
    \<and> escaped_path u = ''/callback'' \<and> check_query ''secret_key'' u = None
    \<and> (loopback_redirect u \<or> CeremonyLogin = CeremonyLogin
         \<and> (\<exists>st. None = Some st \<and> configured_redirect ascii_tables (\<lambda>_ _. False) st u))"
  by (rule client_redirect_accepted [OF sample_redirect_ok]) (simp_all add: sample_redirect_url_def)

end
