(* ===== verification/Login.thy ===== *)
theory Login
  imports StateStore GroupLookup Transport Identity Redirect
begin

text \<open>
  The login runtime of \<^verbatim>\<open>lib/googleoidc\<close>: starting a login (request.go), the callback that finishes it
  (callback.go), connector resolution (service.go) and the audit of it (audit.go).

  The state of the cluster that a login reads and writes is the record \<open>world\<close>: the backend with the
  auth requests, nonces and markers, the users, the connectors, what credentials were issued and the
  audit log. Everything the code calls outside of it, Google first of all, is a field of \<open>login_env\<close>:
  the token exchange, the ID token validator, the generated Cloud Identity client, login rules,
  role sets, login hooks and the issuing of sessions and certificates. The clock is read at several
  points of a callback; each reading is a field. The stages of \<^verbatim>\<open>validateCallback\<close> are separate
  definitions, composed in the order of the code; an error carries the failure class the code
  records before it returns.
\<close>

section \<open>The environment and the world\<close>

record oauth2_token =
  tk_access :: string
  tk_id_token :: "string option"

record user_state =
  ust_name :: string
  ust_roles :: "string list"
  ust_traits :: traits

record session_grant =
  sg_user :: string
  sg_roles :: "string list"
  sg_ttl :: int
  sg_web :: bool

record auth_response =
  ar_username :: string
  ar_identity :: external_identity
  ar_req :: oidc_auth_request
  ar_session :: "string option"
  ar_certs :: "(string \<times> string) option"
  ar_host_signers :: "string list"
  ar_client_options :: "string option"

record login_env =
  le_lib :: golib
  le_sha256 :: "string \<Rightarrow> string"
  le_codec :: codec
  le_ttl :: int
  le_revision :: string
  le_t_lookup :: int
  le_t_claim :: int
  le_t_nonce :: int
  le_t_check :: int
  le_t_user :: int
  le_discover :: "string \<Rightarrow> discovery option result"
  le_exchange :: "oauth2_config \<Rightarrow> string \<Rightarrow> string \<Rightarrow> oauth2_token result"
  le_validator_err :: "err option"
  le_validate_token :: "string \<Rightarrow> string \<Rightarrow> string \<Rightarrow> string \<Rightarrow> id_claims option result"
  le_claims_map :: "id_claims \<Rightarrow> claim_map result"
  le_gapi :: gapi
  le_net :: network
  le_roles :: role_env
  le_list_err :: "err option"
  le_get_err :: "err option"
  le_login_hooks :: "user \<Rightarrow> err option"
  le_user_state :: "string \<Rightarrow> user_state result"
  le_web_session :: "session_grant \<Rightarrow> string result"
  le_session_certs :: "session_grant \<Rightarrow> (string \<times> string) result"
  le_cluster_name :: "string result"
  le_host_ca :: "string \<Rightarrow> string result"
  le_client_options :: "user_state \<Rightarrow> string result"
  le_in_cidr :: "string \<Rightarrow> string \<Rightarrow> bool"
  le_challenge :: "string \<Rightarrow> string"
  le_auth_code_url :: "oauth2_config \<Rightarrow> string \<Rightarrow> (string \<times> string) list \<Rightarrow> string"

datatype login_code = CodeLogin | CodeLoginFailure | CodeTestLogin | CodeTestFailure

datatype lookup_class = LookupOutcome group_outcome | LookupFailure group_failure

record group_attributes =
  ga_class :: lookup_class
  ga_mode :: membership_mode
  ga_count :: nat
  ga_rejected :: rejections

record login_event =
  ev_code :: login_code
  ev_success :: bool
  ev_user :: string
  ev_class :: "failure_class option"
  ev_connector :: string
  ev_remote_addr :: string
  ev_user_agent :: string
  ev_source :: role_source
  ev_test_flow :: bool
  ev_warnings :: nat
  ev_groups :: "group_attributes option"
  ev_rules :: "string list"

record world =
  lw_mem :: memory
  lw_users :: "user list"
  lw_connectors :: "string \<Rightarrow> oidc_connector option"
  lw_grants :: "session_grant list"
  lw_audit :: "login_event list"

section \<open>Connector resolution (service.go)\<close>

definition get_oidc_connector :: "string \<Rightarrow> world \<Rightarrow> oidc_connector result" where
  "get_oidc_connector name w =
     (if name = [] then Inl (Err BadParameter ''missing parameter name'')
      else case lw_connectors w name of
          None \<Rightarrow> Inl (Err NotFound ''OpenID connector is not configured'')
        | Some c \<Rightarrow> Inr c)"

definition get_connector :: "golib \<Rightarrow> oidc_auth_request \<Rightarrow> world \<Rightarrow> oidc_connector result" where
  "get_connector U req w =
     (if sso_test_flow req then
        (case connector_spec req of
           None \<Rightarrow> Inl (Err BadParameter ''ConnectorSpec cannot be nil when SSOTestFlow is true'')
         | Some spec \<Rightarrow>
             if connector_id req = [] then Inl (Err BadParameter ''ConnectorID cannot be empty'')
             else case new_oidc_connector U (connector_id req) spec of
                 Inl e \<Rightarrow> Inl e
               | Inr c \<Rightarrow> (case validate_connector U (Some c) of Some e \<Rightarrow> Inl e | None \<Rightarrow> Inr c))
      else case get_oidc_connector (connector_id req) w of
          Inl e \<Rightarrow> Inl e
        | Inr c \<Rightarrow> (case validate_connector U (Some c) of Some e \<Rightarrow> Inl e | None \<Rightarrow> Inr c))"

section \<open>Starting a login (request.go)\<close>

definition max_audit_user_agent_bytes :: nat where "max_audit_user_agent_bytes = 512"

record request_secrets =
  sec_state :: string
  sec_nonce :: string
  sec_verifier :: string

definition auth_code_options ::
  "login_env \<Rightarrow> oidc_connector \<Rightarrow> oidc_auth_request \<Rightarrow> string \<Rightarrow> string list \<Rightarrow> (string \<times> string) list" where
  "auth_code_options E conn req nonce domains =
     [(''nonce'', nonce), (''code_challenge_method'', ''S256''),
      (''code_challenge'', le_challenge E (pkce_verifier req)), (''hd'', join_with '','' domains)]
     @ (if login_hint req \<noteq> [] then [(''login_hint'', login_hint req)] else [])
     @ (if get_prompt conn \<noteq> [] then [(''prompt'', get_prompt conn)] else [])
     @ (if acr (con_spec conn) \<noteq> [] then [(''acr_values'', acr (con_spec conn))] else [])"

definition clean_user_agent :: "oidc_auth_request \<Rightarrow> oidc_auth_request" where
  "clean_user_agent req =
     (if length (client_user_agent req) > max_audit_user_agent_bytes \<or> \<not> valid_utf8 (client_user_agent req)
      then req\<lparr>client_user_agent := []\<rparr> else req)"

definition prepare_request ::
  "login_env \<Rightarrow> request_secrets result \<Rightarrow> oidc_auth_request \<Rightarrow> world \<Rightarrow> (oidc_auth_request \<times> string) result" where
  "prepare_request E secrets req0 w =
     (let U = le_lib E; req = clean_user_agent req0 in
      case validate_auth_request_mode req of Some e \<Rightarrow> Inl e
      | None \<Rightarrow>
     (case get_connector U req w of Inl e \<Rightarrow> Inl e
      | Inr conn \<Rightarrow>
     (case workspace_domains U conn of Inl e \<Rightarrow> Inl e
      | Inr domains \<Rightarrow>
     (case (if create_web_session req then None
            else validate_client_redirect U (le_in_cidr E) (client_redirect_url req)
              (if sso_test_flow req then CeremonyTest else CeremonyLogin)
              (client_redirect_settings (con_spec conn))) of Some e \<Rightarrow> Inl e
      | None \<Rightarrow>
     (case secrets of Inl e \<Rightarrow> Inl e
      | Inr sec \<Rightarrow>
     (let req1 = req\<lparr>pkce_verifier := sec_verifier sec, state_token := sec_state sec\<rparr> in
      case redirect_url_for_proxy U conn (proxy_address req1) of Inl e \<Rightarrow> Inl e
      | Inr callback_url \<Rightarrow>
     (case new_oauth2_config (le_discover E) conn callback_url of Inl e \<Rightarrow> Inl e
      | Inr config \<Rightarrow>
          Inr (req1\<lparr>redirect_url := le_auth_code_url E config (state_token req1)
                 (auth_code_options E conn req1 (sec_nonce sec) domains)\<rparr>, sec_nonce sec))))))))"

definition create_auth_request ::
  "login_env \<Rightarrow> request_secrets result \<Rightarrow> oidc_auth_request \<Rightarrow> world \<Rightarrow> oidc_auth_request result \<times> world" where
  "create_auth_request E secrets req0 w =
     (case prepare_request E secrets req0 w of
        Inl e \<Rightarrow> (Inl e, w)
      | Inr (req, nonce) \<Rightarrow>
          (case put_nonce mem_create (le_sha256 E) (le_ttl E) (le_t_claim E) (le_revision E)
                  (state_token req) nonce (lw_mem w) of
             (Inl e, m) \<Rightarrow> (Inl e, w\<lparr>lw_mem := m\<rparr>)
           | (Inr _, m) \<Rightarrow>
               (case create_auth_request_item mem_create (le_codec E) (le_ttl E) (le_t_claim E)
                       (le_revision E) req m of
                  (Inl e, m') \<Rightarrow> (Inl e, w\<lparr>lw_mem := m'\<rparr>)
                | (Inr _, m') \<Rightarrow> (Inr req, w\<lparr>lw_mem := m'\<rparr>))))"

section \<open>The audit of a callback (audit.go)\<close>

record callback_audit =
  ca_emit :: bool
  ca_request :: "oidc_auth_request option"
  ca_connector :: string
  ca_class :: "failure_class option"
  ca_source :: role_source
  ca_warnings :: nat
  ca_rules :: "string list"
  ca_lookup :: "lookup_result option"

definition new_callback_audit :: callback_audit where
  "new_callback_audit = \<lparr>ca_emit = False, ca_request = None, ca_connector = [], ca_class = None,
     ca_source = SourceNone, ca_warnings = 0, ca_rules = [], ca_lookup = None\<rparr>"

definition set_request :: "oidc_auth_request \<Rightarrow> callback_audit \<Rightarrow> callback_audit" where
  "set_request req a = a\<lparr>ca_emit := True, ca_request := Some req, ca_connector := connector_id req\<rparr>"

definition group_audit_attributes :: "callback_audit \<Rightarrow> group_attributes option" where
  "group_audit_attributes a =
     map_option (\<lambda>r. \<lparr>ga_class = (if lookup_failed r then LookupFailure (lr_failure r) else LookupOutcome (lr_outcome r)),
       ga_mode = lr_mode r, ga_count = length (lr_groups r), ga_rejected = lr_rejected r\<rparr>) (ca_lookup a)"

definition provider_error :: "failure_class \<Rightarrow> err \<Rightarrow> err" where
  "provider_error c e = Err AccessDenied ''OIDC callback failed''"

definition login_event_of :: "callback_audit \<Rightarrow> auth_response result \<Rightarrow> login_event" where
  "login_event_of a r =
     (let test_flow = (case ca_request a of None \<Rightarrow> False | Some q \<Rightarrow> sso_test_flow q);
          success = \<not> is_err r;
          agent = (case ca_request a of None \<Rightarrow> [] | Some q \<Rightarrow>
                     if client_user_agent q \<noteq> [] \<and> length (client_user_agent q) \<le> max_audit_user_agent_bytes
                        \<and> valid_utf8 (client_user_agent q) then client_user_agent q else []) in
      \<lparr>ev_code = (if success \<and> test_flow then CodeTestLogin else if \<not> success \<and> test_flow then CodeTestFailure
                  else if \<not> success then CodeLoginFailure else CodeLogin),
       ev_success = success,
       ev_user = (case r of Inr resp \<Rightarrow> ar_username resp | Inl _ \<Rightarrow> []),
       ev_class = (if success then None else Some (case ca_class a of None \<Rightarrow> InternalError | Some c \<Rightarrow> c)),
       ev_connector = ca_connector a,
       ev_remote_addr = (case ca_request a of None \<Rightarrow> [] | Some q \<Rightarrow> client_login_ip q),
       ev_user_agent = agent, ev_source = ca_source a, ev_test_flow = test_flow,
       ev_warnings = ca_warnings a, ev_groups = group_audit_attributes a, ev_rules = ca_rules a\<rparr>)"

section \<open>The callback (callback.go)\<close>

definition err_state_not_usable :: err where
  "err_state_not_usable =
     Err AccessDenied ''OIDC login session is not valid. Please start the login again.''"

type_synonym query = "(string \<times> string) list"

definition q_get :: "query \<Rightarrow> string \<Rightarrow> string" where
  "q_get q name = (case map_of q name of None \<Rightarrow> [] | Some v \<Rightarrow> v)"

text \<open>The state token: looked up, then claimed, then the mode of the request. The result is the request;
  the audit and the backend are returned on every path.\<close>

definition claim_request ::
  "login_env \<Rightarrow> string \<Rightarrow> world \<Rightarrow> oidc_auth_request outcome \<times> callback_audit \<times> world" where
  "claim_request E token w =
     (case get_auth_request_item mem_get (le_codec E) (le_t_lookup E) token (lw_mem w) of
        (Inl _, m) \<Rightarrow> (Inl (Some UnknownState, err_state_not_usable), new_callback_audit, w\<lparr>lw_mem := m\<rparr>)
      | (Inr req, m) \<Rightarrow>
          let a = set_request req new_callback_audit in
          (case claim mem_create (le_sha256 E) (le_ttl E) (le_t_claim E) (le_revision E) token m of
             (Inl e, m') \<Rightarrow>
               (Inl (if e = state_already_used then (Some CallbackReplayed, err_state_not_usable)
                     else (Some InternalError, e)), a, w\<lparr>lw_mem := m'\<rparr>)
           | (Inr _, m') \<Rightarrow>
               (case validate_auth_request_mode req of
                  Some e \<Rightarrow> (Inl (Some RequestValidation, e), a, w\<lparr>lw_mem := m'\<rparr>)
                | None \<Rightarrow> (Inr req, a, w\<lparr>lw_mem := m'\<rparr>))))"

definition begin_callback ::
  "login_env \<Rightarrow> query \<Rightarrow> world \<Rightarrow> oidc_auth_request outcome \<times> callback_audit \<times> world" where
  "begin_callback E q w =
     (let token = q_get q ''state'' in
      if token = [] then (Inl (None, Err BadParameter ''OIDC callback is missing state''), new_callback_audit, w)
      else if q_get q ''error'' \<noteq> [] \<or> q_get q ''code'' = [] then
        (let failure = (if q_get q ''error'' \<noteq> []
                        then (Some ProviderError, Err AccessDenied ''OIDC provider rejected authentication'')
                        else (Some InvalidCallback, Err BadParameter ''OIDC callback is missing code'')) in
         case get_auth_request_item mem_get (le_codec E) (le_t_lookup E) token (lw_mem w) of
           (Inl _, m) \<Rightarrow> (Inl failure, new_callback_audit, w\<lparr>lw_mem := m\<rparr>)
         | (Inr req, m) \<Rightarrow> (Inl failure, set_request req new_callback_audit, w\<lparr>lw_mem := m\<rparr>))
      else claim_request E token w)"

record login_setup =
  st_connector :: oidc_connector
  st_domains :: "string list"
  st_groups :: group_settings
  st_nonce :: string
  st_config :: oauth2_config

definition configure_login ::
  "login_env \<Rightarrow> string \<Rightarrow> oidc_auth_request \<Rightarrow> callback_audit \<Rightarrow> world \<Rightarrow>
     login_setup outcome \<times> callback_audit \<times> world" where
  "configure_login E token req a w =
     (let U = le_lib E in
      case get_connector U req w of
        Inl e \<Rightarrow> (Inl (Some ConnectorResolution, e), a, w)
      | Inr conn \<Rightarrow>
     (let a1 = a\<lparr>ca_connector := con_name conn\<rparr> in
      case workspace_domains U conn of
        Inl e \<Rightarrow> (Inl (Some ConnectorResolution, e), a1, w)
      | Inr domains \<Rightarrow>
     (case group_lookup_settings U (Some conn) of
        Inl e \<Rightarrow> (Inl (Some ConnectorResolution, e), a1, w)
      | Inr settings \<Rightarrow>
      if pkce_verifier req = []
      then (Inl (Some PKCEVerification,
              Err AccessDenied ''OIDC authentication request is missing PKCE verification data''), a1, w)
      else
     (case get_nonce mem_get (le_sha256 E) (le_t_nonce E) token (lw_mem w) of
        (Inl e, m) \<Rightarrow> (Inl (Some RequestValidation, e), a1, w\<lparr>lw_mem := m\<rparr>)
      | (Inr nonce, m) \<Rightarrow>
     (let w1 = w\<lparr>lw_mem := m\<rparr> in
      case redirect_url_for_proxy U conn (proxy_address req) of
        Inl e \<Rightarrow> (Inl (Some RedirectValidation, e), a1, w1)
      | Inr callback_url \<Rightarrow>
     (case new_oauth2_config (le_discover E) conn callback_url of
        Inl e \<Rightarrow> (Inl (Some ProviderConfiguration, provider_error ProviderConfiguration e), a1, w1)
      | Inr config \<Rightarrow>
          (Inr \<lparr>st_connector = conn, st_domains = domains, st_groups = settings, st_nonce = nonce,
             st_config = config\<rparr>, a1, w1)))))))"

record verified_token =
  vt_access :: string
  vt_claims :: id_claims
  vt_raw :: claim_map

definition verify_token ::
  "login_env \<Rightarrow> string \<Rightarrow> oidc_auth_request \<Rightarrow> login_setup \<Rightarrow> verified_token outcome" where
  "verify_token E code req st =
     (let U = le_lib E; conn = st_connector st in
      case le_exchange E (st_config st) code (pkce_verifier req) of
        Inl e \<Rightarrow> Inl (Some TokenExchange, provider_error TokenExchange e)
      | Inr token \<Rightarrow>
     (case tk_id_token token of
        None \<Rightarrow> Inl (Some IDTokenValidation, Err BadParameter ''missing or invalid id_token'')
      | Some id_token \<Rightarrow>
      if id_token = [] then Inl (Some IDTokenValidation, Err BadParameter ''missing or invalid id_token'')
      else
     (case le_validator_err E of
        Some e \<Rightarrow> Inl (Some IDTokenValidation, provider_error IDTokenValidation e)
      | None \<Rightarrow>
     (case le_validate_token E (issuer_url (con_spec conn)) (client_id (con_spec conn)) (st_nonce st) id_token of
        Inl e \<Rightarrow> Inl (Some IDTokenValidation, provider_error IDTokenValidation e)
      | Inr claims \<Rightarrow>
     (case check_identity_claims U claims (st_domains st) (le_t_check E) of
        Some (c, e) \<Rightarrow> Inl (Some c, e)
      | None \<Rightarrow>
     (case le_claims_map E (the claims) of
        Inl e \<Rightarrow> Inl (Some ClaimsProcessing, e)
      | Inr raw \<Rightarrow>
          Inr \<lparr>vt_access = tk_access token, vt_claims = the claims, vt_raw = raw(groups_claim := None)\<rparr>))))))"

definition resolve_groups ::
  "login_env \<Rightarrow> login_setup \<Rightarrow> verified_token \<Rightarrow> callback_audit \<Rightarrow> string list \<times> claim_map \<times> callback_audit" where
  "resolve_groups E st vt a =
     (if \<not> gs_enabled (st_groups st) then ([], vt_raw vt, a)
      else let r = fst (lookup_groups (le_lib E) (le_gapi E) (le_net E) (st_groups st) (vt_access vt)
                          (ic_email (vt_claims vt)));
               a1 = a\<lparr>ca_lookup := Some r\<rparr> in
        (lr_groups r,
         if lr_groups r \<noteq> [] then (vt_raw vt)(groups_claim \<mapsto> JStrings (lr_groups r)) else vt_raw vt, a1))"

definition login_user ::
  "login_env \<Rightarrow> oidc_auth_request \<Rightarrow> login_setup \<Rightarrow> verified_token \<Rightarrow> callback_audit \<Rightarrow> world \<Rightarrow>
     (user \<times> user_params) outcome \<times> callback_audit \<times> world" where
  "login_user E req st vt a w =
     (let conn = st_connector st; (verified, raw, a1) = resolve_groups E st vt a in
      if acr (con_spec conn) \<noteq> [] \<and> ic_acr (vt_claims vt) \<noteq> acr (con_spec conn)
      then (Inl (Some IdentityValidation,
              Err AccessDenied ''OIDC provider did not return the expected ACR value''), a1, w)
      else let (r, ra) = calculate_user (le_lib E) (le_roles E) conn raw (vt_claims vt) req verified;
               a2 = a1\<lparr>ca_source := ra_source ra, ca_warnings := ra_warnings ra, ca_rules := ra_rules ra\<rparr> in
        case r of
          Inl e \<Rightarrow> (Inl (Some RoleMapping, e), a2, w)
        | Inr params \<Rightarrow>
            (case create_user (le_list_err E) (le_get_err E) (le_t_user E) (le_revision E) params
                    (sso_test_flow req) (lw_users w) of
               (Inl e, tbl) \<Rightarrow> (Inl (Some UserCreation, e), a2, w\<lparr>lw_users := tbl\<rparr>)
             | (Inr u, tbl) \<Rightarrow> (Inr (u, params), a2, w\<lparr>lw_users := tbl\<rparr>)))"

definition external_identity_of :: "string \<Rightarrow> string \<Rightarrow> string \<Rightarrow> external_identity" where
  "external_identity_of c n i = \<lparr>ei_connector = c, ei_username = n, ei_user_id = i\<rparr>"

definition make_auth_response ::
  "login_env \<Rightarrow> oidc_auth_request \<Rightarrow> user_state \<Rightarrow> string \<Rightarrow> int \<Rightarrow> world \<Rightarrow> auth_response result \<times> world" where
  "make_auth_response E req us subject ttl w =
     (let grant = \<lparr>sg_user = ust_name us, sg_roles = ust_roles us, sg_ttl = ttl, sg_web = True\<rparr>;
          session = (if create_web_session req then map_sum id Some (le_web_session E grant) else Inr None);
          w1 = (if create_web_session req \<and> \<not> is_err session then w\<lparr>lw_grants := lw_grants w @ [grant]\<rparr> else w) in
      case session of
        Inl e \<Rightarrow> (Inl e, w)
      | Inr s \<Rightarrow>
     (let resp = \<lparr>ar_username = ust_name us,
            ar_identity = external_identity_of (connector_id req) (ust_name us) subject, ar_req = req,
            ar_session = s, ar_certs = None, ar_host_signers = [],
            ar_client_options = (case le_client_options E us of Inl _ \<Rightarrow> None | Inr opts \<Rightarrow> Some opts)\<rparr> in
      if ssh_public_key req = [] \<and> tls_public_key req = [] then (Inr resp, w1)
      else
     (let grant2 = grant\<lparr>sg_web := False\<rparr> in
      case le_session_certs E grant2 of
        Inl e \<Rightarrow> (Inl e, w1)
      | Inr certs \<Rightarrow>
     (let w2 = w1\<lparr>lw_grants := lw_grants w1 @ [grant2]\<rparr> in
      case le_cluster_name E of
        Inl e \<Rightarrow> (Inl e, w2)
      | Inr cluster \<Rightarrow>
     (case le_host_ca E cluster of
        Inl e \<Rightarrow> (Inl e, w2)
      | Inr ca \<Rightarrow> (Inr (resp\<lparr>ar_certs := Some certs, ar_host_signers := [ca]\<rparr>), w2))))))"

definition finish_login ::
  "login_env \<Rightarrow> oidc_auth_request \<Rightarrow> login_setup \<Rightarrow> verified_token \<Rightarrow> user \<Rightarrow> user_params \<Rightarrow> world \<Rightarrow>
     auth_response outcome \<times> world" where
  "finish_login E req st vt u p w =
     (if sso_test_flow req then
        (Inr \<lparr>ar_username = us_name u,
            ar_identity = external_identity_of (con_name (st_connector st)) (up_username p) (ic_subject (vt_claims vt)),
            ar_req = req, ar_session = None, ar_certs = None, ar_host_signers = [], ar_client_options = None\<rparr>, w)
      else case le_login_hooks E u of
          Some e \<Rightarrow> (Inl (Some LoginHook, e), w)
        | None \<Rightarrow>
            (case le_user_state E (us_name u) of
               Inl e \<Rightarrow> (Inl (Some UserStateFailed, e), w)
             | Inr us \<Rightarrow>
                 (case make_auth_response E req us (ic_subject (vt_claims vt)) (up_session_ttl p) w of
                    (Inl e, w') \<Rightarrow> (Inl (Some CredentialIssuance, e), w')
                  | (Inr resp, w') \<Rightarrow> (Inr resp, w'))))"

definition callback_steps ::
  "login_env \<Rightarrow> query \<Rightarrow> world \<Rightarrow> auth_response outcome \<times> callback_audit \<times> world" where
  "callback_steps E q w =
     (case begin_callback E q w of
        (Inl f, a, w1) \<Rightarrow> (Inl f, a, w1)
      | (Inr req, a, w1) \<Rightarrow>
     (case configure_login E (q_get q ''state'') req a w1 of
        (Inl f, a1, w2) \<Rightarrow> (Inl f, a1, w2)
      | (Inr st, a1, w2) \<Rightarrow>
     (case verify_token E (q_get q ''code'') req st of
        Inl f \<Rightarrow> (Inl f, a1, w2)
      | Inr vt \<Rightarrow>
     (case login_user E req st vt a1 w2 of
        (Inl f, a2, w3) \<Rightarrow> (Inl f, a2, w3)
      | (Inr (u, p), a2, w3) \<Rightarrow>
          (case finish_login E req st vt u p w3 of (r, w4) \<Rightarrow> (r, a2, w4))))))"

definition validate_callback ::
  "login_env \<Rightarrow> query \<Rightarrow> world \<Rightarrow> auth_response result \<times> callback_audit \<times> world" where
  "validate_callback E q w =
     (case callback_steps E q w of
        (Inl (c, e), a, w') \<Rightarrow> (Inl e, a\<lparr>ca_class := c\<rparr>, w')
      | (Inr r, a, w') \<Rightarrow> (Inr r, a, w'))"

definition validate_oidc_auth_callback :: "login_env \<Rightarrow> query \<Rightarrow> world \<Rightarrow> auth_response result \<times> world" where
  "validate_oidc_auth_callback E q w =
     (let (r, a, w') = validate_callback E q w in
      (r, if ca_emit a then w'\<lparr>lw_audit := lw_audit w' @ [login_event_of a r]\<rparr> else w'))"

end
