(* ===== verification/LoginSafety.thy ===== *)
theory LoginSafety
  imports Login
begin

text \<open>
  What a callback of the login runtime guarantees. Each stage of \<^verbatim>\<open>validateCallback\<close> has an inversion
  lemma that says what its success rests on; the properties compose them with the lemmas of the
  components: the state store, the connector policy, the group lookup, the identity checks and the
  user table.
\<close>

section \<open>Inversion of the stages\<close>

lemma claim_request_ok:
  assumes "claim_request E token w = (Inr req, a, w')"
  obtains m where "get_auth_request_item mem_get (le_codec E) (le_t_lookup E) token (lw_mem w) = (Inr req, m)"
    and "claim mem_create (le_sha256 E) (le_ttl E) (le_t_claim E) (le_revision E) token m = (Inr (), lw_mem w')"
    and "validate_auth_request_mode req = None" and "a = set_request req new_callback_audit"
    and "w' = w\<lparr>lw_mem := lw_mem w'\<rparr>"
proof -
  obtain r m where g: "get_auth_request_item mem_get (le_codec E) (le_t_lookup E) token (lw_mem w) = (r, m)"
    by fastforce
  obtain c m' where c: "claim mem_create (le_sha256 E) (le_ttl E) (le_t_claim E) (le_revision E) token m = (c, m')"
    by fastforce
  show thesis
  proof (rule that)
    show "get_auth_request_item mem_get (le_codec E) (le_t_lookup E) token (lw_mem w) = (Inr req, m)"
      using assms g c by (auto simp: claim_request_def Let_def split: sum.split_asm option.split_asm)
  qed (use assms g c in \<open>auto simp: claim_request_def Let_def split: sum.split_asm option.split_asm\<close>)
qed

lemma begin_callback_ok:
  assumes "begin_callback E q w = (Inr req, a, w')"
  shows "claim_request E (q_get q ''state'') w = (Inr req, a, w')" and "q_get q ''state'' \<noteq> []"
    and "q_get q ''code'' \<noteq> []" and "q_get q ''error'' = []"
  using assms by (auto simp: begin_callback_def Let_def split: if_split_asm sum.split_asm prod.split_asm)

lemma configure_login_ok:
  assumes "configure_login E token req a w = (Inr st, a', w')"
  shows "get_connector (le_lib E) req w = Inr (st_connector st)"
    and "workspace_domains (le_lib E) (st_connector st) = Inr (st_domains st)"
    and "group_lookup_settings (le_lib E) (Some (st_connector st)) = Inr (st_groups st)"
    and "pkce_verifier req \<noteq> []"
    and "get_nonce mem_get (le_sha256 E) (le_t_nonce E) token (lw_mem w) = (Inr (st_nonce st), lw_mem w')"
    and "\<exists>url. redirect_url_for_proxy (le_lib E) (st_connector st) (proxy_address req) = Inr url
      \<and> new_oauth2_config (le_discover E) (st_connector st) url = Inr (st_config st)"
    and "w' = w\<lparr>lw_mem := lw_mem w'\<rparr>" and "a' = a\<lparr>ca_connector := con_name (st_connector st)\<rparr>"
  using assms
  by (auto simp: configure_login_def Let_def split: sum.split_asm if_split_asm prod.split_asm)

lemma verify_token_ok:
  assumes "verify_token E code req st = Inr vt"
  shows "\<exists>token id_token. le_exchange E (st_config st) code (pkce_verifier req) = Inr token
      \<and> tk_id_token token = Some id_token \<and> vt_access vt = tk_access token
      \<and> le_validate_token E (issuer_url (con_spec (st_connector st))) (client_id (con_spec (st_connector st)))
          (st_nonce st) id_token = Inr (Some (vt_claims vt))"
    and "check_identity_claims (le_lib E) (Some (vt_claims vt)) (st_domains st) (le_t_check E) = None"
    and "\<exists>raw. le_claims_map E (vt_claims vt) = Inr raw \<and> vt_raw vt = raw(groups_claim := None)"
proof -
  from assms obtain token id_token claims raw where
    s: "le_exchange E (st_config st) code (pkce_verifier req) = Inr token" "tk_id_token token = Some id_token"
      "le_validate_token E (issuer_url (con_spec (st_connector st))) (client_id (con_spec (st_connector st)))
          (st_nonce st) id_token = Inr claims"
      "check_identity_claims (le_lib E) claims (st_domains st) (le_t_check E) = None"
      "le_claims_map E (the claims) = Inr raw"
      "vt = \<lparr>vt_access = tk_access token, vt_claims = the claims, vt_raw = raw(groups_claim := None)\<rparr>"
    by (auto simp: verify_token_def Let_def split: sum.split_asm option.split_asm if_split_asm)
  from s(4) obtain c where c: "claims = Some c" by (cases claims) (auto simp: check_identity_claims_def)
  show "\<exists>token id_token. le_exchange E (st_config st) code (pkce_verifier req) = Inr token
      \<and> tk_id_token token = Some id_token \<and> vt_access vt = tk_access token
      \<and> le_validate_token E (issuer_url (con_spec (st_connector st))) (client_id (con_spec (st_connector st)))
          (st_nonce st) id_token = Inr (Some (vt_claims vt))"
    using s(1,2,3,6) c by simp
  show "check_identity_claims (le_lib E) (Some (vt_claims vt)) (st_domains st) (le_t_check E) = None"
    using s(4,6) c by simp
  show "\<exists>raw. le_claims_map E (vt_claims vt) = Inr raw \<and> vt_raw vt = raw(groups_claim := None)"
    using s(5,6) by simp
qed

lemma login_user_ok:
  assumes "login_user E req st vt a w = (Inr (u, p), a', w')"
  obtains verified raw a1 ra where "resolve_groups E st vt a = (verified, raw, a1)"
    and "calculate_user (le_lib E) (le_roles E) (st_connector st) raw (vt_claims vt) req verified = (Inr p, ra)"
    and "create_user (le_list_err E) (le_get_err E) (le_t_user E) (le_revision E) p (sso_test_flow req)
      (lw_users w) = (Inr u, lw_users w')"
    and "w' = w\<lparr>lw_users := lw_users w'\<rparr>"
proof -
  obtain verified raw a1 where g: "resolve_groups E st vt a = (verified, raw, a1)" by (metis surj_pair)
  obtain r ra where c: "calculate_user (le_lib E) (le_roles E) (st_connector st) raw (vt_claims vt) req verified = (r, ra)"
    by fastforce
  show thesis
    by (rule that [OF g]) (use assms g c in
      \<open>auto simp: login_user_def Let_def split: if_split_asm sum.split_asm prod.split_asm\<close>)
qed

lemma callback_ok:
  assumes "callback_steps E q w = (Inr resp, a, w')"
  obtains req a0 w1 st a1 w2 vt u p w3 where "begin_callback E q w = (Inr req, a0, w1)"
    and "configure_login E (q_get q ''state'') req a0 w1 = (Inr st, a1, w2)"
    and "verify_token E (q_get q ''code'') req st = Inr vt"
    and "login_user E req st vt a1 w2 = (Inr (u, p), a, w3)"
    and "finish_login E req st vt u p w3 = (Inr resp, w')"
  using assms
  by (auto simp: callback_steps_def split: prod.split_asm sum.split_asm)

lemma validate_callback_ok:
  assumes "validate_callback E q w = (Inr resp, a, w')"
  shows "callback_steps E q w = (Inr resp, a, w')"
  using assms by (auto simp: validate_callback_def split: prod.split_asm sum.split_asm)

lemma get_connector_ok:
  assumes "get_connector U req w = Inr c"
  shows "validate_connector U (Some c) = None" and "\<not> sso_test_flow req"
    and "lw_connectors w (connector_id req) = Some c"
proof -
  show v: "validate_connector U (Some c) = None"
    using assms by (auto simp: get_connector_def split: if_split_asm option.split_asm sum.split_asm)
  show t: "\<not> sso_test_flow req"
  proof
    assume "sso_test_flow req"
    with assms obtain spec where n: "new_oidc_connector U (connector_id req) spec = Inr c"
      by (auto simp: get_connector_def split: if_split_asm option.split_asm sum.split_asm)
    from validate_connector_parts [OF v] obtain ds where "workspace_domains U c = Inr ds" by blast
    with workspace_domains_no_label [of c U] new_oidc_connector_labels [OF n] show False by (simp add: is_err_def)
  qed
  show "lw_connectors w (connector_id req) = Some c"
    using assms t by (auto simp: get_connector_def get_oidc_connector_def split: if_split_asm option.split_asm sum.split_asm)
qed

lemma claimed_world:
  assumes "begin_callback E q w = (Inr req, a, w')"
  shows "lw_users w' = lw_users w" and "lw_connectors w' = lw_connectors w" and "lw_grants w' = lw_grants w"
    and "lw_audit w' = lw_audit w"
proof -
  note b = begin_callback_ok [OF assms]
  show "lw_users w' = lw_users w" "lw_connectors w' = lw_connectors w" "lw_grants w' = lw_grants w"
    "lw_audit w' = lw_audit w"
    using claim_request_ok [OF b(1)] by (metis world.select_convs world.surjective world.update_convs(1))+
qed

lemma make_auth_response_ok:
  assumes "make_auth_response E req us subject ttl w = (Inr resp, w')"
  shows "ar_req resp = req" and "ar_username resp = ust_name us"
    and "ar_identity resp = external_identity_of (connector_id req) (ust_name us) subject"
    and "lw_users w' = lw_users w" and "lw_mem w' = lw_mem w"
    and "lw_grants w' = lw_grants w @
      (let g = \<lparr>sg_user = ust_name us, sg_roles = ust_roles us, sg_ttl = ttl, sg_web = True\<rparr> in
       (if create_web_session req then [g] else []) @
       (if ssh_public_key req = [] \<and> tls_public_key req = [] then [] else [g\<lparr>sg_web := False\<rparr>]))"
  using assms
  by (auto simp: make_auth_response_def Let_def is_err_def split: if_split_asm sum.split_asm option.split_asm)

lemma finish_login_ok:
  assumes "finish_login E req st vt u p w = (Inr resp, w')" and "\<not> sso_test_flow req"
  obtains us where "le_user_state E (us_name u) = Inr us"
    and "make_auth_response E req us (ic_subject (vt_claims vt)) (up_session_ttl p) w = (Inr resp, w')"
  using assms
  by (auto simp: finish_login_def split: option.split_asm sum.split_asm prod.split_asm)

lemma store_create_user_ok:
  assumes "store_create_user now rv u tbl = (Inr u', tbl')"
  shows "u' = u\<lparr>us_revision := rv\<rparr> \<and> u' \<in> set tbl'"
  using assms by (auto simp: store_create_user_def Let_def split: option.split_asm if_split_asm)

lemma store_update_user_ok:
  assumes "store_update_user now rv u tbl = (Inr u', tbl')"
  shows "u' = u\<lparr>us_revision := rv\<rparr> \<and> u' \<in> set tbl'"
proof -
  from assms obtain old where "get_user now (us_name u) tbl = Some old"
    and t: "tbl' = map (\<lambda>x. if us_name x = us_name u then u\<lparr>us_revision := rv\<rparr> else x) (get_users now tbl)"
    and u: "u' = u\<lparr>us_revision := rv\<rparr>"
    by (auto simp: store_update_user_def Let_def split: option.split_asm if_split_asm)
  from get_user_Some [OF this(1)] have "old \<in> set (get_users now tbl)" "us_name old = us_name u" by auto
  then show ?thesis unfolding t u by force
qed

lemma create_user_stored:
  assumes "create_user le ge now rv p dry tbl = (Inr u, tbl')" and "\<not> dry"
  shows "u = (new_user now p)\<lparr>us_revision := rv\<rparr> \<and> u \<in> set tbl'"
  using assms
  by (auto simp: create_user_def Let_def split: option.split_asm if_split_asm
      dest: store_create_user_ok store_update_user_ok)

section \<open>What a successful login rests on\<close>

text \<open>
  Property C1: a callback that succeeds stands on a chain of checks, none of which can be skipped. The
  state token names a stored auth request and was claimed by this very callback; the connector is
  the stored one of that request and passes the policy; the code was exchanged with the request's
  PKCE verifier; the ID token was validated for the connector's issuer (which is Google's) and
  client, against the nonce stored for the token; and its claims pass every identity check, for
  the domain allow-list of the connector.
\<close>

theorem login_needs_verified_identity:
  assumes "validate_callback E q w = (Inr resp, a, w')"
  shows "\<exists>conn domains m nonce config token id_token claims.
      (let st = q_get q ''state''; req = ar_req resp; U = le_lib E in
        get_auth_request_item mem_get (le_codec E) (le_t_lookup E) st (lw_mem w) = (Inr req, m)
        \<and> fst (claim mem_create (le_sha256 E) (le_ttl E) (le_t_claim E) (le_revision E) st m) = Inr ()
        \<and> lw_connectors w (connector_id req) = Some conn \<and> validate_connector U (Some conn) = None
        \<and> workspace_domains U conn = Inr domains
        \<and> fst (get_nonce mem_get (le_sha256 E) (le_t_nonce E) st
            (snd (claim mem_create (le_sha256 E) (le_ttl E) (le_t_claim E) (le_revision E) st m))) = Inr nonce
        \<and> pkce_verifier req \<noteq> [] \<and> le_exchange E config (q_get q ''code'') (pkce_verifier req) = Inr token
        \<and> tk_id_token token = Some id_token
        \<and> le_validate_token E google_issuer (client_id (con_spec conn)) nonce id_token = Inr (Some claims)
        \<and> identity_ok U domains (le_t_check E) claims)"
proof -
  from validate_callback_ok [OF assms] obtain req a0 w1 st a1 w2 vt u p w3
    where b: "begin_callback E q w = (Inr req, a0, w1)"
      and c: "configure_login E (q_get q ''state'') req a0 w1 = (Inr st, a1, w2)"
      and v: "verify_token E (q_get q ''code'') req st = Inr vt"
      and f: "finish_login E req st vt u p w3 = (Inr resp, w')"
    by (rule callback_ok)
  from claim_request_ok [OF begin_callback_ok(1) [OF b]] obtain m
    where m: "get_auth_request_item mem_get (le_codec E) (le_t_lookup E) (q_get q ''state'') (lw_mem w) = (Inr req, m)"
      "claim mem_create (le_sha256 E) (le_ttl E) (le_t_claim E) (le_revision E) (q_get q ''state'') m
        = (Inr (), lw_mem w1)" by blast
  note c = configure_login_ok [OF c]
  note conn = get_connector_ok [OF c(1)]
  from finish_login_ok [OF f conn(2)] make_auth_response_ok(1) have req: "ar_req resp = req" by metis
  have "[] \<notin> set (st_domains st)" using workspace_domains_Inr(3) [OF c(2)] by auto
  from verify_token_ok(2) [OF v] check_identity_claims_None [OF this]
  have ok: "identity_ok (le_lib E) (st_domains st) (le_t_check E) (vt_claims vt)" by simp
  have issuer: "issuer_url (con_spec (st_connector st)) = google_issuer"
    using validate_connector_parts [OF conn(1)] by blast
  from verify_token_ok(1) [OF v] obtain token id_token where
    t: "le_exchange E (st_config st) (q_get q ''code'') (pkce_verifier req) = Inr token"
      "tk_id_token token = Some id_token"
      "le_validate_token E google_issuer (client_id (con_spec (st_connector st))) (st_nonce st) id_token
        = Inr (Some (vt_claims vt))" unfolding issuer by blast
  show ?thesis unfolding Let_def req
    by (rule exI [where x = "st_connector st"], rule exI [where x = "st_domains st"], rule exI [where x = m],
        rule exI [where x = "st_nonce st"], rule exI [where x = "st_config st"], rule exI [where x = token],
        rule exI [where x = id_token], rule exI [where x = "vt_claims vt"])
       (use m t ok c conn claimed_world(2) [OF b] in simp)
qed

text \<open>Where the claims of a login come from: the ID token, and for groups the lookup alone.\<close>

definition login_groups :: "login_env \<Rightarrow> oidc_connector \<Rightarrow> string \<Rightarrow> string \<Rightarrow> string list" where
  "login_groups E conn access email =
     (case group_lookup_settings (le_lib E) (Some conn) of
        Inl _ \<Rightarrow> []
      | Inr gs \<Rightarrow> if gs_enabled gs then lr_groups (fst (lookup_groups (le_lib E) (le_gapi E) (le_net E) gs access email))
                  else [])"

lemma resolve_groups_ok:
  assumes "resolve_groups E st vt a = (verified, raw, a1)" and "vt_raw vt = raw0(groups_claim := None)"
    and "group_lookup_settings (le_lib E) (Some (st_connector st)) = Inr (st_groups st)"
  shows "verified = login_groups E (st_connector st) (vt_access vt) (ic_email (vt_claims vt))"
    and "claims_to_traits raw groups_claim = (if verified = [] then None else Some verified)"
    and "name \<noteq> groups_claim \<Longrightarrow> claims_to_traits raw name = claims_to_traits raw0 name"
proof -
  have raw: "raw = (if verified = [] then raw0(groups_claim := None) else raw0(groups_claim \<mapsto> JStrings verified))"
    and "verified = login_groups E (st_connector st) (vt_access vt) (ic_email (vt_claims vt))"
    using assms by (auto simp: resolve_groups_def login_groups_def Let_def split: if_split_asm)
  then show "verified = login_groups E (st_connector st) (vt_access vt) (ic_email (vt_claims vt))" by blast
  show "claims_to_traits raw groups_claim = (if verified = [] then None else Some verified)"
    and "name \<noteq> groups_claim \<Longrightarrow> claims_to_traits raw name = claims_to_traits raw0 name"
    unfolding raw by (simp_all add: claims_to_traits_def trait_of_claim_def)
qed

text \<open>A role of a login comes from an allow-listed address among the gated groups or in the email claim.\<close>

lemma role_from_login:
  assumes "fold_to_letters U" and "workspace_domains U conn = Inr domains"
    and "check_mappings U domains (claims_to_roles (con_spec conn)) = None"
    and "role \<in> set (snd (traits_to_roles U (get_trait_mappings conn) (claims_to_traits raw)))"
    and "claims_to_traits raw groups_claim = (if verified = [] then None else Some verified)"
    and "\<And>name. name \<noteq> groups_claim \<Longrightarrow> claims_to_traits raw name = claims_to_traits raw0 name"
  shows "\<exists>v. in_domains U domains v
    \<and> (v \<in> set verified \<or> (\<exists>vs. claims_to_traits raw0 ''email'' = Some vs \<and> v \<in> set vs))"
proof -
  from granted_in_domains [OF assms(1-4)] obtain name vs x where
    n: "name \<in> {''email'', groups_claim}" "claims_to_traits raw name = Some vs" "x \<in> set vs" "in_domains U domains x" by blast
  have "x \<in> set verified \<or> claims_to_traits raw0 ''email'' = Some vs"
    using n(1-3) assms(5) assms(6) [of "''email''"]
    by (cases "name = groups_claim") (auto simp: groups_claim_def split: if_split_asm)
  with n(3,4) show ?thesis by blast
qed


section \<open>Spent and unknown states\<close>

lemma mem_run_trans:
  assumes "mem_run own quiet t1 m1 t2 m2" and "mem_run own quiet t m t1 m1"
  shows "mem_run own quiet t m t2 m2"
  using assms
proof (induction rule: mem_run.induct)
  case (wait t1 t2 m1)
  from wait(2,1) show ?case
    by cases (auto intro: mem_run.intros)
next
  case (step t1 m1 ta ma mb t2)
  then show ?case by (blast intro: mem_run.step)
qed

lemma request_lookup_run:
  assumes "get_auth_request_item mem_get C t token m = (r, m')" shows "mem_run own quiet t m t m'"
proof -
  obtain x n where g: "mem_get t (request_key token) m = (x, n)" by fastforce
  with assms have "m' = m \<or> m' = n"
    by (auto simp: get_auth_request_item_def split: if_split_asm sum.split_asm)
  moreover have "mem_run own quiet t m t n"
    by (rule mem_run.step [OF mem_run.wait mem_other.get [OF g]]) simp_all
  ultimately show ?thesis by (auto intro: mem_run.wait)
qed

lemma nonce_lookup_run:
  assumes "get_nonce mem_get sha t token m = (r, m')" and "t0 \<le> t" shows "mem_run own quiet t0 m t m'"
proof -
  obtain x n where g: "mem_get t (state_key sha ''nonce'' token) m = (x, n)" by fastforce
  with assms(1) have "m' = m \<or> m' = n"
    by (auto simp: get_nonce_def split: if_split_asm sum.split_asm)
  moreover have "mem_run own quiet t0 m t n"
    by (rule mem_run.step [OF mem_run.wait mem_other.get [OF g]]) (use assms(2) in simp_all)
  ultimately show ?thesis using assms(2) by (auto intro: mem_run.wait)
qed

lemma configure_login_mem:
  assumes "configure_login E token req a w = (r, a', w')"
  shows "lw_mem w' = lw_mem w \<or> lw_mem w' = snd (get_nonce mem_get (le_sha256 E) (le_t_nonce E) token (lw_mem w))"
  using assms
  by (auto simp: configure_login_def Let_def split: sum.split_asm if_split_asm prod.split_asm)

lemma login_user_mem: "login_user E req st vt a w = (r, a', w') \<Longrightarrow> lw_mem w' = lw_mem w"
  by (auto simp: login_user_def Let_def split: sum.split_asm if_split_asm prod.split_asm)

lemma make_auth_response_mem: "make_auth_response E req us s ttl w = (r, w') \<Longrightarrow> lw_mem w' = lw_mem w"
  by (auto simp: make_auth_response_def Let_def split: sum.split_asm if_split_asm)

lemma finish_login_mem: "finish_login E req st vt u p w = (r, w') \<Longrightarrow> lw_mem w' = lw_mem w"
  by (auto simp: finish_login_def split: sum.split_asm if_split_asm prod.split_asm option.split_asm
      dest: make_auth_response_mem)

text \<open>After the claim, a callback only reads the backend once more, for the nonce.\<close>

lemma callback_mem_after_claim:
  assumes "callback_steps E q w = (r, a, w')" and "begin_callback E q w = (Inr req, a0, w1)"
    and "le_t_claim E \<le> le_t_nonce E"
  shows "mem_run own quiet (le_t_claim E) (lw_mem w1) (le_t_nonce E) (lw_mem w')"
proof -
  obtain c a1 w2 where c: "configure_login E (q_get q ''state'') req a0 w1 = (c, a1, w2)" by (metis surj_pair)
  have "lw_mem w' = lw_mem w2"
    using assms(1,2) c
    by (auto simp: callback_steps_def split: sum.split_asm prod.split_asm dest!: login_user_mem finish_login_mem)
  with configure_login_mem [OF c] nonce_lookup_run [OF surjective_pairing assms(3)] assms(3)
  show ?thesis by (auto intro: mem_run.wait)
qed

lemma claim_request_refused:
  assumes "mem_auth (lw_mem w)" and "token \<noteq> []"
    and "is_err (fst (get_auth_request_item mem_get (le_codec E) (le_t_lookup E) token (lw_mem w)))
      \<or> (\<exists>x. mem_get_item (lw_mem w) (key_s (state_key (le_sha256 E) ''used'' token)) = Some x
          \<and> live (le_t_lookup E) x \<and> live (le_t_claim E) x)"
  obtains c a w' where "claim_request E token w = (Inl (Some c, err_state_not_usable), a, w')"
    and "c = UnknownState \<or> c = CallbackReplayed" and "w' = w\<lparr>lw_mem := lw_mem w'\<rparr>"
    and "\<And>s x. mem_get_item (lw_mem w') s = Some x \<Longrightarrow> mem_get_item (lw_mem w) s = Some x"
proof -
  obtain r m where g: "get_auth_request_item mem_get (le_codec E) (le_t_lookup E) token (lw_mem w) = (r, m)"
    by fastforce
  note keep = memr.get_request_inv [OF assms(1) g]
  show thesis
  proof (cases r)
    case (Inl e)
    then have "claim_request E token w = (Inl (Some UnknownState, err_state_not_usable), new_callback_audit, w\<lparr>lw_mem := m\<rparr>)"
      using g by (simp add: claim_request_def)
    from that [OF this] keep(3) show thesis by simp
  next
    case (Inr req)
    let ?k = "key_s (state_key (le_sha256 E) ''used'' token)"
    from Inr assms(3) g obtain x where x: "mem_get_item (lw_mem w) ?k = Some x" "live (le_t_lookup E) x"
      "live (le_t_claim E) x" by (auto simp: is_err_def)
    then have mk: "mem_get_item m ?k = Some x" using keep(2) by blast
    obtain q m' where c: "claim mem_create (le_sha256 E) (le_ttl E) (le_t_claim E) (le_revision E) token m = (q, m')"
      by fastforce
    with memr.claim_refused [OF keep(1) assms(2) mk x(3)] have q: "q = Inl state_already_used" by (metis fst_conv)
    from c q g Inr have r: "claim_request E token w = (Inl (Some CallbackReplayed, err_state_not_usable),
        set_request req new_callback_audit, w\<lparr>lw_mem := m'\<rparr>)"
      by (simp add: claim_request_def Let_def)
    have "mem_get_item m s = Some y" if "mem_get_item m' s = Some y" for s y
      using memr.claim_failed_adds_none [OF keep(1) c [unfolded q] that] .
    with that [OF r] keep(3) show thesis by fastforce
  qed
qed


lemma callback_refused:
  assumes "mem_auth (lw_mem w)" and "token \<noteq> []" and "q_get q ''state'' = token"
    and "mem_get_item (lw_mem w) (key_s (state_key (le_sha256 E) ''used'' token)) = Some x"
    and "live (le_t_lookup E) x" and "live (le_t_claim E) x"
  shows "is_err (fst (validate_callback E q w)) \<and> snd (snd (validate_callback E q w)) =
      w\<lparr>lw_mem := lw_mem (snd (snd (validate_callback E q w)))\<rparr>
    \<and> (q_get q ''error'' = [] \<longrightarrow> q_get q ''code'' \<noteq> [] \<longrightarrow> fst (validate_callback E q w) = Inl err_state_not_usable)"
proof (cases "q_get q ''error'' \<noteq> [] \<or> q_get q ''code'' = []")
  case True
  with assms(2,3) show ?thesis
    by (auto simp: validate_callback_def callback_steps_def begin_callback_def is_err_def Let_def
        split: prod.split sum.split)
next
  case False
  from claim_request_refused [OF assms(1,2)] assms(4-6) obtain c a1 w1
    where cr: "claim_request E token w = (Inl (Some c, err_state_not_usable), a1, w1)" "w1 = w\<lparr>lw_mem := lw_mem w1\<rparr>"
    by metis
  from False assms(2,3) cr(1)
  have "validate_callback E q w = (Inl err_state_not_usable, a1\<lparr>ca_class := Some c\<rparr>, w1)"
    by (simp add: validate_callback_def callback_steps_def begin_callback_def)
  with cr(2) show ?thesis by (simp add: is_err_def)
qed

text \<open>
  Property C3: a callback burns its login. Once a callback has passed the claim, whether it then
  succeeded or failed, every callback with the same state that runs within the lifetime of the marker
  fails, and touches no user, no grant and no connector; unless it is malformed, it gets the error of
  an unknown state. Between the two the rest of the cluster may use the backend in any way that leaves
  the fork's keyspace alone.
\<close>

theorem callback_burns_login:
  assumes "mem_auth (lw_mem w)" and "fst (begin_callback E q w) = Inr req" and "validate_callback E q w = (r, a, w')"
    and "mem_run fork_key (\<lambda>_. False) (le_t_nonce E) (lw_mem w') (le_t_lookup E') (lw_mem v)"
    and "le_t_claim E \<le> le_t_nonce E" "le_t_lookup E' \<le> le_t_claim E'" "le_t_claim E' < le_t_claim E + le_ttl E"
    and "le_sha256 E' = le_sha256 E" and "q_get q' ''state'' = q_get q ''state''"
    and "validate_callback E' q' v = (r', a', v')"
  shows "is_err r' \<and> v' = v\<lparr>lw_mem := lw_mem v'\<rparr>
    \<and> (q_get q' ''error'' = [] \<longrightarrow> q_get q' ''code'' \<noteq> [] \<longrightarrow> r' = Inl err_state_not_usable)"
proof -
  obtain a0 w1 where b: "begin_callback E q w = (Inr req, a0, w1)"
    using assms(2) by (metis prod.collapse)
  from claim_request_ok [OF begin_callback_ok(1) [OF b]] obtain m
    where g: "get_auth_request_item mem_get (le_codec E) (le_t_lookup E) (q_get q ''state'') (lw_mem w) = (Inr req, m)"
    and c: "claim mem_create (le_sha256 E) (le_ttl E) (le_t_claim E) (le_revision E) (q_get q ''state'') m
        = (Inr (), lw_mem w1)" by blast
  note m = memr.get_request_inv(1) [OF assms(1) g]
  note mark = memr.claim_marks [OF m c]
  obtain r0 a2 w2 where s: "callback_steps E q w = (r0, a2, w2)" by (metis surj_pair)
  with assms(3) have w2: "lw_mem w2 = lw_mem w'" by (auto simp: validate_callback_def split: sum.split_asm)
  have run: "mem_run fork_key (\<lambda>_. False) (le_t_claim E) (lw_mem w1) (le_t_lookup E') (lw_mem v)"
    by (rule mem_run_trans [OF assms(4)]) (use callback_mem_after_claim [OF s b assms(5)] w2 in simp)
  from mark(2) obtain x where x: "mem_get_item (lw_mem w1) (key_s (state_key (le_sha256 E) ''used'' (q_get q ''state''))) = Some x"
    "it_expires x = Some (le_t_claim E + le_ttl E)" by blast
  have l: "live (le_t_lookup E') x" "live (le_t_claim E') x" using x(2) assms(6,7) by (auto simp: live_def)
  have "mem_get_item (lw_mem v) (key_s (state_key (le_sha256 E') ''used'' (q_get q ''state''))) = Some x"
    unfolding assms(8) using mem_run_keeps [OF run mark(1) _ x(1) l(1)] by simp
  from callback_refused [OF mem_run_inv [OF run mark(1)] begin_callback_ok(2) [OF b] assms(9) this l] assms(10)
  show ?thesis by simp
qed

section \<open>Failed logins\<close>

lemma begin_callback_fail:
  assumes "begin_callback E q w = (Inl (c, e), a, w')"
  shows "w' = w\<lparr>lw_mem := lw_mem w'\<rparr>"
    and "c \<in> {None, Some ProviderError, Some InvalidCallback, Some UnknownState, Some CallbackReplayed,
      Some InternalError, Some RequestValidation}"
  using assms
  by (auto simp: begin_callback_def claim_request_def Let_def
      split: if_split_asm sum.split_asm prod.split_asm option.split_asm)

lemma configure_login_fail:
  assumes "configure_login E token req a w = (Inl (c, e), a', w')"
  shows "w' = w\<lparr>lw_mem := lw_mem w'\<rparr>"
    and "c \<in> {Some ConnectorResolution, Some PKCEVerification, Some RequestValidation, Some RedirectValidation,
      Some ProviderConfiguration}"
    and "c = Some ProviderConfiguration \<Longrightarrow> e = Err AccessDenied ''OIDC callback failed''"
  using assms
  by (auto simp: configure_login_def provider_error_def Let_def split: if_split_asm sum.split_asm prod.split_asm)

lemma identity_classes:
  "check_identity_claims U claims ds now = Some (c, e) \<Longrightarrow> c \<in> {IdentityValidation, HostedDomain, EmailDomain}"
  by (auto simp: check_identity_claims_def split: if_split_asm option.split_asm)

lemma verify_token_fail:
  assumes "verify_token E code req st = Inl (c, e)"
  shows "c \<in> {Some TokenExchange, Some IDTokenValidation, Some IdentityValidation, Some HostedDomain,
      Some EmailDomain, Some ClaimsProcessing}"
    and "c = Some TokenExchange \<Longrightarrow> e = Err AccessDenied ''OIDC callback failed''"
    and "c = Some IDTokenValidation \<Longrightarrow> e = Err AccessDenied ''OIDC callback failed''
      \<or> e = Err BadParameter ''missing or invalid id_token''"
  using assms
  by (auto simp: verify_token_def provider_error_def Let_def
      split: if_split_asm sum.split_asm option.split_asm prod.split_asm dest: identity_classes)

lemma create_user_failed: "create_user le ge now rv p dry tbl = (Inl e, tbl') \<Longrightarrow> tbl' = tbl"
  by (cases rule: create_user_elim) auto

lemma login_user_fail:
  assumes "login_user E req st vt a w = (Inl (c, e), a', w')"
  shows "w' = w" and "c \<in> {Some IdentityValidation, Some RoleMapping, Some UserCreation}"
  using assms
  by (auto simp: login_user_def Let_def split: if_split_asm sum.split_asm prod.split_asm dest: create_user_failed)

lemma make_auth_response_users:
  "make_auth_response E req us s ttl w = (r, w') \<Longrightarrow> lw_users w' = lw_users w \<and> lw_connectors w' = lw_connectors w"
  by (auto simp: make_auth_response_def Let_def split: sum.split_asm if_split_asm)

lemma finish_login_users:
  "finish_login E req st vt u p w = (r, w') \<Longrightarrow> lw_users w' = lw_users w \<and> lw_connectors w' = lw_connectors w"
  by (auto simp: finish_login_def split: sum.split_asm if_split_asm prod.split_asm option.split_asm
      dest: make_auth_response_users)

lemma finish_login_fail:
  assumes "finish_login E req st vt u p w = (Inl (c, e), w')"
  shows "c \<in> {Some LoginHook, Some UserStateFailed, Some CredentialIssuance}"
    and "c \<noteq> Some CredentialIssuance \<Longrightarrow> w' = w"
  using assms
  by (auto simp: finish_login_def split: sum.split_asm if_split_asm prod.split_asm option.split_asm)

text \<open>A failed callback, by the stage that failed.\<close>

lemma callback_fail:
  assumes "callback_steps E q w = (Inl (c, e), a, w')"
  obtains (start) "begin_callback E q w = (Inl (c, e), a, w')"
  | (configure) req a0 w1 where "begin_callback E q w = (Inr req, a0, w1)"
      "configure_login E (q_get q ''state'') req a0 w1 = (Inl (c, e), a, w')"
  | (verify) req a0 w1 st where "begin_callback E q w = (Inr req, a0, w1)"
      "configure_login E (q_get q ''state'') req a0 w1 = (Inr st, a, w')"
      "verify_token E (q_get q ''code'') req st = Inl (c, e)"
  | (user) req a0 w1 st a1 w2 vt where "begin_callback E q w = (Inr req, a0, w1)"
      "configure_login E (q_get q ''state'') req a0 w1 = (Inr st, a1, w2)"
      "login_user E req st vt a1 w2 = (Inl (c, e), a, w')"
  | (finish) req a0 w1 st a1 w2 vt u p w3 where "begin_callback E q w = (Inr req, a0, w1)"
      "configure_login E (q_get q ''state'') req a0 w1 = (Inr st, a1, w2)"
      "login_user E req st vt a1 w2 = (Inr (u, p), a, w3)" "finish_login E req st vt u p w3 = (Inl (c, e), w')"
  using assms by (fastforce simp: callback_steps_def split: prod.split_asm sum.split_asm)

lemma configured_world:
  assumes "configure_login E token req a w = (Inr st, a', w')"
  shows "lw_users w' = lw_users w" and "lw_connectors w' = lw_connectors w" and "lw_grants w' = lw_grants w"
    and "lw_audit w' = lw_audit w"
  using configure_login_ok(7) [OF assms] by (metis world.select_convs world.surjective world.update_convs(1))+

lemma user_world:
  assumes "login_user E req st vt a w = (r, a', w')"
  shows "lw_connectors w' = lw_connectors w" and "lw_grants w' = lw_grants w" and "lw_audit w' = lw_audit w"
  using assms by (auto simp: login_user_def Let_def split: if_split_asm sum.split_asm prod.split_asm)

text \<open>
  Property C26: what a failed login leaves behind. It issues no session and no certificate unless the
  issuing of credentials itself failed half-way, creates or changes no user unless a step after the
  user was stored failed, and never changes a connector.
\<close>

theorem failed_login_leaves_nothing:
  assumes "validate_callback E q w = (Inl e, a, w')"
  shows "(ca_class a \<noteq> Some CredentialIssuance \<longrightarrow> lw_grants w' = lw_grants w)
    \<and> (ca_class a \<notin> {Some LoginHook, Some UserStateFailed, Some CredentialIssuance} \<longrightarrow> lw_users w' = lw_users w)
    \<and> lw_connectors w' = lw_connectors w"
proof -
  from assms obtain a1 where s: "callback_steps E q w = (Inl (ca_class a, e), a1, w')"
    by (auto simp: validate_callback_def split: prod.split_asm sum.split_asm)
  show ?thesis using s
  proof (cases rule: callback_fail)
    case start
    from begin_callback_fail(1) [OF this] show ?thesis
      by (metis world.select_convs world.surjective world.update_convs(1))
  next
    case (configure req a0 w1)
    from configure_login_fail(1) [OF configure(2)] have "lw_users w' = lw_users w1" "lw_grants w' = lw_grants w1"
      "lw_connectors w' = lw_connectors w1" by (metis world.select_convs world.surjective world.update_convs(1))+
    with claimed_world [OF configure(1)] show ?thesis by simp
  next
    case (verify req a0 w1 st)
    with claimed_world [OF verify(1)] configured_world [OF verify(2)] show ?thesis by simp
  next
    case (user req a0 w1 st a1 w2 vt)
    with claimed_world [OF user(1)] configured_world [OF user(2)] login_user_fail(1) [OF user(3)] show ?thesis by simp
  next
    case (finish req a0 w1 st a1 w2 vt u p w3)
    note u = user_world [OF finish(3)] and f = finish_login_fail [OF finish(4)]
    with claimed_world [OF finish(1)] configured_world [OF finish(2)] finish_login_users [OF finish(4)]
    show ?thesis by auto
  qed
qed

text \<open>
  No text of the provider reaches the caller. When discovery, the token exchange or the
  validation of the ID token fails, the error is one of two fixed values, whatever the provider said.
\<close>

theorem provider_failures_masked:
  assumes "validate_callback E q w = (Inl e, a, w')"
    and "ca_class a \<in> {Some ProviderConfiguration, Some TokenExchange, Some IDTokenValidation}"
  shows "e = Err AccessDenied ''OIDC callback failed''
    \<or> e = Err BadParameter ''missing or invalid id_token'' \<and> ca_class a = Some IDTokenValidation"
proof -
  from assms(1) obtain c a1 where s: "callback_steps E q w = (Inl (c, e), a1, w')" and a: "ca_class a = c"
    by (auto simp: validate_callback_def split: prod.split_asm sum.split_asm)
  show ?thesis using s
  proof (cases rule: callback_fail)
    case start
    with begin_callback_fail(2) [OF start] assms(2) a show ?thesis by auto
  next
    case (configure req a0 w1)
    with configure_login_fail(2,3) [OF configure(2)] assms(2) a show ?thesis by auto
  next
    case (verify req a0 w1 st)
    with verify_token_fail [OF verify(3)] assms(2) a show ?thesis by auto
  next
    case (user req a0 w1 st a1 w2 vt)
    with login_user_fail(2) [OF user(3)] assms(2) a show ?thesis by auto
  next
    case (finish req a0 w1 st a1 w2 vt u p w3)
    with finish_login_fail(1) [OF finish(4)] assms(2) a show ?thesis by auto
  qed
qed

section \<open>Credentials\<close>

text \<open>
  Property C24: the credentials of a successful login. It issues a web session only when the request
  asks for one and a certificate only when the request carries a public key, nothing else; they are
  for the user of the response and live no longer than the maximum certificate duration, nor than
  the lifetime the request asks for. The code relies on the role set to shorten lifetimes only.
\<close>

theorem issued_credentials_bounded:
  assumes "validate_callback E q w = (Inr resp, a, w')" and "shortens_ttl (le_roles E)"
    and "0 \<le> cert_ttl (ar_req resp)"
  shows "\<exists>gs. lw_grants w' = lw_grants w @ gs
    \<and> map sg_web gs = (if create_web_session (ar_req resp) then [True] else [])
        @ (if ssh_public_key (ar_req resp) = [] \<and> tls_public_key (ar_req resp) = [] then [] else [False])
    \<and> (\<forall>g \<in> set gs. sg_user g = ar_username resp \<and> 0 < sg_ttl g \<and> sg_ttl g \<le> max_cert_duration
         \<and> (cert_ttl (ar_req resp) \<noteq> 0 \<longrightarrow> sg_ttl g \<le> cert_ttl (ar_req resp)))"
proof -
  from validate_callback_ok [OF assms(1)] obtain req a0 w1 st a1 w2 vt u p w3
    where b: "begin_callback E q w = (Inr req, a0, w1)"
      and c: "configure_login E (q_get q ''state'') req a0 w1 = (Inr st, a1, w2)"
      and v: "verify_token E (q_get q ''code'') req st = Inr vt"
      and l: "login_user E req st vt a1 w2 = (Inr (u, p), a, w3)"
      and f: "finish_login E req st vt u p w3 = (Inr resp, w')"
    by (rule callback_ok)
  note conn = get_connector_ok [OF configure_login_ok(1) [OF c]]
  from finish_login_ok [OF f conn(2)] obtain us where
    "make_auth_response E req us (ic_subject (vt_claims vt)) (up_session_ttl p) w3 = (Inr resp, w')" by blast
  note resp = make_auth_response_ok [OF this]
  from l obtain verified raw a2 ra where "resolve_groups E st vt a1 = (verified, raw, a2)"
    and k: "calculate_user (le_lib E) (le_roles E) (st_connector st) raw (vt_claims vt) req verified = (Inr p, ra)"
    and "create_user (le_list_err E) (le_get_err E) (le_t_user E) (le_revision E) p (sso_test_flow req)
      (lw_users w2) = (Inr u, lw_users w3)" by (rule login_user_ok)
  have ttl: "0 < up_session_ttl p \<and> up_session_ttl p \<le> max_cert_duration
    \<and> (cert_ttl req \<noteq> 0 \<longrightarrow> up_session_ttl p \<le> cert_ttl req)"
    by (rule session_ttl_le [OF k assms(2)]) (use assms(3) resp(1) in simp)
  let ?g = "\<lparr>sg_user = ust_name us, sg_roles = ust_roles us, sg_ttl = up_session_ttl p, sg_web = True\<rparr>"
  let ?gs = "(if create_web_session req then [?g] else [])
    @ (if ssh_public_key req = [] \<and> tls_public_key req = [] then [] else [?g\<lparr>sg_web := False\<rparr>])"
  have "lw_grants w' = lw_grants w @ ?gs"
    using resp(6) user_world(2) [OF l] configured_world(3) [OF c] claimed_world(3) [OF b] by (simp add: Let_def)
  with ttl show ?thesis unfolding resp(1,2) by (intro exI [where x = ?gs]) simp
qed

section \<open>The audit\<close>

lemma configure_login_emit: "configure_login E token req a w = (r, a', w') \<Longrightarrow> ca_emit a' = ca_emit a"
  by (auto simp: configure_login_def Let_def split: if_split_asm sum.split_asm prod.split_asm)

lemma login_user_emit: "login_user E req st vt a w = (r, a', w') \<Longrightarrow> ca_emit a' = ca_emit a"
  by (auto simp: login_user_def resolve_groups_def Let_def split: if_split_asm sum.split_asm prod.split_asm)

lemma begin_callback_emit:
  assumes "begin_callback E q w = (r, a, w')"
  shows "ca_emit a \<longleftrightarrow>
    \<not> is_err (fst (get_auth_request_item mem_get (le_codec E) (le_t_lookup E) (q_get q ''state'') (lw_mem w)))"
  using assms
  by (auto simp: begin_callback_def claim_request_def set_request_def new_callback_audit_def Let_def is_err_def
      get_auth_request_item_def split: if_split_asm sum.split_asm prod.split_asm option.split_asm)

lemma callback_emit:
  assumes "callback_steps E q w = (r, a, w')"
  shows "ca_emit a \<longleftrightarrow>
    \<not> is_err (fst (get_auth_request_item mem_get (le_codec E) (le_t_lookup E) (q_get q ''state'') (lw_mem w)))"
proof -
  obtain b a0 w1 where b: "begin_callback E q w = (b, a0, w1)" by (metis surj_pair)
  have "ca_emit a = ca_emit a0"
    using assms b by (auto simp: callback_steps_def split: sum.split_asm prod.split_asm
        dest!: configure_login_emit login_user_emit)
  with begin_callback_emit [OF b] show ?thesis by simp
qed

lemma configure_login_audit: "configure_login E token req a w = (r, a', w') \<Longrightarrow> lw_audit w' = lw_audit w"
  by (auto simp: configure_login_def Let_def split: if_split_asm sum.split_asm prod.split_asm)

lemma make_auth_response_audit: "make_auth_response E req us s ttl w = (r, w') \<Longrightarrow> lw_audit w' = lw_audit w"
  by (auto simp: make_auth_response_def Let_def split: sum.split_asm if_split_asm)

lemma finish_login_audit: "finish_login E req st vt u p w = (r, w') \<Longrightarrow> lw_audit w' = lw_audit w"
  by (auto simp: finish_login_def split: sum.split_asm if_split_asm prod.split_asm option.split_asm
      dest: make_auth_response_audit)

lemma begin_callback_audit: "begin_callback E q w = (r, a, w') \<Longrightarrow> lw_audit w' = lw_audit w"
  by (auto simp: begin_callback_def claim_request_def Let_def
      split: if_split_asm sum.split_asm prod.split_asm option.split_asm)

lemma callback_audit_log: "callback_steps E q w = (r, a, w') \<Longrightarrow> lw_audit w' = lw_audit w"
  by (auto simp: callback_steps_def split: sum.split_asm prod.split_asm
      dest!: begin_callback_audit configure_login_audit user_world(3) finish_login_audit)

text \<open>
  Property C27: the audit of callbacks. A callback whose state names a stored auth request writes exactly
  one login event, every other callback writes none. The event says success exactly when the callback
  succeeds, carries a failure class exactly when it fails, names the user only on success, and bounds
  the user agent it copies from the client.
\<close>

theorem one_audit_event:
  "\<exists>ev. lw_audit (snd (validate_oidc_auth_callback E q w)) = lw_audit w @
      (if is_err (fst (get_auth_request_item mem_get (le_codec E) (le_t_lookup E) (q_get q ''state'') (lw_mem w)))
       then [] else [ev])
    \<and> (ev_success ev \<longleftrightarrow> \<not> is_err (fst (validate_oidc_auth_callback E q w)))
    \<and> (ev_class ev = None \<longleftrightarrow> ev_success ev)
    \<and> ev_user ev = (case fst (validate_oidc_auth_callback E q w) of Inr resp \<Rightarrow> ar_username resp | Inl _ \<Rightarrow> [])
    \<and> (ev_success ev \<longleftrightarrow> ev_code ev \<in> {CodeLogin, CodeTestLogin})
    \<and> length (ev_user_agent ev) \<le> max_audit_user_agent_bytes \<and> valid_utf8 (ev_user_agent ev)"
proof -
  obtain s a0 w0 where s: "callback_steps E q w = (s, a0, w0)" by (metis surj_pair)
  then obtain r a where v: "validate_callback E q w = (r, a, w0)" and e: "ca_emit a = ca_emit a0"
    by (cases s) (auto simp: validate_callback_def)
  then have out: "validate_oidc_auth_callback E q w =
      (r, if ca_emit a then w0\<lparr>lw_audit := lw_audit w0 @ [login_event_of a r]\<rparr> else w0)"
    by (simp add: validate_oidc_auth_callback_def)
  have agent: "length (ev_user_agent (login_event_of a r)) \<le> max_audit_user_agent_bytes
      \<and> valid_utf8 (ev_user_agent (login_event_of a r))"
    by (auto simp: login_event_of_def Let_def max_audit_user_agent_bytes_def valid_utf8_def split: option.split)
  have log: "lw_audit (snd (validate_oidc_auth_callback E q w)) = lw_audit w @
      (if is_err (fst (get_auth_request_item mem_get (le_codec E) (le_t_lookup E) (q_get q ''state'') (lw_mem w)))
       then [] else [login_event_of a r])"
    using out e callback_emit [OF s] callback_audit_log [OF s] by simp
  show ?thesis unfolding log
    by (rule exI [where x = "login_event_of a r"])
       (use agent out in \<open>auto simp: login_event_of_def Let_def is_err_def split: sum.split\<close>)
qed

section \<open>Starting a login\<close>

lemma prepare_request_ok:
  assumes "prepare_request E secrets req0 w = Inr (req, nonce)"
  obtains sec conn domains callback_url config where "secrets = Inr sec" "nonce = sec_nonce sec"
    and "get_connector (le_lib E) (clean_user_agent req0) w = Inr conn" and "workspace_domains (le_lib E) conn = Inr domains"
    and "redirect_url_for_proxy (le_lib E) conn (proxy_address req0) = Inr callback_url"
    and "new_oauth2_config (le_discover E) conn callback_url = Inr config"
    and "req = (clean_user_agent req0)\<lparr>pkce_verifier := sec_verifier sec, state_token := sec_state sec,
      redirect_url := le_auth_code_url E config (sec_state sec) (auth_code_options E conn
        ((clean_user_agent req0)\<lparr>pkce_verifier := sec_verifier sec\<rparr>) (sec_nonce sec) domains)\<rparr>"
proof -
  have pa: "proxy_address (clean_user_agent req0) = proxy_address req0" by (simp add: clean_user_agent_def)
  show thesis
    using assms that pa
    by (auto simp: prepare_request_def auth_code_options_def Let_def split: option.split_asm sum.split_asm)
qed

lemma put_nonce_item:
  assumes "mem_auth m" and "put_nonce mem_create sha ttl t0 rv token nonce m = (Inr (), m1)"
  shows "mem_auth m1"
proof -
  obtain q m' where c: "mem_create t0 rv (state_item sha ''nonce'' token nonce (t0 + ttl)) m = (q, m')" by fastforce
  with assms(2) have "m1 = m'" by (auto simp: put_nonce_def split: if_split_asm sum.split_asm)
  with mem.create_inv [OF assms(1) c] show ?thesis by simp
qed

lemma request_create_run:
  assumes "create_auth_request_item mem_create C ttl t rv req m = (r, m')"
  shows "mem_run own (\<lambda>_. False) t m t m'"
proof -
  let ?it = "\<lparr>it_key = request_key (state_token req), it_value = marshal_request C req,
      it_expires = expiry t ttl, it_revision = []\<rparr>"
  obtain x n where g: "mem_create t rv ?it m = (x, n)" by fastforce
  with assms have "m' = m \<or> m' = n"
    by (auto simp: create_auth_request_item_def split: option.split_asm sum.split_asm)
  moreover have "mem_run own (\<lambda>_. False) t m t n"
    by (rule mem_run.step [OF mem_run.wait mem_other.create [OF g]]) simp_all
  ultimately show ?thesis by (auto intro: mem_run.wait)
qed

lemma auth_code_options_start:
  "\<exists>rest. auth_code_options E conn req nonce domains =
     [(''nonce'', nonce), (''code_challenge_method'', ''S256''),
      (''code_challenge'', le_challenge E (pkce_verifier req)), (''hd'', join_with '','' domains)] @ rest"
  unfolding auth_code_options_def by (rule exI) (rule refl)

text \<open>The keys a login in progress depends on: its auth request and the fork's keyspace.\<close>

definition login_keys :: "string \<Rightarrow> string \<Rightarrow> bool" where
  "login_keys token s \<longleftrightarrow> fork_key s \<or> s = key_s (request_key token)"

lemma started_request:
  assumes "mem_auth (lw_mem w)" and "create_auth_request E (Inr sec) req0 w = (Inr req, w')"
    and "unmarshal_request (le_codec E) (marshal_request (le_codec E) req) = Inr req"
    and "mem_run (login_keys (sec_state sec)) (\<lambda>_. False) (le_t_claim E) (lw_mem w') t m"
    and "t < le_t_claim E + le_ttl E"
  obtains m1 conn domains callback_url config
  where "put_nonce mem_create (le_sha256 E) (le_ttl E) (le_t_claim E) (le_revision E)
        (state_token req) (sec_nonce sec) (lw_mem w) = (Inr (), m1)"
    and "create_auth_request_item mem_create (le_codec E) (le_ttl E) (le_t_claim E) (le_revision E) req m1
        = (Inr (), lw_mem w')"
    and "get_connector (le_lib E) (clean_user_agent req0) w = Inr conn"
    and "workspace_domains (le_lib E) conn = Inr domains"
    and "new_oauth2_config (le_discover E) conn callback_url = Inr config"
    and "req = (clean_user_agent req0)\<lparr>pkce_verifier := sec_verifier sec, state_token := sec_state sec,
      redirect_url := le_auth_code_url E config (sec_state sec) (auth_code_options E conn
        ((clean_user_agent req0)\<lparr>pkce_verifier := sec_verifier sec\<rparr>) (sec_nonce sec) domains)\<rparr>"
    and "fst (get_auth_request_item mem_get (le_codec E) t (sec_state sec) m) = Inr req"
proof -
  from assms(2) obtain m1 where p: "prepare_request E (Inr sec) req0 w = Inr (req, sec_nonce sec)"
    and n: "put_nonce mem_create (le_sha256 E) (le_ttl E) (le_t_claim E) (le_revision E)
        (state_token req) (sec_nonce sec) (lw_mem w) = (Inr (), m1)"
    and c: "create_auth_request_item mem_create (le_codec E) (le_ttl E) (le_t_claim E) (le_revision E) req m1
        = (Inr (), lw_mem w')"
    by (auto simp: create_auth_request_def split: sum.split_asm prod.split_asm elim!: prepare_request_ok)
  from p obtain sec' conn domains callback_url config
    where sec': "Inr sec = (Inr sec' :: request_secrets result)"
    and conn: "get_connector (le_lib E) (clean_user_agent req0) w = Inr conn"
    and dom: "workspace_domains (le_lib E) conn = Inr domains"
    and cfg: "new_oauth2_config (le_discover E) conn callback_url = Inr config"
    and req': "req = (clean_user_agent req0)\<lparr>pkce_verifier := sec_verifier sec', state_token := sec_state sec',
      redirect_url := le_auth_code_url E config (sec_state sec') (auth_code_options E conn
        ((clean_user_agent req0)\<lparr>pkce_verifier := sec_verifier sec'\<rparr>) (sec_nonce sec') domains)\<rparr>"
    by (rule prepare_request_ok)
  from sec' have req: "req = (clean_user_agent req0)\<lparr>pkce_verifier := sec_verifier sec, state_token := sec_state sec,
      redirect_url := le_auth_code_url E config (sec_state sec) (auth_code_options E conn
        ((clean_user_agent req0)\<lparr>pkce_verifier := sec_verifier sec\<rparr>) (sec_nonce sec) domains)\<rparr>"
    using req' by simp
  then have tok: "state_token req = sec_state sec" and ver: "pkce_verifier req = sec_verifier sec" by simp_all
  have m1: "mem_auth m1" by (rule put_nonce_item [OF assms(1) n])
  have ne: "state_token req \<noteq> []" using n by (auto simp: put_nonce_def split: if_split_asm)
  have found: "fst (get_auth_request_item mem_get (le_codec E) t (sec_state sec) m) = Inr req"
    using memr.request_roundtrip [OF m1 c assms(4) _ assms(5,3) ne] tok by (simp add: login_keys_def)
  show thesis by (rule that [OF n c conn dom cfg req found])
qed


text \<open>
  An SSO test login never starts. The connector of a test is built from the spec in the
  request and carries no labels, so it has no domain allow-list and the policy refuses it.
\<close>

theorem sso_test_flow_never_starts:
  assumes "sso_test_flow req0"
  shows "is_err (fst (create_auth_request E secrets req0 w))"
proof -
  have t: "sso_test_flow (clean_user_agent req0)" using assms by (simp add: clean_user_agent_def)
  have "is_err (prepare_request E secrets req0 w)"
  proof (cases "prepare_request E secrets req0 w")
    case (Inr x)
    then obtain req nonce where "prepare_request E secrets req0 w = Inr (req, nonce)" by (cases x) simp
    then obtain conn where "get_connector (le_lib E) (clean_user_agent req0) w = Inr conn" by (rule prepare_request_ok)
    from get_connector_ok(2) [OF this] t show ?thesis by simp
  qed (simp add: is_err_def)
  then show ?thesis by (auto simp: create_auth_request_def is_err_def split: sum.split)
qed

section \<open>All logins of a cluster\<close>

definition world_ok :: "world \<Rightarrow> bool" where
  "world_ok w \<longleftrightarrow> mem_auth (lw_mem w) \<and> users_ok (lw_users w)"

text \<open>The steps of the cluster: logins are started, callbacks arrive, and others use the backend.\<close>

inductive world_step :: "world \<Rightarrow> world \<Rightarrow> bool" where
  start: "create_auth_request E secrets req w = (r, w') \<Longrightarrow> world_step w w'"
| callback: "validate_oidc_auth_callback E q w = (s, w') \<Longrightarrow> world_step w w'"
| others: "mem_other own quiet t (lw_mem w) m \<Longrightarrow> world_step w (w\<lparr>lw_mem := m\<rparr>)"


inductive world_reach :: "world \<Rightarrow> bool" where
  init: "lw_mem w = new_memory \<Longrightarrow> lw_users w = [] \<Longrightarrow> world_reach w"
| step: "world_reach w \<Longrightarrow> world_step w w' \<Longrightarrow> world_reach w'"

lemma create_auth_request_keeps:
  assumes "create_auth_request E secrets req w = (r, w')" and "world_ok w"
  shows "world_ok w'"
proof -
  have n: "mem_auth (snd (put_nonce mem_create sha ttl t rv token nonce m))" if "mem_auth m" for sha ttl t rv token nonce m
    using that mem.create_inv [OF that]
    by (auto simp: put_nonce_def split: prod.split sum.split)
  have c: "mem_auth (snd (create_auth_request_item mem_create C ttl t rv q m))" if "mem_auth m" for C ttl t rv q m
    using that mem.create_inv [OF that]
    by (auto simp: create_auth_request_item_def split: prod.split sum.split option.split)
  show ?thesis
    using assms n c
    by (auto simp: create_auth_request_def world_ok_def split: sum.split_asm prod.split_asm) (metis snd_conv)+
qed

lemma claim_keeps_auth:
  assumes "mem_auth m" shows "mem_auth (snd (claim mem_create sha ttl t rv token m))"
  using assms mem.create_inv [OF assms] by (auto simp: claim_def split: prod.split sum.split)

lemma begin_callback_keeps:
  assumes "begin_callback E q w = (r, a, w')" and "world_ok w"
  shows "world_ok w'"
proof -
  have g: "mem_auth (snd (get_auth_request_item mem_get C t token m))" if "mem_auth m" for C t token m
    using memr.get_request_inv(1) [OF that surjective_pairing] .
  show ?thesis
    using assms g [of "lw_mem w"] claim_keeps_auth
    by (auto simp: begin_callback_def claim_request_def world_ok_def Let_def
        split: if_split_asm sum.split_asm prod.split_asm option.split_asm) (metis snd_conv)+
qed

lemma configure_login_keeps:
  assumes "configure_login E token req a w = (r, a', w')" and "world_ok w"
  shows "world_ok w'"
proof -
  have "mem_auth (snd (get_nonce mem_get (le_sha256 E) (le_t_nonce E) token (lw_mem w)))"
    using mem_run_inv [OF nonce_lookup_run [OF surjective_pairing order_refl]] assms(2) by (simp add: world_ok_def)
  moreover have "lw_users w' = lw_users w"
    using assms(1) by (auto simp: configure_login_def Let_def split: if_split_asm sum.split_asm prod.split_asm)
  ultimately show ?thesis using configure_login_mem [OF assms(1)] assms(2) by (auto simp: world_ok_def)
qed

lemma login_user_keeps:
  assumes "login_user E req st vt a w = (r, a', w')" and "world_ok w"
  shows "world_ok w'"
proof -
  have "lw_users w' = lw_users w \<or> (\<exists>p s. create_user (le_list_err E) (le_get_err E) (le_t_user E) (le_revision E) p
      (sso_test_flow req) (lw_users w) = (s, lw_users w'))"
    using assms(1) by (auto simp: login_user_def Let_def split: if_split_asm sum.split_asm prod.split_asm)
  then have "users_ok (lw_users w')"
    using create_user_keeps_binding assms(2) unfolding world_ok_def by metis
  with login_user_mem [OF assms(1)] assms(2) show ?thesis by (simp add: world_ok_def)
qed

lemma finish_login_keeps:
  assumes "finish_login E req st vt u p w = (r, w')" and "world_ok w" shows "world_ok w'"
  using finish_login_mem [OF assms(1)] finish_login_users [OF assms(1)] assms(2) by (simp add: world_ok_def)

lemma callback_keeps:
  assumes "callback_steps E q w = (r, a, w')" and "world_ok w"
  shows "world_ok w'"
  using assms
  by (auto simp: callback_steps_def split: sum.split_asm prod.split_asm
      dest: begin_callback_keeps configure_login_keeps login_user_keeps finish_login_keeps)

lemma world_step_keeps: "world_step w w' \<Longrightarrow> world_ok w \<Longrightarrow> world_ok w'"
proof (induction rule: world_step.induct)
  case (callback E q w s w')
  obtain r a w1 where c: "callback_steps E q w = (r, a, w1)" by (metis surj_pair)
  with callback(1) have "lw_mem w' = lw_mem w1 \<and> lw_users w' = lw_users w1"
    by (auto simp: validate_oidc_auth_callback_def validate_callback_def Let_def split: sum.split_asm if_split_asm)
  with callback_keeps [OF c callback(2)] show ?case by (simp add: world_ok_def)
next
  case (others own quiet t w m)
  with mem_other_inv [OF others(1)] show ?case by (simp add: world_ok_def)
qed (rule create_auth_request_keeps)


lemma callback_request:
  assumes "validate_callback E q w = (Inr resp, a, w')"
  shows "fst (get_auth_request_item mem_get (le_codec E) (le_t_lookup E) (q_get q ''state'') (lw_mem w)) = Inr (ar_req resp)"
proof -
  from validate_callback_ok [OF assms] obtain req a0 w1 st a1 w2 vt u p w3
    where b: "begin_callback E q w = (Inr req, a0, w1)"
      and c: "configure_login E (q_get q ''state'') req a0 w1 = (Inr st, a1, w2)"
      and f: "finish_login E req st vt u p w3 = (Inr resp, w')"
    by (rule callback_ok)
  from finish_login_ok [OF f get_connector_ok(2) [OF configure_login_ok(1) [OF c]]] make_auth_response_ok(1)
  have "ar_req resp = req" by metis
  with claim_request_ok [OF begin_callback_ok(1) [OF b]] show ?thesis by (metis fst_conv)
qed

section \<open>A concrete login\<close>

definition login_codec :: codec where
  "login_codec = \<lparr>marshal_request = (\<lambda>_. ''{}''), unmarshal_request = (\<lambda>_. Inr sample_auth_request),
     ssh_key_ok = (\<lambda>_. True)\<rparr>"

definition sample_env :: login_env where
  "sample_env = \<lparr>le_lib = ascii_tables, le_sha256 = (\<lambda>s. s), le_codec = login_codec, le_ttl = 600 * second,
     le_revision = ''r'', le_t_lookup = second, le_t_claim = second, le_t_nonce = second, le_t_check = 0,
     le_t_user = second, le_discover = (\<lambda>_. Inr (Some sample_discovery)),
     le_exchange = (\<lambda>_ _ _. Inr \<lparr>tk_access = [], tk_id_token = Some ''jwt''\<rparr>), le_validator_err = None,
     le_validate_token = (\<lambda>_ _ _ _. Inr (Some sample_claims)), le_claims_map = (\<lambda>_. Inr sample_claim_map),
     le_gapi = sample_gapi, le_net = sample_net, le_roles = sample_role_env, le_list_err = None, le_get_err = None,
     le_login_hooks = (\<lambda>_. None),
     le_user_state = (\<lambda>n. Inr \<lparr>ust_name = n, ust_roles = [''dev''], ust_traits = sample_traits\<rparr>),
     le_web_session = (\<lambda>_. Inr ''session''), le_session_certs = (\<lambda>_. Inr (''ssh'', ''tls'')),
     le_cluster_name = Inr ''c'', le_host_ca = (\<lambda>_. Inr ''ca''), le_client_options = (\<lambda>_. Inr ''{}''),
     le_in_cidr = (\<lambda>_ _. False), le_challenge = (\<lambda>v. v), le_auth_code_url = (\<lambda>_ _ _. [])\<rparr>"

definition sample_secrets :: request_secrets where
  "sample_secrets = \<lparr>sec_state = ''t'', sec_nonce = ''n'', sec_verifier = ''v''\<rparr>"

definition sample_start :: world where
  "sample_start = \<lparr>lw_mem = new_memory, lw_users = [], lw_connectors = [''google'' \<mapsto> sample_connector],
     lw_grants = [], lw_audit = []\<rparr>"

definition sample_query :: query where
  "sample_query = [(''state'', ''t''), (''code'', ''c'')]"

lemma sample_connector_found: "get_connector ascii_tables sample_auth_request w = Inr sample_connector"
  if "lw_connectors w = [''google'' \<mapsto> sample_connector]"
  using that sample_valid by (simp add: get_connector_def get_oidc_connector_def sample_auth_request_def)

lemma sample_callback_url:
  "redirect_url_for_proxy ascii_tables sample_connector ''tp.ex.com'' =
     Inr ''HTTPS://tp.ex.com:443/v1/webapi/oidc/callback''"
  unfolding redirect_url_for_proxy_def sample_redirect by code_simp

lemma sample_config: "\<exists>c. new_oauth2_config (le_discover sample_env) sample_connector url = Inr c"
  by (simp add: sample_env_def new_oauth2_config_def validate_discovery_config_def sample_discovery_def)

lemma sample_prepare:
  "prepare_request (sample_env\<lparr>le_t_claim := 0\<rparr>) (Inr sample_secrets)
     (sample_auth_request\<lparr>pkce_verifier := v, state_token := s\<rparr>) sample_start = Inr (sample_auth_request, ''n'')"
proof -
  let ?req = "sample_auth_request\<lparr>pkce_verifier := v, state_token := s\<rparr>"
  obtain c where c: "new_oauth2_config (\<lambda>_. Inr (Some sample_discovery)) sample_connector
      ''HTTPS://tp.ex.com:443/v1/webapi/oidc/callback'' = Inr c"
    using sample_config by (auto simp: sample_env_def)
  have a: "clean_user_agent ?req = ?req" "validate_auth_request_mode ?req = None" "create_web_session ?req"
    "?req\<lparr>pkce_verifier := ''v'', state_token := ''t'', redirect_url := []\<rparr> = sample_auth_request"
    "?req\<lparr>pkce_verifier := ''v'', state_token := ''t''\<rparr> = sample_auth_request"
    "sample_auth_request\<lparr>redirect_url := []\<rparr> = sample_auth_request" "proxy_address sample_auth_request = ''tp.ex.com''"
    by (simp_all add: clean_user_agent_def sample_auth_request_def valid_utf8_def validate_auth_request_mode_def
        max_audit_user_agent_bytes_def)
  have "get_connector ascii_tables ?req sample_start = get_connector ascii_tables sample_auth_request sample_start"
    by (simp add: get_connector_def sample_auth_request_def)
  also have "\<dots> = Inr sample_connector" by (rule sample_connector_found) (simp add: sample_start_def)
  finally show ?thesis using c a sample_domains sample_callback_url
    by (simp add: prepare_request_def sample_env_def sample_secrets_def)
qed

definition sample_nonce_mem :: memory where
  "sample_nonce_mem = snd (put_nonce mem_create (\<lambda>s. s) (600 * second) 0 ''r'' ''t'' ''n'' new_memory)"

definition sample_mem :: memory where
  "sample_mem = snd (create_auth_request_item mem_create login_codec (600 * second) 0 ''r'' sample_auth_request
     sample_nonce_mem)"

definition sample_world :: world where
  "sample_world = sample_start\<lparr>lw_mem := sample_mem\<rparr>"

lemma sample_nonce_put:
  "put_nonce mem_create (\<lambda>s. s) (600 * second) 0 ''r'' ''t'' ''n'' new_memory = (Inr (), sample_nonce_mem)"
  by (simp add: sample_nonce_mem_def put_nonce_def sample_store_eval)

lemma sample_request_put:
  "create_auth_request_item mem_create login_codec (600 * second) 0 ''r'' sample_auth_request sample_nonce_mem =
     (Inr (), sample_mem)"
  by (simp add: sample_mem_def sample_nonce_mem_def create_auth_request_item_def check_auth_request_def
      sample_auth_request_def login_codec_def put_nonce_def sample_store_eval)

lemma sample_request_fields [simp]:
  "state_token sample_auth_request = ''t''" "proxy_address sample_auth_request = ''tp.ex.com''"
  "pkce_verifier sample_auth_request = ''v''" "create_web_session sample_auth_request"
  "\<not> sso_test_flow sample_auth_request" "ssh_public_key sample_auth_request = []"
  "tls_public_key sample_auth_request = []" "connector_id sample_auth_request = ''google''"
  "cert_ttl sample_auth_request = 0" "validate_auth_request_mode sample_auth_request = None"
  by (simp_all add: sample_auth_request_def validate_auth_request_mode_def)

lemma sample_env_fields [simp]:
  "le_lib sample_env = ascii_tables" "le_sha256 sample_env = (\<lambda>s. s)" "le_codec sample_env = login_codec"
  "le_ttl sample_env = 600 * second" "le_revision sample_env = ''r''" "le_t_lookup sample_env = second"
  "le_t_claim sample_env = second" "le_t_nonce sample_env = second" "le_roles sample_env = sample_role_env"
  by (simp_all add: sample_env_def)

lemma sample_create_from:
  "create_auth_request (sample_env\<lparr>le_t_claim := 0\<rparr>) (Inr sample_secrets)
     (sample_auth_request\<lparr>pkce_verifier := v, state_token := s\<rparr>) sample_start = (Inr sample_auth_request, sample_world)"
proof -
  have "lw_mem sample_start = new_memory" by (simp add: sample_start_def)
  then show ?thesis unfolding create_auth_request_def sample_prepare
    by (simp add: sample_nonce_put sample_request_put sample_world_def)
qed

lemma sample_create:
  "create_auth_request (sample_env\<lparr>le_t_claim := 0\<rparr>) (Inr sample_secrets) sample_auth_request sample_start =
     (Inr sample_auth_request, sample_world)"
proof -
  have "sample_auth_request\<lparr>pkce_verifier := ''v'', state_token := ''t''\<rparr> = sample_auth_request" by (simp add: sample_auth_request_def)
  with sample_create_from [where v = "''v''" and s = "''t''"] show ?thesis by simp
qed

lemma sample_mem_auth: "mem_auth sample_mem"
  by (rule memr.request_stored(1) [OF put_nonce_item [OF new_memory_auth sample_nonce_put] sample_request_put])

lemma sample_lookup_request:
  "get_auth_request_item mem_get login_codec second ''t'' sample_mem = (Inr sample_auth_request, sample_mem)"
  by (simp add: sample_mem_def sample_nonce_mem_def create_auth_request_item_def check_auth_request_def
      sample_auth_request_def login_codec_def put_nonce_def get_auth_request_item_def mem_get_def sample_store_eval)

definition sample_claimed :: memory where
  "sample_claimed = snd (claim mem_create (\<lambda>s. s) (600 * second) second ''r'' ''t'' sample_mem)"

lemma sample_claims_state:
  "claim mem_create (\<lambda>s. s) (600 * second) second ''r'' ''t'' sample_mem = (Inr (), sample_claimed)"
  by (simp add: sample_claimed_def sample_mem_def sample_nonce_mem_def create_auth_request_item_def check_auth_request_def
      sample_auth_request_def login_codec_def put_nonce_def claim_def sample_store_eval)

lemma sample_reads_nonce:
  "get_nonce mem_get (\<lambda>s. s) second ''t'' sample_claimed = (Inr ''n'', sample_claimed)"
  by (simp add: sample_claimed_def sample_mem_def sample_nonce_mem_def create_auth_request_item_def check_auth_request_def
      sample_auth_request_def login_codec_def put_nonce_def claim_def get_nonce_def mem_get_def sample_store_eval)

lemma sample_begins:
  "begin_callback (sample_env\<lparr>le_exchange := f\<rparr>) sample_query sample_world =
     (Inr sample_auth_request, set_request sample_auth_request new_callback_audit, sample_start\<lparr>lw_mem := sample_claimed\<rparr>)"
  by (simp add: begin_callback_def claim_request_def sample_query_def q_get_def sample_world_def
      sample_lookup_request sample_claims_state)

lemma sample_configures:
  "\<exists>st a. configure_login (sample_env\<lparr>le_exchange := f\<rparr>) ''t'' sample_auth_request
      (set_request sample_auth_request new_callback_audit)
      (sample_start\<lparr>lw_mem := sample_claimed\<rparr>) = (Inr st, a, sample_start\<lparr>lw_mem := sample_claimed\<rparr>)
     \<and> st_connector st = sample_connector \<and> st_domains st = [''ex.com'', ''b.org''] \<and> gs_enabled (st_groups st)"
proof -
  obtain c where c: "new_oauth2_config (le_discover sample_env) sample_connector
      ''HTTPS://tp.ex.com:443/v1/webapi/oidc/callback'' = Inr c" using sample_config by blast
  have "get_connector ascii_tables sample_auth_request (sample_start\<lparr>lw_mem := sample_claimed\<rparr>) = Inr sample_connector"
    by (rule sample_connector_found) (simp add: sample_start_def)
  with c show ?thesis
    by (simp add: configure_login_def sample_domains sample_group sample_reads_nonce sample_callback_url)
qed

lemma sample_env_exchange: "sample_env\<lparr>le_exchange := le_exchange sample_env\<rparr> = sample_env"
  by (simp add: sample_env_def)

lemma sample_env_codec: "sample_env\<lparr>le_codec := le_codec sample_env\<rparr> = sample_env"
  by (simp add: sample_env_def)

definition sample_verified :: verified_token where
  "sample_verified = \<lparr>vt_access = [], vt_claims = sample_claims, vt_raw = sample_claim_map(groups_claim := None)\<rparr>"

lemma sample_verifies:
  assumes "st_connector st = sample_connector" and "st_domains st = [''ex.com'', ''b.org'']"
  shows "verify_token sample_env code req st = Inr sample_verified"
  using assms sample_identity by (simp add: verify_token_def sample_verified_def) (simp add: sample_env_def)

lemma sample_email_role:
  "''dev'' \<in> set (snd (traits_to_roles ascii_tables (get_trait_mappings sample_connector)
     (claims_to_traits (sample_claim_map(groups_claim := None)))))"
proof -
  have p: "\<forall>m \<in> set (get_trait_mappings sample_connector). plain_mapping m"
    by (simp add: get_trait_mappings_def sample_connector_def sample_spec_def plain_mapping_def is_regexp_def
        starts_with_def valid_utf8_def decode_ascii rune_error_def del: decode.simps(2))
  have t: "claims_to_traits (sample_claim_map(groups_claim := None)) = [''email'' \<mapsto> [''ann@ex.com'']]"
    by (intro ext) (simp add: claims_to_traits_def sample_claim_map_def trait_of_claim_def groups_claim_def)
  have g: "glob_language (=) (runes ''*@ex.com'') (runes ''ann@ex.com'')" by (simp add: runes_ascii)
  show ?thesis
    unfolding traits_to_roles_plain_lemma [OF p, THEN conjunct1] t
    using g by (simp add: get_trait_mappings_def sample_connector_def sample_spec_def groups_claim_def)
qed

lemma sample_logs_in:
  assumes "st_connector st = sample_connector" and "gs_enabled (st_groups st)" and "lw_users w = []"
    and "\<not> sso_test_flow req"
  shows "\<exists>u p a' w'. login_user (sample_env\<lparr>le_codec := C\<rparr>) req st sample_verified a w = (Inr (u, p), a', w')"
proof -
  have g: "fst (resolve_groups (sample_env\<lparr>le_codec := C\<rparr>) st sample_verified a) = []"
    "fst (snd (resolve_groups (sample_env\<lparr>le_codec := C\<rparr>) st sample_verified a)) = sample_claim_map(groups_claim := None)"
    using assms(2) by (simp_all add: resolve_groups_def sample_verified_def lookup_groups_def empty_result_def)
  have n: "username_from_claims sample_connector (sample_claim_map(groups_claim := None)) = Inr ''ann@ex.com''"
    by (simp add: username_from_claims_def sample_connector_def sample_spec_def sample_claim_map_def groups_claim_def)
  have r: "snd (traits_to_roles ascii_tables (get_trait_mappings sample_connector)
     (claims_to_traits (sample_claim_map(groups_claim := None)))) \<noteq> []" using sample_email_role by auto
  obtain p ra where k: "calculate_user ascii_tables sample_role_env sample_connector
      (sample_claim_map(groups_claim := None)) sample_claims req [] = (Inr p, ra)"
    using n r by (auto simp: calculate_user_def sample_role_env_def Let_def case_prod_unfold)
  have u: "up_username p = ''ann@ex.com''" "up_connector p = ''google''"
    using calculate_user_ok(1,4) [OF k] n by (simp_all add: sample_connector_def)
  have "acr (con_spec sample_connector) = []" by (simp add: sample_connector_def sample_spec_def)
  moreover have "\<exists>u tbl. create_user None None second ''r'' p False [] = (Inr u, tbl)"
    using u by (simp add: create_user_def validate_subject_binding_def get_users_def get_user_def store_create_user_def
        validate_user_def new_user_def Let_def)
  moreover have "le_list_err sample_env = None" "le_get_err sample_env = None" "le_t_user sample_env = second"
    by (simp_all add: sample_env_def)
  moreover have "vt_claims sample_verified = sample_claims" by (simp add: sample_verified_def)
  ultimately show ?thesis
    using g k assms by (auto simp: login_user_def Let_def case_prod_unfold)
qed

lemma sample_finishes:
  "\<exists>resp w'. finish_login sample_env sample_auth_request st vt u p w = (Inr resp, w')"
proof -
  have e: "le_login_hooks sample_env = (\<lambda>_. None)" "le_web_session sample_env = (\<lambda>_. Inr ''session'')"
    "le_user_state sample_env n = Inr \<lparr>ust_name = n, ust_roles = [''dev''], ust_traits = sample_traits\<rparr>" for n
    by (simp_all add: sample_env_def)
  show ?thesis by (simp add: finish_login_def make_auth_response_def e Let_def)
qed

definition sample_outcome :: "auth_response result \<times> callback_audit \<times> world" where
  "sample_outcome = validate_callback sample_env sample_query sample_world"

definition sample_response :: auth_response where
  "sample_response = (case fst sample_outcome of Inr r \<Rightarrow> r | Inl _ \<Rightarrow> undefined)"

lemma sample_succeeds:
  "validate_callback sample_env sample_query sample_world =
     (Inr sample_response, fst (snd sample_outcome), snd (snd sample_outcome))"
proof -
  let ?w = "sample_start\<lparr>lw_mem := sample_claimed\<rparr>"
  obtain st a where c: "configure_login sample_env ''t'' sample_auth_request
      (set_request sample_auth_request new_callback_audit) ?w = (Inr st, a, ?w)"
    and st: "st_connector st = sample_connector" "st_domains st = [''ex.com'', ''b.org'']" "gs_enabled (st_groups st)"
    using sample_configures [of "le_exchange sample_env"] unfolding sample_env_exchange by blast
  have "lw_users ?w = []" by (simp add: sample_start_def)
  from sample_logs_in [OF st(1,3) this sample_request_fields(5), of "le_codec sample_env"] obtain u p a' w' where
    l: "login_user sample_env sample_auth_request st sample_verified a ?w = (Inr (u, p), a', w')"
    unfolding sample_env_codec by blast
  obtain resp w'' where f: "finish_login sample_env sample_auth_request st sample_verified u p w' = (Inr resp, w'')"
    using sample_finishes by blast
  have "q_get sample_query ''state'' = ''t''" by (simp add: sample_query_def q_get_def)
  then have "sample_outcome = (Inr resp, a', w'')"
    using c l f by (simp add: sample_outcome_def validate_callback_def callback_steps_def
        sample_begins [of "le_exchange sample_env", unfolded sample_env_exchange] sample_verifies [OF st(1,2)])
  then show ?thesis by (simp add: sample_response_def sample_outcome_def)
qed

lemma sample_response_request: "ar_req sample_response = sample_auth_request"
  using callback_request [OF sample_succeeds] by (simp add: sample_query_def q_get_def sample_world_def sample_lookup_request)

theorem login_needs_verified_identity_witness:
  "\<exists>conn domains claims. lw_connectors sample_world ''google'' = Some conn
     \<and> validate_connector ascii_tables (Some conn) = None \<and> workspace_domains ascii_tables conn = Inr domains
     \<and> identity_ok ascii_tables domains (le_t_check sample_env) claims"
  using login_needs_verified_identity [OF sample_succeeds]
  unfolding Let_def sample_response_request sample_env_fields sample_request_fields by blast


theorem issued_credentials_bounded_witness:
  "\<exists>g. lw_grants (snd (snd sample_outcome)) = [g] \<and> sg_web g \<and> 0 < sg_ttl g \<and> sg_ttl g \<le> max_cert_duration"
proof -
  have "shortens_ttl (le_roles sample_env)" "0 \<le> cert_ttl (ar_req sample_response)"
    using sample_shortens by (simp_all add: sample_response_request)
  from issued_credentials_bounded [OF sample_succeeds this] obtain gs where
    "lw_grants (snd (snd sample_outcome)) = gs" "map sg_web gs = [True]"
    "\<forall>g \<in> set gs. 0 < sg_ttl g \<and> sg_ttl g \<le> max_cert_duration"
    by (auto simp: sample_response_request sample_world_def sample_start_def)
  then show ?thesis by (cases gs) auto
qed


definition sample_later :: login_env where
  "sample_later = sample_env\<lparr>le_t_lookup := 5 * second, le_t_claim := 6 * second\<rparr>"

theorem callback_burns_login_witness:
  "fst (validate_callback sample_later sample_query (snd (snd sample_outcome))) = Inl err_state_not_usable"
proof -
  obtain r a v where v: "validate_callback sample_later sample_query (snd (snd sample_outcome)) = (r, a, v)"
    by (metis surj_pair)
  have m: "mem_auth (lw_mem sample_world)" using sample_mem_auth by (simp add: sample_world_def)
  have b: "fst (begin_callback sample_env sample_query sample_world) = Inr sample_auth_request"
    using sample_begins [of "le_exchange sample_env", unfolded sample_env_exchange] by simp
  have run: "mem_run fork_key (\<lambda>_. False) (le_t_nonce sample_env) (lw_mem (snd (snd sample_outcome)))
      (le_t_lookup sample_later) (lw_mem (snd (snd sample_outcome)))"
    by (rule mem_run.wait) (simp add: sample_later_def second_def)
  have "r = Inl err_state_not_usable"
    using callback_burns_login [OF m b sample_succeeds run _ _ _ _ _ v]
    by (simp add: sample_later_def second_def sample_query_def q_get_def)
  with v show ?thesis by simp
qed

definition failing_env :: login_env where
  "failing_env = sample_env\<lparr>le_exchange := (\<lambda>_ _ _. Inl (Err OtherError ''text of the provider''))\<rparr>"

lemma sample_fails:
  "\<exists>a. validate_callback failing_env sample_query sample_world =
     (Inl (Err AccessDenied ''OIDC callback failed''), a, sample_start\<lparr>lw_mem := sample_claimed\<rparr>)
   \<and> ca_class a = Some TokenExchange"
proof -
  obtain st a where c: "configure_login failing_env ''t'' sample_auth_request
      (set_request sample_auth_request new_callback_audit) (sample_start\<lparr>lw_mem := sample_claimed\<rparr>) =
        (Inr st, a, sample_start\<lparr>lw_mem := sample_claimed\<rparr>)"
    using sample_configures unfolding failing_env_def by blast
  moreover have "verify_token failing_env code req st = Inl (Some TokenExchange, Err AccessDenied ''OIDC callback failed'')"
    for code req by (simp add: verify_token_def failing_env_def provider_error_def)
  moreover have "q_get sample_query ''state'' = ''t''" by (simp add: sample_query_def q_get_def)
  moreover have "begin_callback failing_env sample_query sample_world = (Inr sample_auth_request,
      set_request sample_auth_request new_callback_audit, sample_start\<lparr>lw_mem := sample_claimed\<rparr>)"
    unfolding failing_env_def by (rule sample_begins)
  ultimately show ?thesis by (simp add: validate_callback_def callback_steps_def)
qed

theorem failed_login_leaves_nothing_witness:
  "lw_users (snd (snd (validate_callback failing_env sample_query sample_world))) = lw_users sample_world
   \<and> lw_grants (snd (snd (validate_callback failing_env sample_query sample_world))) = lw_grants sample_world"
proof -
  from sample_fails obtain a where a: "validate_callback failing_env sample_query sample_world =
     (Inl (Err AccessDenied ''OIDC callback failed''), a, sample_start\<lparr>lw_mem := sample_claimed\<rparr>)"
     "ca_class a = Some TokenExchange" by blast
  from failed_login_leaves_nothing [OF a(1)] a show ?thesis by simp
qed

theorem provider_failures_masked_witness:
  "fst (validate_callback failing_env sample_query sample_world) = Inl (Err AccessDenied ''OIDC callback failed'')"
proof -
  from sample_fails obtain e a w where a: "validate_callback failing_env sample_query sample_world = (Inl e, a, w)"
     "ca_class a = Some TokenExchange" by blast
  from provider_failures_masked [OF a(1)] a show ?thesis by simp
qed


theorem sso_test_flow_never_starts_witness:
  "is_err (fst (create_auth_request sample_env (Inr sample_secrets) (sample_auth_request\<lparr>sso_test_flow := True\<rparr>) sample_start))"
  by (rule sso_test_flow_never_starts) simp


end
