(* ===== verification/Secret.thy ===== *)
theory Secret
  imports StateStore
begin

text \<open>
  Authenticated encryption between the proxy and a console client: \<^verbatim>\<open>lib/secret/secret.go\<close>. A key is its bytes.
  AES-GCM and the JSON encoding of \<^verbatim>\<open>sealedData\<close> are the fields of \<open>aead\<close>; what is relied on of them is the
  hypothesis \<open>aead_correct\<close>. The bytes read from the random source are arguments.
\<close>

record sealed_data =
  sd_ciphertext :: string
  sd_nonce :: string

record aead =
  ae_seal :: "string \<Rightarrow> string \<Rightarrow> string \<Rightarrow> string"
  ae_open :: "string \<Rightarrow> string \<Rightarrow> string \<Rightarrow> string option"
  ae_marshal :: "sealed_data \<Rightarrow> string"
  ae_unmarshal :: "string \<Rightarrow> sealed_data result"

text \<open>\<^verbatim>\<open>hex.DecodeString\<close>.\<close>

fun hex_decode_string :: "string \<Rightarrow> string option" where
  "hex_decode_string [] = Some []"
| "hex_decode_string [_] = None"
| "hex_decode_string (a # b # s) =
     (if is_hex a \<and> is_hex b then map_option (\<lambda>r. char_of (16 * un_hex a + un_hex b) # r) (hex_decode_string s) else None)"

text \<open>\<^verbatim>\<open>aes.NewCipher\<close> refuses keys of other lengths; \<^verbatim>\<open>cipher.NewGCM\<close> accepts every AES cipher.\<close>

definition new_cipher :: "string \<Rightarrow> err option" where
  "new_cipher k = (if length k \<in> {16, 24, 32} then None else Some (Err OtherError ''crypto/aes: invalid key size''))"

definition nonce_size :: nat where "nonce_size = 12"

definition secret_key_size :: nat where "secret_key_size = 32"

text \<open>
  \<^verbatim>\<open>io.ReadFull\<close> fills the buffer or fails: the argument is a source of random bytes, asked for as many as
  the buffer takes.
\<close>

type_synonym random_source = "nat \<Rightarrow> string result"

definition secret_new_key :: "random_source \<Rightarrow> string result" where
  "secret_new_key rnd = rnd secret_key_size"

definition secret_parse_key :: "string \<Rightarrow> string result" where
  "secret_parse_key k =
     (case hex_decode_string k of None \<Rightarrow> Inl (Err OtherError ''encoding/hex'') | Some key \<Rightarrow> Inr key)"

definition secret_seal :: "aead \<Rightarrow> random_source \<Rightarrow> string \<Rightarrow> string \<Rightarrow> string result" where
  "secret_seal A rnd k plaintext =
     (case new_cipher k of
        Some e \<Rightarrow> Inl e
      | None \<Rightarrow>
          (case rnd nonce_size of
             Inl e \<Rightarrow> Inl e
           | Inr nonce \<Rightarrow> Inr (ae_marshal A \<lparr>sd_ciphertext = ae_seal A k nonce plaintext, sd_nonce = nonce\<rparr>)))"

definition secret_open :: "aead \<Rightarrow> string \<Rightarrow> string \<Rightarrow> string result" where
  "secret_open A k ciphertext =
     (case ae_unmarshal A ciphertext of
        Inl e \<Rightarrow> Inl e
      | Inr data \<Rightarrow>
          (case new_cipher k of
             Some e \<Rightarrow> Inl e
           | None \<Rightarrow>
               if length (sd_nonce data) \<noteq> nonce_size then Inl (Err BadParameter ''invalid nonce size, only 12 supported'')
               else case ae_open A k (sd_nonce data) (sd_ciphertext data) of
                   None \<Rightarrow> Inl (Err OtherError ''cipher: message authentication failed'')
                 | Some p \<Rightarrow> Inr p))"

text \<open>\<^verbatim>\<open>Key.String\<close>.\<close>

definition secret_key_string :: "string \<Rightarrow> string" where
  "secret_key_string k = hex_encode k"

section \<open>What is relied on of the cipher\<close>

text \<open>
  JSON reads back what it wrote, and GCM opens exactly what was sealed with the same key and nonce. A
  random source fills the buffer.
\<close>

definition aead_correct :: "aead \<Rightarrow> bool" where
  "aead_correct A \<longleftrightarrow> (\<forall>d. ae_unmarshal A (ae_marshal A d) = Inr d)
     \<and> (\<forall>k n c p. ae_open A k n c = Some p \<longleftrightarrow> c = ae_seal A k n p)"

definition fills :: "random_source \<Rightarrow> bool" where
  "fills rnd \<longleftrightarrow> (\<forall>n s. rnd n = Inr s \<longrightarrow> length s = n)"

section \<open>Hexadecimal text\<close>

lemma hex_digit_value: "n < 16 \<Longrightarrow> byte (hex_digit n) = (if n < 10 then 48 + n else 87 + n)"
  unfolding hex_digit_def by (auto simp: less_Suc_eq numeral_eq_Suc)

lemma hex_digit_is_hex: "n < 16 \<Longrightarrow> is_hex (hex_digit n) \<and> un_hex (hex_digit n) = n"
  by (auto simp: is_hex_def un_hex_def hex_digit_value Let_def)

lemma nibbles: "byte c div 16 < 16" "byte c mod 16 < 16"
  using nat_of_char_less_256 [of c] by (linarith, simp)

lemma hex_roundtrip [simp]: "hex_decode_string (hex_encode s) = Some s"
  by (induction s) (simp_all add: hex_encode_def hex_digit_is_hex nibbles)

lemma hex_encode_chars: "c \<in> set (hex_encode s) \<Longrightarrow> is_hex c"
  by (auto simp: hex_encode_def hex_digit_is_hex nibbles)

lemma hex_encode_Nil_iff [simp]: "hex_encode s = [] \<longleftrightarrow> s = []"
  by (cases s) (simp_all add: hex_encode_def)

lemma hex_decode_replicate:
  "is_hex c \<Longrightarrow> hex_decode_string (replicate (2 * n) c) = Some (replicate n (char_of (16 * un_hex c + un_hex c)))"
  by (induction n) simp_all

lemma key_text_roundtrip [simp]: "secret_parse_key (secret_key_string k) = Inr k"
  by (simp add: secret_parse_key_def secret_key_string_def)

section \<open>Sealing and opening\<close>

lemma aead_laws:
  assumes "aead_correct A"
  shows "ae_unmarshal A (ae_marshal A d) = Inr d" and "ae_open A k n (ae_seal A k n p) = Some p"
  using assms by (simp_all add: aead_correct_def)

lemma open_sealed:
  assumes "aead_correct A" and "fills rnd" and "secret_seal A rnd k p = Inr c"
  shows "secret_open A k c = Inr p"
  using assms(2,3) aead_laws [OF assms(1)]
  by (auto simp: secret_seal_def secret_open_def fills_def split: option.split_asm sum.split_asm)

lemma open_only_sealed:
  assumes "aead_correct A" and "secret_open A k c = Inr p"
  shows "\<exists>nonce. length nonce = nonce_size \<and> ae_unmarshal A c = Inr \<lparr>sd_ciphertext = ae_seal A k nonce p, sd_nonce = nonce\<rparr>"
proof -
  from assms(2) obtain d where d: "ae_unmarshal A c = Inr d" "length (sd_nonce d) = nonce_size"
    "ae_open A k (sd_nonce d) (sd_ciphertext d) = Some p"
    by (auto simp: secret_open_def split: sum.split_asm option.split_asm if_split_asm)
  with assms(1) have "d = \<lparr>sd_ciphertext = ae_seal A k (sd_nonce d) p, sd_nonce = sd_nonce d\<rparr>"
    by (simp add: aead_correct_def)
  with d show ?thesis by metis
qed

text \<open>
  The cipher's errors: a key of the wrong length neither seals nor opens, and a nonce of the wrong length is
  refused before the cipher sees it.
\<close>

lemma bad_key_refused:
  assumes "length k \<notin> {16, 24, 32}"
  shows "is_err (secret_seal A rnd k p)" and "is_err (secret_open A k c)"
  using assms by (auto simp: secret_seal_def secret_open_def new_cipher_def split: sum.splits)

lemma bad_nonce_refused:
  assumes "ae_unmarshal A c = Inr d" and "length (sd_nonce d) \<noteq> 12"
  shows "is_err (secret_open A k c)"
  using assms by (auto simp: secret_open_def nonce_size_def split: option.splits)

section \<open>A concrete cipher\<close>

text \<open>
  A toy cipher that keeps the key and the nonce in front of the text, with a length-prefixed encoding in
  place of JSON, shows that the hypotheses can hold.
\<close>

definition toy_aead :: aead where
  "toy_aead = \<lparr>ae_seal = (\<lambda>k n p. hex_encode k @ ''.'' @ hex_encode n @ ''.'' @ p),
     ae_open = (\<lambda>k n c. let h = hex_encode k @ ''.'' @ hex_encode n @ ''.'' in
       if starts_with h c then Some (drop (length h) c) else None),
     ae_marshal = (\<lambda>d. hex_encode (sd_nonce d) @ ''.'' @ sd_ciphertext d),
     ae_unmarshal = (\<lambda>s. case cut (CHR ''.'') s of (n, c, found) \<Rightarrow>
       if found then (case hex_decode_string n of None \<Rightarrow> Inl (Err OtherError ''json'')
         | Some n' \<Rightarrow> Inr \<lparr>sd_ciphertext = c, sd_nonce = n'\<rparr>)
       else Inl (Err OtherError ''json''))\<rparr>"

lemma hex_encode_no_dot: "CHR ''.'' \<notin> set (hex_encode s)"
proof
  assume "CHR ''.'' \<in> set (hex_encode s)"
  from hex_encode_chars [OF this] show False by (simp add: is_hex_def)
qed

lemma toy_aead_correct: "aead_correct toy_aead"
  by (auto simp: aead_correct_def toy_aead_def hex_encode_no_dot starts_with_iff Let_def)

definition toy_random :: random_source where
  "toy_random n = Inr (replicate n (CHR ''r''))"

lemma toy_random_fills: "fills toy_random"
  by (auto simp: fills_def toy_random_def)

end
