(* ===== verification/WebLogin.thy ===== *)
theory WebLogin
  imports LoginSafety Secret
begin

text \<open>
  The proxy's side of a login: the handlers of \<^verbatim>\<open>lib/googleoidc/webhandlers.go\<close> and what they call in \<^verbatim>\<open>lib/web\<close>,
  \<^verbatim>\<open>lib/httplib\<close> and \<^verbatim>\<open>lib/client\<close>: the parameters of a login request, the CSRF token, the session cookie, the
  local redirect and the encrypted answer to a console login.

  A handler returns where the browser is sent and the session cookies it sets. What is outside, the
  encoding of the cookie, the device token of a session, the certificates a host authority is trusted by,
  the JSON of a console answer, the cipher and its random source, is a field of \<open>web_env\<close>.
\<close>

section \<open>Requests of the browser\<close>

record http_request =
  hr_raw_query :: string
  hr_csrf_cookie :: "string option"
  hr_remote_addr :: string
  hr_host :: string
  hr_user_agent :: string

text \<open>\<^verbatim>\<open>CLILoginResponse\<close>, the answer to a console login, without the fields that only other
  logins set; the host signers are as the client trusts them.\<close>

record cli_login_response =
  cl_username :: string
  cl_cert :: string
  cl_tls_cert :: string
  cl_host_signers :: "string list"
  cl_client_options :: string

record web_env =
  we_proxy_client :: bool
  we_encode_cookie :: "string \<Rightarrow> string \<Rightarrow> string result"
  we_device_token :: "string \<Rightarrow> (string \<times> string) option"
  we_trusted_certs :: "string \<Rightarrow> string"
  we_console_json :: "cli_login_response \<Rightarrow> string result"
  we_aead :: aead
  we_random :: random_source

definition login_failed_redirect_url :: string where "login_failed_redirect_url = ''/web/msg/error/login''"
definition login_failed_bad_callback_redirect_url :: string where
  "login_failed_bad_callback_redirect_url = ''/web/msg/error/login/callback''"
definition sso_login_failure_message :: string where
  "sso_login_failure_message = ''Failed to login. Please check Teleport's log for more details.''"

text \<open>\<^verbatim>\<open>URL.Query\<close> keeps the pairs that can be read and drops the others.\<close>

fun url_query_pairs :: "string list \<Rightarrow> query" where
  "url_query_pairs [] = []"
| "url_query_pairs (p # ps) =
     (if p = [] \<or> CHR '';'' \<in> set p then url_query_pairs ps
      else let (k, v, _) = cut (CHR ''='') p in
        case (unescape EncodeQuery k, unescape EncodeQuery v) of
          (Some k', Some v') \<Rightarrow> (k', v') # url_query_pairs ps
        | _ \<Rightarrow> url_query_pairs ps)"

definition url_query :: "string \<Rightarrow> query" where
  "url_query raw = url_query_pairs (split_on (CHR ''&'') raw)"

text \<open>\<^verbatim>\<open>url.QueryEscape\<close> and \<^verbatim>\<open>Values.Encode\<close>, which sorts by key.\<close>

definition query_escape :: "string \<Rightarrow> string" where
  "query_escape s = concat (map (\<lambda>c. if c = CHR '' '' then ''+'' else escape_char EncodeQuery c) s)"

definition values_encode :: "query \<Rightarrow> string" where
  "values_encode q = join_with ''&'' (map (\<lambda>(k, v). query_escape k @ ''='' @ query_escape v) (sort_key fst q))"

text \<open>The text around the first occurrence of a separator.\<close>

fun cut_sub :: "string \<Rightarrow> string \<Rightarrow> (string \<times> string) option" where
  "cut_sub sep [] = (if sep = [] then Some ([], []) else None)"
| "cut_sub sep (c # s) =
     (if starts_with sep (c # s) then Some ([], drop (length sep) (c # s))
      else map_option (\<lambda>(a, b). (c # a, b)) (cut_sub sep s))"

section \<open>Parameters of a login (lib/web/apiserver.go)\<close>

record sso_request_params =
  sp_client_redirect_url :: string
  sp_connector_id :: string
  sp_csrf_token :: string
  sp_login_hint :: string
  sp_scope :: string

definition max_username_length :: nat where "max_username_length = 1000"

definition redirect_param :: "string \<Rightarrow> string" where
  "redirect_param raw =
     (case cut_sub ''&redirect_url='' raw of
        None \<Rightarrow> []
      | Some (_, rest) \<Rightarrow>
          (let part = (case cut_sub ''&redirect_url='' rest of None \<Rightarrow> rest | Some (a, _) \<Rightarrow> a) in
           case unescape EncodeQuery part of None \<Rightarrow> [] | Some v \<Rightarrow> v))"

definition extract_token_from_cookie :: "http_request \<Rightarrow> string result" where
  "extract_token_from_cookie r =
     (case hr_csrf_cookie r of None \<Rightarrow> Inl (Err OtherError ''http: named cookie not present'') | Some c \<Rightarrow> Inr c)"

definition parse_sso_request_params :: "http_request \<Rightarrow> sso_request_params result" where
  "parse_sso_request_params r =
     (let client_redirect = redirect_param (hr_raw_query r);
          q = url_query (hr_raw_query r);
          hint = q_get q ''login_hint'' in
      if client_redirect = [] then Inl (Err BadParameter ''missing redirect_url query parameter'')
      else if q_get q ''connector_id'' = [] then Inl (Err BadParameter ''missing connector_id query parameter'')
      else case extract_token_from_cookie r of
          Inl e \<Rightarrow> Inl e
        | Inr csrf \<Rightarrow>
            Inr \<lparr>sp_client_redirect_url = client_redirect, sp_connector_id = q_get q ''connector_id'', sp_csrf_token = csrf,
              sp_login_hint = (if length hint > max_username_length then [] else hint), sp_scope = q_get q ''scope''\<rparr>)"

section \<open>Starting a login (webhandlers.go, lib/client/weblogin.go)\<close>

definition zero_request :: oidc_auth_request where
  "zero_request = \<lparr>connector_id = [], state_token = [], csrf_token = [], redirect_url = [], ssh_public_key = [],
     tls_public_key = [], cert_ttl = 0, create_web_session = False, client_redirect_url = [], compatibility = [],
     route_to_cluster = [], kubernetes_cluster = [], sso_test_flow = False, connector_spec = None, proxy_address = [],
     client_login_ip = [], client_user_agent = [], pkce_verifier = [], login_hint = [], req_scope = []\<rparr>"

definition auth_request_for_login :: "http_request \<Rightarrow> sso_request_params \<Rightarrow> string \<Rightarrow> oidc_auth_request" where
  "auth_request_for_login r params remote =
     zero_request\<lparr>csrf_token := sp_csrf_token params, connector_id := sp_connector_id params, create_web_session := True,
       client_redirect_url := sp_client_redirect_url params, client_login_ip := remote, client_user_agent := hr_user_agent r,
       proxy_address := hr_host r, req_scope := sp_scope params\<rparr>"

record console_req =
  cq_redirect_url :: string
  cq_ssh_pub_key :: string
  cq_tls_pub_key :: string
  cq_cert_ttl :: int
  cq_connector_id :: string
  cq_compatibility :: string
  cq_scope :: string
  cq_route_to_cluster :: string
  cq_kubernetes_cluster :: string

definition check_public_keys :: "console_req \<Rightarrow> err option" where
  "check_public_keys q =
     (if cq_ssh_pub_key q = [] \<and> cq_tls_pub_key q = [] then Some (Err BadParameter ''ssh_pub_key or tls_pub_key must be set'')
      else None)"

definition check_console_req :: "console_req \<Rightarrow> err option" where
  "check_console_req q =
     (if cq_redirect_url q = [] then Some (Err BadParameter ''missing RedirectURL'')
      else if cq_connector_id q = [] then Some (Err BadParameter ''missing ConnectorID'')
      else check_public_keys q)"

definition auth_request_for_console_login :: "http_request \<Rightarrow> console_req \<Rightarrow> string \<Rightarrow> oidc_auth_request" where
  "auth_request_for_console_login r q remote =
     zero_request\<lparr>create_web_session := False, connector_id := cq_connector_id q, ssh_public_key := cq_ssh_pub_key q,
       tls_public_key := cq_tls_pub_key q, cert_ttl := cq_cert_ttl q, client_redirect_url := cq_redirect_url q,
       compatibility := cq_compatibility q, route_to_cluster := cq_route_to_cluster q,
       kubernetes_cluster := cq_kubernetes_cluster q, client_login_ip := remote, req_scope := cq_scope q,
       proxy_address := hr_host r\<rparr>"

text \<open>The Auth Service is called with the request; the secrets it draws are an argument.\<close>

definition login_web ::
  "login_env \<Rightarrow> web_env \<Rightarrow> request_secrets result \<Rightarrow> http_request \<Rightarrow> world \<Rightarrow> string \<times> world" where
  "login_web E W secrets r w =
     (if \<not> we_proxy_client W then (login_failed_redirect_url, w)
      else case parse_sso_request_params r of
          Inl _ \<Rightarrow> (login_failed_redirect_url, w)
        | Inr params \<Rightarrow>
            (case split_host_port (hr_remote_addr r) of
               None \<Rightarrow> (login_failed_redirect_url, w)
             | Some (remote, _) \<Rightarrow>
                 (case create_auth_request E secrets (auth_request_for_login r params remote) w of
                    (Inl _, w') \<Rightarrow> (login_failed_redirect_url, w')
                  | (Inr req, w') \<Rightarrow> (redirect_url req, w'))))"

definition login_console ::
  "login_env \<Rightarrow> web_env \<Rightarrow> request_secrets result \<Rightarrow> http_request \<Rightarrow> console_req result \<Rightarrow> world \<Rightarrow> string result \<times> world" where
  "login_console E W secrets r body w =
     (let failed = Inl (Err AccessDenied sso_login_failure_message) in
      if \<not> we_proxy_client W then (failed, w)
      else case body of
          Inl _ \<Rightarrow> (failed, w)
        | Inr q \<Rightarrow>
            (case check_console_req q of
               Some _ \<Rightarrow> (failed, w)
             | None \<Rightarrow>
                 (case split_host_port (hr_remote_addr r) of
                    None \<Rightarrow> (failed, w)
                  | Some (remote, _) \<Rightarrow>
                      (case create_auth_request E secrets (auth_request_for_console_login r q remote) w of
                         (Inl _, w') \<Rightarrow> (failed, w')
                       | (Inr req, w') \<Rightarrow> (Inr (redirect_url req), w')))))"

section \<open>CSRF (lib/httplib/csrf)\<close>

definition token_len_bytes :: nat where "token_len_bytes = 32"

definition csrf_decode :: "string \<Rightarrow> string result" where
  "csrf_decode token =
     (case hex_decode_string token of
        None \<Rightarrow> Inl (Err OtherError ''encoding/hex'')
      | Some d \<Rightarrow> if length d \<noteq> token_len_bytes then Inl (Err BadParameter ''invalid CSRF token byte length'') else Inr d)"

definition csrf_verify_token :: "string \<Rightarrow> http_request \<Rightarrow> err option" where
  "csrf_verify_token token r =
     (case extract_token_from_cookie r of
        Inl e \<Rightarrow> Some e
      | Inr real \<Rightarrow>
          (case csrf_decode token of
             Inl e \<Rightarrow> Some e
           | Inr a \<Rightarrow>
               (case csrf_decode real of
                  Inl e \<Rightarrow> Some e
                | Inr b \<Rightarrow> if a \<noteq> b then Some (Err BadParameter ''CSRF tokens do not match'') else None)))"

section \<open>Where the browser is sent (lib/httplib, lib/web)\<close>

text \<open>\<^verbatim>\<open>URL.RequestURI\<close>.\<close>

definition request_uri :: "url \<Rightarrow> string" where
  "request_uri u =
     (if url_opaque u = [] then (if escaped_path u = [] then ''/'' else escaped_path u)
      else if starts_with ''//'' (url_opaque u) then url_scheme u @ '':'' @ url_opaque u
      else url_opaque u)
     @ (if url_force_query u \<or> url_raw_query u \<noteq> [] then ''?'' @ url_raw_query u else [])"

definition origin_local_redirect_uri :: "golib \<Rightarrow> string \<Rightarrow> string result" where
  "origin_local_redirect_uri U s =
     (case url_parse U s of
        None \<Rightarrow> Inl (Err OtherError ''parse'')
      | Some u \<Rightarrow>
          if is_abs u \<and> url_scheme u \<noteq> ''http'' \<and> url_scheme u \<noteq> ''https'' then Inl (Err BadParameter ''Invalid scheme'')
          else if url_user u then Inl (Err BadParameter ''Basic Auth not allowed in redirect URL'')
          else if starts_with ''//'' (request_uri u) then Inl (Err BadParameter ''Invalid double slash redirect'')
          else Inr (request_uri u))"

text \<open>\<^verbatim>\<open>url.ParseRequestURI\<close>: no fragment, and a path must begin with a slash.\<close>

definition parse_request_uri :: "golib \<Rightarrow> string \<Rightarrow> url option" where
  "parse_request_uri U raw =
     (if raw = [] then None
      else case get_scheme raw of
          None \<Rightarrow> None
        | Some (scheme, rest) \<Rightarrow>
            if raw \<noteq> ''*'' \<and> scheme = [] \<and> \<not> starts_with ''/'' (fst (split_query rest)) then None
            else if scheme = [] \<and> starts_with ''/'' raw \<and> \<not> has_ctl raw then
              (let (path, force, query) = split_query rest in
               set_path path (no_url\<lparr>url_force_query := force, url_raw_query := query\<rparr>))
            else parse_no_fragment U raw)"

definition is_valid_redirect_url :: "golib \<Rightarrow> string \<Rightarrow> bool" where
  "is_valid_redirect_url U s =
     (case parse_request_uri U s of
        None \<Rightarrow> False
      | Some u \<Rightarrow> \<not> is_abs u \<or> url_scheme u = ''http'' \<or> url_scheme u = ''https'')"

definition build_device_web_redirect_path :: "string \<times> string \<Rightarrow> string \<Rightarrow> string" where
  "build_device_web_redirect_path token redirect =
     (case token of (tid, tok) \<Rightarrow>
        if tid = [] \<or> tok = [] then ''/web''
        else ''/web/device/authorize/'' @ tid @ ''/'' @ tok @ (if redirect \<noteq> [] then ''?redirect_uri='' @ redirect else []))"

text \<open>A session cookie, by the user and the session it is for.\<close>

type_synonym cookie = "string \<times> string"

definition sso_set_web_session_and_redirect_url ::
  "golib \<Rightarrow> web_env \<Rightarrow> http_request \<Rightarrow> string \<Rightarrow> string \<Rightarrow> string \<Rightarrow> string \<Rightarrow> string result \<times> cookie list" where
  "sso_set_web_session_and_redirect_url U W r csrf user session redirect =
     (case csrf_verify_token csrf r of
        Some e \<Rightarrow> (Inl e, [])
      | None \<Rightarrow>
          (case we_encode_cookie W user session of
             Inl e \<Rightarrow> (Inl e, [])
           | Inr _ \<Rightarrow>
               (case origin_local_redirect_uri U redirect of
                  Inl e \<Rightarrow> (Inl e, [(user, session)])
                | Inr uri \<Rightarrow> (Inr uri, [(user, session)]))))"

text \<open>The destination of the browser: a text, or the URL of the console client before it is printed.\<close>

datatype destination = DestText string | DestURL url

text \<open>Certificates and options that were not issued are empty.\<close>

definition certs_of :: "auth_response \<Rightarrow> string \<times> string" where
  "certs_of resp = (case ar_certs resp of None \<Rightarrow> ([], []) | Some c \<Rightarrow> c)"

definition client_options_of :: "auth_response \<Rightarrow> string" where
  "client_options_of resp = (case ar_client_options resp of None \<Rightarrow> [] | Some opts \<Rightarrow> opts)"

definition console_response :: "web_env \<Rightarrow> auth_response \<Rightarrow> cli_login_response" where
  "console_response W resp =
     \<lparr>cl_username = ar_username resp, cl_cert = fst (certs_of resp), cl_tls_cert = snd (certs_of resp),
      cl_host_signers = map (we_trusted_certs W) (ar_host_signers resp), cl_client_options = client_options_of resp\<rparr>"

definition construct_ssh_response :: "golib \<Rightarrow> web_env \<Rightarrow> auth_response \<Rightarrow> url result" where
  "construct_ssh_response U W resp =
     (case url_parse U (client_redirect_url (ar_req resp)) of
        None \<Rightarrow> Inl (Err OtherError ''parse'')
      | Some u \<Rightarrow>
          (case we_console_json W (console_response W resp) of
             Inl e \<Rightarrow> Inl e
           | Inr out \<Rightarrow>
               if url_path u = web_mfa_redirect then
                 Inr (no_url\<lparr>url_path := web_mfa_redirect,
                   url_raw_query := values_encode (url_query (url_raw_query u) @ [(''response'', out)])\<rparr>)
               else if q_get (url_query (url_raw_query u)) ''secret_key'' = [] then Inl (Err BadParameter ''missing secret_key'')
               else case secret_parse_key (q_get (url_query (url_raw_query u)) ''secret_key'') of
                   Inl e \<Rightarrow> Inl e
                 | Inr key \<Rightarrow>
                     (case secret_seal (we_aead W) (we_random W) key out of
                        Inl e \<Rightarrow> Inl e
                      | Inr c \<Rightarrow> Inr (u\<lparr>url_raw_query := values_encode [(''response'', c)]\<rparr>))))"

section \<open>Finishing a login (webhandlers.go)\<close>

definition finish_callback :: "golib \<Rightarrow> web_env \<Rightarrow> http_request \<Rightarrow> auth_response \<Rightarrow> destination \<times> cookie list" where
  "finish_callback U W r resp =
     (if create_web_session (ar_req resp) then
        (case ar_session resp of
           None \<Rightarrow> (DestText login_failed_redirect_url, [])
         | Some session \<Rightarrow>
             (case sso_set_web_session_and_redirect_url U W r (csrf_token (ar_req resp)) (ar_username resp) session
                     (client_redirect_url (ar_req resp)) of
                (Inl _, cs) \<Rightarrow> (DestText login_failed_redirect_url, cs)
              | (Inr uri, cs) \<Rightarrow>
                  (case we_device_token W session of
                     Some token \<Rightarrow> (DestText (build_device_web_redirect_path token uri), cs)
                   | None \<Rightarrow> (DestText uri, cs))))
      else if ssh_public_key (ar_req resp) = [] \<and> tls_public_key (ar_req resp) = [] then (DestText login_failed_redirect_url, [])
      else case construct_ssh_response U W resp of
          Inl _ \<Rightarrow> (DestText login_failed_redirect_url, [])
        | Inr u \<Rightarrow> (DestURL u, []))"

definition web_callback ::
  "login_env \<Rightarrow> web_env \<Rightarrow> http_request \<Rightarrow> world \<Rightarrow> (destination \<times> cookie list) \<times> world" where
  "web_callback E W r w =
     (if \<not> we_proxy_client W then ((DestText login_failed_bad_callback_redirect_url, []), w)
      else case validate_oidc_auth_callback E (url_query (hr_raw_query r)) w of
          (Inl _, w') \<Rightarrow> ((DestText login_failed_bad_callback_redirect_url, []), w')
        | (Inr resp, w') \<Rightarrow> (finish_callback (le_lib E) W r resp, w'))"

text \<open>The redirect that the proxy writes after the handler.\<close>

definition redirect_target :: "golib \<Rightarrow> string \<Rightarrow> string" where
  "redirect_target U s = (if is_valid_redirect_url U s then s else login_failed_redirect_url)"

section \<open>Sessions and the browser that started the login\<close>

lemma csrf_verify_None:
  assumes "csrf_verify_token token r = None"
  obtains c t where "hr_csrf_cookie r = Some c" "csrf_decode c = Inr t" "csrf_decode token = Inr t"
  using assms by (auto simp: csrf_verify_token_def extract_token_from_cookie_def split: sum.split_asm option.split_asm if_split_asm)

lemma finish_callback_cookie:
  assumes "finish_callback U W r resp = (d, cs)" and "cs \<noteq> []"
  shows "create_web_session (ar_req resp)" and "csrf_verify_token (csrf_token (ar_req resp)) r = None"
    and "\<exists>session. ar_session resp = Some session \<and> cs = [(ar_username resp, session)]"
  using assms
  by (auto simp: finish_callback_def sso_set_web_session_and_redirect_url_def
      split: if_split_asm option.split_asm sum.split_asm prod.split_asm)

lemma web_callback_ok:
  assumes "web_callback E W r w = ((d, cs), w')" and "cs \<noteq> [] \<or> (\<exists>u. d = DestURL u)"
  obtains resp a w1 where "validate_callback E (url_query (hr_raw_query r)) w = (Inr resp, a, w1)"
    and "finish_callback (le_lib E) W r resp = (d, cs)"
  using assms
  by (auto simp: web_callback_def validate_oidc_auth_callback_def split: if_split_asm sum.split_asm prod.split_asm)

lemma create_auth_request_state: "create_auth_request E secrets req0 w = (Inr req, w') \<Longrightarrow> \<exists>sec. secrets = Inr sec \<and> sec_state sec \<noteq> []"
  by (auto simp: create_auth_request_def put_nonce_def split: sum.split_asm prod.split_asm if_split_asm elim!: prepare_request_ok)

text \<open>
  Property C7: no login CSRF. When a browser has started a login and the answer of the provider comes back,
  from whatever browser, a session cookie is set only for a browser that presents the CSRF token of the one
  that started it: both cookies decode to the same 32 bytes. The cookie is for the user and the session of
  the validated callback. The code relies on the JSON encoding of the request to be read back.
\<close>

theorem login_csrf_protected:
  assumes "mem_auth (lw_mem w)" and "parse_sso_request_params r = Inr params"
    and "create_auth_request E (Inr sec) (auth_request_for_login r params remote) w = (Inr req, w1)"
    and "unmarshal_request (le_codec E) (marshal_request (le_codec E) req) = Inr req"
    and "mem_run (login_keys (sec_state sec)) (\<lambda>_. False) (le_t_claim E) (lw_mem w1) (le_t_lookup E') (lw_mem w2)"
    and "le_t_lookup E' < le_t_claim E + le_ttl E" and "le_codec E' = le_codec E"
    and "q_get (url_query (hr_raw_query r')) ''state'' = sec_state sec"
    and "web_callback E' W r' w2 = ((d, cs), w3)" and "cs \<noteq> []"
  shows "\<exists>c c' token. hr_csrf_cookie r = Some c \<and> hr_csrf_cookie r' = Some c' \<and> csrf_decode c = Inr token \<and> csrf_decode c' = Inr token
    \<and> length token = 32
    \<and> (\<exists>resp session. fst (validate_oidc_auth_callback E' (url_query (hr_raw_query r')) w2) = Inr resp
        \<and> ar_session resp = Some session \<and> cs = [(ar_username resp, session)])"
proof -
  from assms(9,10) obtain resp a w4 where v: "validate_callback E' (url_query (hr_raw_query r')) w2 = (Inr resp, a, w4)"
    and f: "finish_callback (le_lib E') W r' resp = (d, cs)" using web_callback_ok by blast
  note cookie = finish_callback_cookie [OF f assms(10)]
  from started_request [OF assms(1,3-6)] obtain conn domains config
    where req: "req = (clean_user_agent (auth_request_for_login r params remote))\<lparr>pkce_verifier := sec_verifier sec, state_token := sec_state sec,
      redirect_url := le_auth_code_url E config (sec_state sec) (auth_code_options E conn
        ((clean_user_agent (auth_request_for_login r params remote))\<lparr>pkce_verifier := sec_verifier sec\<rparr>) (sec_nonce sec) domains)\<rparr>"
    and found: "fst (get_auth_request_item mem_get (le_codec E) (le_t_lookup E') (sec_state sec) (lw_mem w2)) = Inr req" .
  from callback_request [OF v] found assms(7,8) have "ar_req resp = req" by simp
  then have token: "csrf_token (ar_req resp) = sp_csrf_token params"
    unfolding req by (simp add: clean_user_agent_def auth_request_for_login_def)
  have c: "hr_csrf_cookie r = Some (sp_csrf_token params)"
    using assms(2) by (auto simp: parse_sso_request_params_def extract_token_from_cookie_def Let_def split: if_split_asm option.split_asm)
  from cookie(2) obtain c' t where c': "hr_csrf_cookie r' = Some c'" "csrf_decode c' = Inr t" "csrf_decode (sp_csrf_token params) = Inr t"
    unfolding token by (rule csrf_verify_None)
  have "length t = 32" using c'(2) by (auto simp: csrf_decode_def token_len_bytes_def split: option.split_asm if_split_asm)
  moreover have "fst (validate_oidc_auth_callback E' (url_query (hr_raw_query r')) w2) = Inr resp"
    by (simp add: validate_oidc_auth_callback_def v)
  ultimately show ?thesis using c c' cookie(3) by blast
qed

section \<open>Redirects within the origin\<close>

lemma unescape_slash: "unescape EncodePath (CHR ''/'' # s) = Some p \<Longrightarrow> \<exists>t. p = CHR ''/'' # t"
  by (auto split: option.split_asm)

lemma escaped_path_rooted:
  assumes "set_path p u = Some v" and "p = [] \<or> starts_with ''/'' p"
  shows "escaped_path v = [] \<or> starts_with ''/'' (escaped_path v)"
proof -
  from assms(1) obtain path where path: "unescape EncodePath p = Some path"
    "v = u\<lparr>url_path := path, url_raw_path := (if escape EncodePath path = p then [] else p)\<rparr>"
    by (auto simp: set_path_def)
  have "\<not> should_escape EncodePath (CHR ''/'')" by (simp add: should_escape_def is_alnum_def)
  then have e: "escape EncodePath (CHR ''/'' # t) = CHR ''/'' # escape EncodePath t" for t
    by (simp add: escape_def escape_char_def)
  show ?thesis
  proof (cases p)
    case Nil
    with path show ?thesis by (simp add: escaped_path_def escape_def)
  next
    case (Cons c s)
    with assms(2) have "c = CHR ''/''" by simp
    with Cons path(1) unescape_slash [of s path] obtain t where "path = CHR ''/'' # t" by auto
    with Cons path(2) \<open>c = CHR ''/''\<close> e show ?thesis by (simp add: escaped_path_def)
  qed
qed

lemma starts_slash: "starts_with ''/'' s \<longleftrightarrow> (\<exists>t. s = CHR ''/'' # t)"
  by (cases s) (auto simp: starts_with_def)

lemma split_query_rooted: "starts_with ''/'' rest \<Longrightarrow> starts_with ''/'' (fst (split_query rest))"
proof -
  assume "starts_with ''/'' rest"
  then obtain t where "rest = CHR ''/'' # t" by (auto simp: starts_slash)
  then show ?thesis by (cases t) (auto simp: starts_slash split_query_def cut_def Let_def)
qed

lemma parse_hierarchy_rooted:
  assumes "parse_hierarchy U u rest = Some v" and "starts_with ''/'' rest" and "url_opaque u = []"
  shows "url_opaque v = [] \<and> (escaped_path v = [] \<or> starts_with ''/'' (escaped_path v))"
proof -
  have d: "dropWhile (\<lambda>c. c \<noteq> CHR ''/'') x = [] \<or> starts_with ''/'' (dropWhile (\<lambda>c. c \<noteq> CHR ''/'') x)" for x
    by (induction x) (auto simp: starts_slash)
  obtain p w where p: "set_path p w = Some v" "p = [] \<or> starts_with ''/'' p" "url_opaque w = []"
    using assms d by (fastforce simp: parse_hierarchy_def Let_def split: if_split_asm option.split_asm)
  moreover have "url_opaque v = url_opaque w" using p(1) by (auto simp: set_path_def)
  ultimately show ?thesis using escaped_path_rooted [OF p(1,2)] by simp
qed

definition rooted :: "string \<Rightarrow> bool" where
  "rooted s \<longleftrightarrow> starts_with ''/'' s \<or> starts_with ''http://'' s \<or> starts_with ''https://'' s"

lemma rooted_scheme:
  assumes "rooted s" and "get_scheme s = Some (scheme, rest)"
  shows "starts_with ''/'' rest"
  using assms
  by (auto simp: rooted_def starts_with_iff get_scheme_def scheme_alpha_def scheme_other_def is_alnum_def split: option.split_asm if_split_asm)

lemma rooted_before: "rooted s \<Longrightarrow> rooted (fst (cut (CHR ''#'') s))"
  by (auto simp: rooted_def starts_with_iff cut_def)

lemma url_parse_rooted:
  assumes "url_parse U s = Some u" and "rooted s"
  shows "url_opaque u = [] \<and> (escaped_path u = [] \<or> starts_with ''/'' (escaped_path u))"
proof -
  let ?r = "fst (cut (CHR ''#'') s)"
  from assms(1) obtain v where v: "parse_no_fragment U ?r = Some v"
    and u: "url_opaque u = url_opaque v" "escaped_path u = escaped_path v"
    by (auto simp: url_parse_def escaped_path_def split: prod.split_asm option.split_asm if_split_asm)
  have "?r \<noteq> ''*''" using rooted_before [OF assms(2)] by (auto simp: rooted_def starts_with_def)
  with v obtain scheme rest where s: "get_scheme ?r = Some (scheme, rest)"
    "parse_hierarchy U (no_url\<lparr>url_scheme := to_lower U scheme, url_force_query := fst (snd (split_query rest)),
        url_raw_query := snd (snd (split_query rest))\<rparr>) (fst (split_query rest)) = Some v"
    by (auto simp: parse_no_fragment_def split: if_split_asm option.split_asm prod.split_asm)
  from parse_hierarchy_rooted [OF s(2)] split_query_rooted rooted_scheme [OF rooted_before [OF assms(2)] s(1)] u
  show ?thesis by (simp add: no_url_def)
qed

text \<open>
  A browser login ends inside the proxy's origin when the client redirect is an absolute path or an
  http or https URL with an authority: the host is dropped, and the browser is sent to a path that begins with
  exactly one slash.
\<close>

theorem rooted_redirect_stays_local:
  assumes "origin_local_redirect_uri U s = Inr uri" and "rooted s"
  shows "starts_with ''/'' uri \<and> \<not> starts_with ''//'' uri"
proof -
  from assms(1) obtain u where u: "url_parse U s = Some u" "uri = request_uri u" "\<not> starts_with ''//'' uri"
    by (auto simp: origin_local_redirect_uri_def split: option.split_asm if_split_asm)
  from url_parse_rooted [OF u(1) assms(2)] have "starts_with ''/'' (request_uri u)"
    by (auto simp: request_uri_def starts_slash)
  with u show ?thesis by simp
qed

lemma rooted_redirect_stays_local_witness:
  "origin_local_redirect_uri ascii_tables ''https://tp.ex.com/web/c?x=1'' = Inr ''/web/c?x=1'' \<and> starts_with ''/'' ''/web/c?x=1''"
proof -
  have p: "origin_local_redirect_uri ascii_tables ''https://tp.ex.com/web/c?x=1'' = Inr ''/web/c?x=1''" by code_simp
  have "rooted ''https://tp.ex.com/web/c?x=1''" by code_simp
  from rooted_redirect_stays_local [OF p this] p show ?thesis by blast
qed


section \<open>The answer to a console login\<close>

lemma finish_callback_url:
  assumes "finish_callback U W r resp = (DestURL u, cs)"
  shows "cs = []" and "\<not> create_web_session (ar_req resp)" and "construct_ssh_response U W resp = Inr u"
  using assms
  by (auto simp: finish_callback_def split: if_split_asm option.split_asm sum.split_asm prod.split_asm)

lemma prepare_request_client:
  assumes "prepare_request E secrets req0 w = Inr (req, nonce)" and "\<not> create_web_session req0"
  obtains conn where "get_connector (le_lib E) (clean_user_agent req0) w = Inr conn"
    and "validate_client_redirect (le_lib E) (le_in_cidr E) (client_redirect_url req0)
      (if sso_test_flow req0 then CeremonyTest else CeremonyLogin) (client_redirect_settings (con_spec conn)) = None"
proof -
  have "create_web_session (clean_user_agent req0) = create_web_session req0"
    "client_redirect_url (clean_user_agent req0) = client_redirect_url req0"
    "sso_test_flow (clean_user_agent req0) = sso_test_flow req0" by (simp_all add: clean_user_agent_def)
  then show thesis using assms that by (auto simp: prepare_request_def Let_def split: option.split_asm sum.split_asm)
qed

lemma accepted_not_mfa:
  assumes "validate_client_redirect U in_cidr s kind settings = None" and "s \<noteq> []" and "kind \<noteq> CeremonyMFA"
    and "url_parse U s = Some u"
  shows "url_path u \<noteq> web_mfa_redirect"
  using assms by (auto simp: validate_client_redirect_def split: if_split_asm)

text \<open>The request that the callback of a started console login works on.\<close>

lemma console_request_kept:
  assumes "mem_auth (lw_mem w)"
    and "create_auth_request E (Inr sec) (auth_request_for_console_login r q remote) w = (Inr req, w1)"
    and "unmarshal_request (le_codec E) (marshal_request (le_codec E) req) = Inr req"
    and "mem_run (login_keys (sec_state sec)) (\<lambda>_. False) (le_t_claim E) (lw_mem w1) (le_t_lookup E') (lw_mem w2)"
    and "le_t_lookup E' < le_t_claim E + le_ttl E" and "le_codec E' = le_codec E"
    and "q_get q' ''state'' = sec_state sec" and "validate_callback E' q' w2 = (Inr resp, a, w3)"
  shows "client_redirect_url (ar_req resp) = cq_redirect_url q" and "\<not> create_web_session (ar_req resp)"
    and "ssh_public_key (ar_req resp) = cq_ssh_pub_key q" and "tls_public_key (ar_req resp) = cq_tls_pub_key q"
proof -
  let ?req0 = "auth_request_for_console_login r q remote"
  from started_request [OF assms(1-5)] obtain conn' domains config
    where req: "req = (clean_user_agent ?req0)\<lparr>pkce_verifier := sec_verifier sec, state_token := sec_state sec,
      redirect_url := le_auth_code_url E config (sec_state sec) (auth_code_options E conn'
        ((clean_user_agent ?req0)\<lparr>pkce_verifier := sec_verifier sec\<rparr>) (sec_nonce sec) domains)\<rparr>"
    and found: "fst (get_auth_request_item mem_get (le_codec E) (le_t_lookup E') (sec_state sec) (lw_mem w2)) = Inr req" .
  from callback_request [OF assms(8)] found assms(6,7) have "ar_req resp = req" by simp
  then show "client_redirect_url (ar_req resp) = cq_redirect_url q" "\<not> create_web_session (ar_req resp)"
    "ssh_public_key (ar_req resp) = cq_ssh_pub_key q" "tls_public_key (ar_req resp) = cq_tls_pub_key q"
    unfolding req by (simp_all add: clean_user_agent_def auth_request_for_console_login_def)
qed

text \<open>
  Property C8: the credentials of a console login reach the client that asked for them and nobody else can
  read them. When a console login was started and its callback ends at a client URL, no cookie is set; the
  URL is the one the client gave, which is on the loopback interface or on a host that the connector's
  settings list, with its query replaced by one parameter; and that parameter is the answer sealed with the
  secret key of the client's URL.
\<close>

theorem console_answer_sealed_for_client:
  assumes "mem_auth (lw_mem w)" and "check_console_req q = None"
    and "create_auth_request E (Inr sec) (auth_request_for_console_login r q remote) w = (Inr req, w1)"
    and "unmarshal_request (le_codec E) (marshal_request (le_codec E) req) = Inr req"
    and "mem_run (login_keys (sec_state sec)) (\<lambda>_. False) (le_t_claim E) (lw_mem w1) (le_t_lookup E') (lw_mem w2)"
    and "le_t_lookup E' < le_t_claim E + le_ttl E" and "le_codec E' = le_codec E" and "le_lib E' = le_lib E"
    and "q_get (url_query (hr_raw_query r')) ''state'' = sec_state sec"
    and "web_callback E' W r' w2 = ((DestURL u', cs), w3)"
  shows "cs = [] \<and> (\<exists>conn u resp out key c. lw_connectors w (cq_connector_id q) = Some conn
    \<and> url_parse (le_lib E) (cq_redirect_url q) = Some u \<and> escaped_path u = ''/callback''
    \<and> (loopback_redirect u \<or> (\<exists>st. client_redirect_settings (con_spec conn) = Some st \<and> configured_redirect (le_lib E) (le_in_cidr E) st u))
    \<and> fst (validate_oidc_auth_callback E' (url_query (hr_raw_query r')) w2) = Inr resp \<and> we_console_json W (console_response W resp) = Inr out
    \<and> secret_parse_key (q_get (url_query (url_raw_query u)) ''secret_key'') = Inr key
    \<and> secret_seal (we_aead W) (we_random W) key out = Inr c
    \<and> u' = u\<lparr>url_raw_query := values_encode [(''response'', c)]\<rparr>)"
proof -
  let ?req0 = "auth_request_for_console_login r q remote"
  from assms(10) obtain resp a w4 where v: "validate_callback E' (url_query (hr_raw_query r')) w2 = (Inr resp, a, w4)"
    and f: "finish_callback (le_lib E') W r' resp = (DestURL u', cs)" using web_callback_ok by blast
  note done_url = finish_callback_url [OF f]
  note client = console_request_kept(1) [OF assms(1,3-7,9) v]
  obtain p where "prepare_request E (Inr sec) ?req0 w = Inr p"
    using assms(3) by (auto simp: create_auth_request_def split: sum.split_asm)
  then obtain conn where conn: "get_connector (le_lib E) (clean_user_agent ?req0) w = Inr conn"
    and ok: "validate_client_redirect (le_lib E) (le_in_cidr E) (cq_redirect_url q) CeremonyLogin (client_redirect_settings (con_spec conn)) = None"
    by (cases p) (auto elim!: prepare_request_client simp: auth_request_for_console_login_def zero_request_def)
  have ne: "cq_redirect_url q \<noteq> []" using assms(2) by (auto simp: check_console_req_def split: if_split_asm)
  from accepted_login_redirect [OF ok ne] obtain u where u: "url_parse (le_lib E) (cq_redirect_url q) = Some u"
    "escaped_path u = ''/callback''"
    "loopback_redirect u \<or> (\<exists>st. client_redirect_settings (con_spec conn) = Some st \<and> configured_redirect (le_lib E) (le_in_cidr E) st u)"
    by auto
  have "url_path u \<noteq> web_mfa_redirect" by (rule accepted_not_mfa [OF ok ne _ u(1)]) simp
  with done_url(3) u(1) client assms(8) obtain out key c where "secret_parse_key (q_get (url_query (url_raw_query u)) ''secret_key'') = Inr key"
    "we_console_json W (console_response W resp) = Inr out" "secret_seal (we_aead W) (we_random W) key out = Inr c" "u' = u\<lparr>url_raw_query := values_encode [(''response'', c)]\<rparr>"
    by (auto simp: construct_ssh_response_def split: sum.split_asm if_split_asm)
  moreover have "lw_connectors w (cq_connector_id q) = Some conn"
    using get_connector_ok [OF conn] by (simp add: clean_user_agent_def auth_request_for_console_login_def split: if_split_asm)
  moreover have "fst (validate_oidc_auth_callback E' (url_query (hr_raw_query r')) w2) = Inr resp"
    by (simp add: validate_oidc_auth_callback_def v)
  ultimately show ?thesis using done_url(1) u by blast
qed

text \<open>
  The login hint is lost. The parameters of a browser login carry the hint, but the auth request
  that the handlers build does not, so the URL that the browser is sent to never has a \<^verbatim>\<open>login_hint\<close>.
\<close>

theorem login_hint_dropped:
  "''login_hint'' \<notin> fst ` set (auth_code_options E conn (auth_request_for_login r params remote) nonce domains)"
  by (auto simp: auth_code_options_def auth_request_for_login_def zero_request_def)

section \<open>A concrete browser and a concrete console\<close>

definition sample_web :: web_env where
  "sample_web = \<lparr>we_proxy_client = True, we_encode_cookie = (\<lambda>u s. Inr (u @ s)), we_device_token = (\<lambda>_. None),
     we_trusted_certs = id, we_console_json = (\<lambda>_. Inr ''{}''), we_aead = toy_aead, we_random = toy_random\<rparr>"

definition sample_browser :: http_request where
  "sample_browser = \<lparr>hr_raw_query = ''connector_id=google&redirect_url=%2Fweb'', hr_csrf_cookie = Some (replicate 64 CHR ''a''),
     hr_remote_addr = ''10.0.0.1:443'', hr_host = ''tp.ex.com'', hr_user_agent = []\<rparr>"

definition answer_browser :: http_request where
  "answer_browser = sample_browser\<lparr>hr_raw_query := ''state=t&code=c'', hr_csrf_cookie := Some (replicate 64 CHR ''A'')\<rparr>"

definition sample_params_web :: sso_request_params where
  "sample_params_web = \<lparr>sp_client_redirect_url = ''/web'', sp_connector_id = ''google'', sp_csrf_token = replicate 64 CHR ''a'',
     sp_login_hint = [], sp_scope = []\<rparr>"

lemma sample_browser_params: "parse_sso_request_params sample_browser = Inr sample_params_web"
  by code_simp

lemma sample_answer_query: "url_query (hr_raw_query answer_browser) = sample_query"
  by code_simp

lemma sample_tokens: "csrf_decode (replicate 64 CHR ''A'') = csrf_decode (replicate 64 CHR ''a'')"
  "csrf_verify_token (csrf_token sample_auth_request) answer_browser = None"
proof -
  have d: "csrf_decode (replicate 64 c) = Inr (replicate 32 (char_of (16 * un_hex c + un_hex c)))" if "is_hex c" for c
    using hex_decode_replicate [OF that, of 32] by (simp add: csrf_decode_def token_len_bytes_def)
  show t: "csrf_decode (replicate 64 CHR ''A'') = csrf_decode (replicate 64 CHR ''a'')"
    by (simp add: d is_hex_def un_hex_def)
  show "csrf_verify_token (csrf_token sample_auth_request) answer_browser = None"
    by (simp add: csrf_verify_token_def extract_token_from_cookie_def answer_browser_def sample_auth_request_def d is_hex_def un_hex_def)
qed

lemma sample_browser_request:
  "auth_request_for_login sample_browser sample_params_web ''10.0.0.1'' = sample_auth_request\<lparr>pkce_verifier := [], state_token := []\<rparr>"
  by (simp add: auth_request_for_login_def zero_request_def sample_browser_def sample_params_web_def sample_auth_request_def)

lemma callback_session:
  assumes "validate_callback E q w = (Inr resp, a, w')" and "create_web_session (ar_req resp)"
  shows "\<exists>s. ar_session resp = Some s"
proof -
  from validate_callback_ok [OF assms(1)] obtain req a0 w1 st a1 w2 vt u p w3
    where c: "configure_login E (q_get q ''state'') req a0 w1 = (Inr st, a1, w2)"
      and f: "finish_login E req st vt u p w3 = (Inr resp, w')"
    by (rule callback_ok)
  from finish_login_ok [OF f get_connector_ok(2) [OF configure_login_ok(1) [OF c]]]
  obtain us where r: "make_auth_response E req us (ic_subject (vt_claims vt)) (up_session_ttl p) w3 = (Inr resp, w')" .
  have "create_web_session req" using assms(2) make_auth_response_ok(1) [OF r] by simp
  with r show ?thesis
    by (cases "le_web_session E \<lparr>sg_user = ust_name us, sg_roles = ust_roles us, sg_ttl = up_session_ttl p, sg_web = True\<rparr>")
      (auto simp: make_auth_response_def Let_def split: sum.split_asm if_split_asm)
qed

lemma sample_local: "origin_local_redirect_uri ascii_tables ''/web'' = Inr ''/web''"
  by code_simp

lemma sample_browser_done:
  "\<exists>s w. web_callback sample_env sample_web answer_browser sample_world = ((DestText ''/web'', [(ar_username sample_response, s)]), w)"
proof -
  obtain s where s: "ar_session sample_response = Some s"
    using callback_session [OF sample_succeeds] by (auto simp: sample_response_request)
  have "client_redirect_url sample_auth_request = ''/web''" by (simp add: sample_auth_request_def)
  then have "finish_callback ascii_tables sample_web answer_browser sample_response = (DestText ''/web'', [(ar_username sample_response, s)])"
    using s sample_tokens(2) sample_local
    by (simp add: finish_callback_def sample_response_request sso_set_web_session_and_redirect_url_def sample_web_def)
  then show ?thesis
    by (simp add: web_callback_def validate_oidc_auth_callback_def sample_answer_query sample_succeeds split: prod.split)
      (simp add: sample_web_def)
qed

theorem login_csrf_protected_witness:
  "\<exists>c c' token. hr_csrf_cookie sample_browser = Some c \<and> hr_csrf_cookie answer_browser = Some c'
     \<and> csrf_decode c = Inr token \<and> csrf_decode c' = Inr token \<and> length token = 32"
proof -
  have m: "mem_auth (lw_mem sample_start)" by (simp add: sample_start_def)
  note started = sample_create_from [of "[]" "[]", folded sample_browser_request]
  have run: "mem_run (login_keys (sec_state sample_secrets)) (\<lambda>_. False) (le_t_claim (sample_env\<lparr>le_t_claim := 0\<rparr>))
      (lw_mem sample_world) (le_t_lookup sample_env) (lw_mem sample_world)"
    by (rule mem_run.wait) (simp add: second_def)
  obtain d cs w where answer: "web_callback sample_env sample_web answer_browser sample_world = ((d, cs), w)" "cs \<noteq> []"
    using sample_browser_done by blast
  from login_csrf_protected [OF m sample_browser_params started _ run _ _ _ answer] show ?thesis
    by (simp add: login_codec_def second_def sample_answer_query sample_query_def q_get_def sample_secrets_def) blast
qed

definition sample_console :: console_req where
  "sample_console = \<lparr>cq_redirect_url = sample_redirect_url, cq_ssh_pub_key = ''ssh-key'', cq_tls_pub_key = [],
     cq_cert_ttl = 3600 * second, cq_connector_id = ''google'', cq_compatibility = [], cq_scope = [],
     cq_route_to_cluster = [], cq_kubernetes_cluster = []\<rparr>"

definition sample_console_request :: oidc_auth_request where
  "sample_console_request = (auth_request_for_console_login sample_browser sample_console ''10.0.0.1'')
     \<lparr>pkce_verifier := ''v'', state_token := ''t''\<rparr>"

definition console_codec :: codec where
  "console_codec = login_codec\<lparr>unmarshal_request := (\<lambda>_. Inr sample_console_request)\<rparr>"

definition console_env :: login_env where
  "console_env = sample_env\<lparr>le_codec := console_codec\<rparr>"

lemma console_env_fields [simp]:
  "le_codec console_env = console_codec" "le_lib console_env = ascii_tables" "le_sha256 console_env = (\<lambda>s. s)"
  "le_ttl console_env = 600 * second" "le_revision console_env = ''r''" "le_t_lookup console_env = second"
  "le_t_claim console_env = second" "le_t_nonce console_env = second" "le_in_cidr console_env = (\<lambda>_ _. False)"
  "le_discover console_env = le_discover sample_env" "marshal_request console_codec = (\<lambda>_. ''{}'')"
  "unmarshal_request console_codec = (\<lambda>_. Inr sample_console_request)" "ssh_key_ok console_codec = (\<lambda>_. True)"
  "le_auth_code_url console_env = (\<lambda>_ _ _. [])"
  by (simp_all add: console_env_def sample_env_def console_codec_def login_codec_def)

lemma console_request_fields [simp]:
  "state_token sample_console_request = ''t''" "pkce_verifier sample_console_request = ''v''"
  "connector_id sample_console_request = ''google''" "\<not> sso_test_flow sample_console_request"
  "\<not> create_web_session sample_console_request" "ssh_public_key sample_console_request = ''ssh-key''"
  "proxy_address sample_console_request = ''tp.ex.com''" "client_redirect_url sample_console_request = sample_redirect_url"
  "validate_auth_request_mode sample_console_request = None" "check_auth_request (\<lambda>_. True) sample_console_request = None"
  "sample_console_request\<lparr>redirect_url := []\<rparr> = sample_console_request"
  by (simp_all add: sample_console_request_def auth_request_for_console_login_def zero_request_def sample_console_def
      sample_browser_def validate_auth_request_mode_def check_auth_request_def min_cert_duration_def max_cert_duration_def second_def)

lemma google_connector: "lw_connectors w = [''google'' \<mapsto> sample_connector] \<Longrightarrow> connector_id req = ''google'' \<Longrightarrow> \<not> sso_test_flow req
    \<Longrightarrow> get_connector ascii_tables req w = Inr sample_connector"
  using sample_connector_found [of w] by (simp add: get_connector_def)

lemma console_prepare:
  "prepare_request (console_env\<lparr>le_t_claim := 0\<rparr>) (Inr sample_secrets)
     (auth_request_for_console_login sample_browser sample_console ''10.0.0.1'') sample_start = Inr (sample_console_request, ''n'')"
proof -
  let ?req = "auth_request_for_console_login sample_browser sample_console ''10.0.0.1''"
  obtain c where c: "new_oauth2_config (le_discover sample_env) sample_connector
      ''HTTPS://tp.ex.com:443/v1/webapi/oidc/callback'' = Inr c" using sample_config by auto
  have a: "clean_user_agent ?req = ?req" "validate_auth_request_mode ?req = None" "\<not> create_web_session ?req" "\<not> sso_test_flow ?req"
    "client_redirect_url ?req = sample_redirect_url" "connector_id ?req = ''google''"
    by (simp_all add: clean_user_agent_def auth_request_for_console_login_def zero_request_def sample_console_def
      sample_browser_def valid_utf8_def validate_auth_request_mode_def max_audit_user_agent_bytes_def)
  have "client_redirect_settings (con_spec sample_connector) = None" by (simp add: sample_connector_def sample_spec_def)
  moreover have "get_connector ascii_tables ?req sample_start = Inr sample_connector"
    by (rule google_connector) (simp_all add: a sample_start_def)
  ultimately show ?thesis using c a sample_domains sample_callback_url sample_redirect_ok
    by (simp add: prepare_request_def sample_secrets_def sample_console_request_def [symmetric])
qed

lemma console_create:
  "create_auth_request (console_env\<lparr>le_t_claim := 0\<rparr>) (Inr sample_secrets)
     (auth_request_for_console_login sample_browser sample_console ''10.0.0.1'') sample_start = (Inr sample_console_request, sample_world)"
proof -
  have "create_auth_request_item mem_create console_codec (600 * second) 0 ''r'' sample_console_request sample_nonce_mem = (Inr (), sample_mem)"
    using sample_request_put
    by (simp add: create_auth_request_item_def login_codec_def split: option.split_asm)
  moreover have "lw_mem sample_start = new_memory" by (simp add: sample_start_def)
  ultimately show ?thesis unfolding create_auth_request_def console_prepare
    by (simp add: sample_nonce_put sample_world_def)
qed

lemma console_lookup: "get_auth_request_item mem_get console_codec second ''t'' sample_mem = (Inr sample_console_request, sample_mem)"
  using sample_lookup_request by (auto simp: get_auth_request_item_def split: prod.split_asm sum.split_asm)

lemma verify_token_codec: "verify_token (E\<lparr>le_codec := C\<rparr>) code req st = verify_token E code req st"
  by (simp add: verify_token_def Let_def cong: option.case_cong sum.case_cong if_cong)

lemma console_succeeds:
  "\<exists>resp a w. validate_callback console_env sample_query sample_world = (Inr resp, a, w)"
proof -
  let ?w = "sample_start\<lparr>lw_mem := sample_claimed\<rparr>"
  let ?req = sample_console_request
  have b: "begin_callback console_env sample_query sample_world = (Inr ?req, set_request ?req new_callback_audit, ?w)"
    by (simp add: begin_callback_def claim_request_def sample_query_def q_get_def sample_world_def console_lookup sample_claims_state)
  obtain c where c: "new_oauth2_config (le_discover sample_env) sample_connector
      ''HTTPS://tp.ex.com:443/v1/webapi/oidc/callback'' = Inr c" using sample_config by blast
  have "get_connector ascii_tables ?req ?w = Inr sample_connector"
    by (rule google_connector) (simp_all add: sample_start_def)
  with c obtain st a where st: "configure_login console_env ''t'' ?req (set_request ?req new_callback_audit) ?w = (Inr st, a, ?w)"
    "st_connector st = sample_connector" "st_domains st = [''ex.com'', ''b.org'']" "gs_enabled (st_groups st)"
    by (simp add: configure_login_def sample_domains sample_group sample_reads_nonce sample_callback_url)
  have v: "verify_token console_env code ?req st = Inr sample_verified" for code
    using sample_verifies [OF st(2,3)] by (simp add: console_env_def verify_token_codec)
  have "lw_users ?w = []" by (simp add: sample_start_def)
  from sample_logs_in [OF st(2,4) this console_request_fields(4), of console_codec] obtain u p a' w' where
    l: "login_user console_env ?req st sample_verified a ?w = (Inr (u, p), a', w')"
    unfolding console_env_def by blast
  have e: "le_login_hooks console_env = (\<lambda>_. None)" "le_session_certs console_env = (\<lambda>_. Inr (''ssh'', ''tls''))"
    "le_user_state console_env = (\<lambda>n. Inr \<lparr>ust_name = n, ust_roles = [''dev''], ust_traits = sample_traits\<rparr>)"
    "le_cluster_name console_env = Inr ''c''" "le_host_ca console_env = (\<lambda>_. Inr ''ca'')"
    by (simp_all add: console_env_def sample_env_def)
  have "\<exists>resp w''. finish_login console_env ?req st sample_verified u p w' = (Inr resp, w'')"
    by (simp add: finish_login_def make_auth_response_def e Let_def)
  moreover have "q_get sample_query ''state'' = ''t''" by (simp add: sample_query_def q_get_def)
  ultimately show ?thesis using b st(1) v l by (auto simp: validate_callback_def callback_steps_def)
qed

lemma sample_key_parsed: "secret_parse_key sample_key_text = Inr (replicate 32 (CHR ''r''))"
  by code_simp

lemma sample_seal:
  "sample_key_text \<noteq> []" "secret_parse_key sample_key_text = Inr (replicate 32 (CHR ''r''))"
  "secret_seal toy_aead toy_random (replicate 32 (CHR ''r'')) p =
     Inr (ae_marshal toy_aead \<lparr>sd_ciphertext = ae_seal toy_aead (replicate 32 (CHR ''r'')) (replicate 12 (CHR ''r'')) p,
       sd_nonce = replicate 12 (CHR ''r'')\<rparr>)"
  by (simp add: sample_key_text_def, simp add: sample_key_parsed,
      simp add: secret_seal_def new_cipher_def toy_random_def nonce_size_def)

lemma sample_redirect_parts:
  "map_option (\<lambda>u. (url_path u, q_get (url_query (url_raw_query u)) ''secret_key'')) (url_parse ascii_tables sample_redirect_url) =
     Some (''/callback'', sample_key_text)"
  by code_simp

lemma console_done:
  "\<exists>u w. web_callback console_env sample_web answer_browser sample_world = ((DestURL u, []), w)"
proof -
  obtain resp a w where v: "validate_callback console_env sample_query sample_world = (Inr resp, a, w)"
    using console_succeeds by blast
  have r: "ar_req resp = sample_console_request"
    using callback_request [OF v] by (simp add: sample_query_def q_get_def sample_world_def console_lookup)
  from sample_redirect_parts obtain u where "url_parse ascii_tables sample_redirect_url = Some u" "url_path u = ''/callback''"
    "q_get (url_query (url_raw_query u)) ''secret_key'' = sample_key_text" by auto
  then have "\<exists>u'. finish_callback ascii_tables sample_web answer_browser resp = (DestURL u', [])"
    by (simp add: finish_callback_def r construct_ssh_response_def sample_web_def web_mfa_redirect_def sample_seal)
  then show ?thesis
    by (auto simp: web_callback_def validate_oidc_auth_callback_def sample_answer_query v) (simp add: sample_web_def)
qed

theorem console_answer_sealed_for_client_witness:
  "\<exists>u' w3 u c. web_callback console_env sample_web answer_browser sample_world = ((DestURL u', []), w3)
     \<and> url_parse ascii_tables sample_redirect_url = Some u \<and> secret_seal toy_aead toy_random (replicate 32 (CHR ''r'')) ''{}'' = Inr c
     \<and> u' = u\<lparr>url_raw_query := values_encode [(''response'', c)]\<rparr>"
proof -
  have m: "mem_auth (lw_mem sample_start)" by (simp add: sample_start_def)
  have ok: "check_console_req sample_console = None"
    by (simp add: check_console_req_def check_public_keys_def sample_console_def sample_redirect_url_def)
  have run: "mem_run (login_keys (sec_state sample_secrets)) (\<lambda>_. False) (le_t_claim (console_env\<lparr>le_t_claim := 0\<rparr>))
      (lw_mem sample_world) (le_t_lookup console_env) (lw_mem sample_world)"
    by (rule mem_run.wait) (simp add: second_def)
  obtain u' w3 where d: "web_callback console_env sample_web answer_browser sample_world = ((DestURL u', []), w3)"
    using console_done by blast
  have r: "cq_redirect_url sample_console = sample_redirect_url" by (simp add: sample_console_def)
  from console_answer_sealed_for_client [OF m ok console_create _ run _ _ _ _ d] obtain u key c
    where "url_parse ascii_tables sample_redirect_url = Some u" "secret_parse_key (q_get (url_query (url_raw_query u)) ''secret_key'') = Inr key"
      "secret_seal toy_aead toy_random key ''{}'' = Inr c" "u' = u\<lparr>url_raw_query := values_encode [(''response'', c)]\<rparr>"
    by (auto simp: second_def sample_answer_query sample_query_def q_get_def sample_secrets_def r sample_web_def)
  moreover from this(1) sample_redirect_parts have "q_get (url_query (url_raw_query u)) ''secret_key'' = sample_key_text" by simp
  then have "secret_parse_key (q_get (url_query (url_raw_query u)) ''secret_key'') = Inr (replicate 32 (CHR ''r''))"
    by (simp add: sample_key_parsed)
  ultimately show ?thesis using d by auto
qed

end
