(* ===== verification/RolesServer.thy ===== *)
theory RolesServer
  imports AccessRules Activation ConnectorStore WebLogin
begin

text \<open>
  Who may do what with OIDC: the connector and login operations of \<^verbatim>\<open>lib/auth/auth_with_roles.go\<close>, which every
  request from outside the Auth Service passes, over the access rules of \<open>AccessRules\<close>, the admin action check of
  \<^verbatim>\<open>lib/authz/permissions.go\<close> and the entitlement of the auth server.

  An operation is its checks, in the order of the code, and then the operation of the Auth Service.
\<close>

section \<open>The caller (lib/authz/permissions.go)\<close>

datatype admin_action_state = AdminUnauthorized | AdminNotRequired | AdminMFAVerified | AdminMFAVerifiedWithReuse

record auth_context =
  cx_checker :: checker
  cx_rules :: rule_env
  cx_builtin :: bool
  cx_admin :: admin_action_state

definition err_admin_action_mfa_required :: err where
  "err_admin_action_mfa_required = Err AccessDenied ''admin-level API request requires MFA verification''"

definition authorize_admin_action :: "auth_context \<Rightarrow> err option" where
  "authorize_admin_action C =
     (if cx_admin C = AdminMFAVerified \<or> cx_admin C = AdminNotRequired then None else Some err_admin_action_mfa_required)"

definition authorize_admin_action_allow_reused_mfa :: "auth_context \<Rightarrow> err option" where
  "authorize_admin_action_allow_reused_mfa C =
     (if cx_admin C = AdminMFAVerifiedWithReuse then None else authorize_admin_action C)"

definition has_builtin_role :: "auth_context \<Rightarrow> string \<Rightarrow> bool" where
  "has_builtin_role C name \<longleftrightarrow> cx_builtin C \<and> has_role (cx_checker C) name"

definition role_proxy :: string where "role_proxy = ''Proxy''"

section \<open>Checks (auth_with_roles.go)\<close>

record roles_server =
  rs_context :: auth_context
  rs_server :: auth_server
  rs_heap :: ent_heap

definition check_access :: "auth_context \<Rightarrow> string \<Rightarrow> string \<Rightarrow> access" where
  "check_access C resource verb = check_access_to_rule (cx_rules C) (cx_checker C) api_namespace resource verb"

definition denial :: "access \<Rightarrow> err option" where
  "denial a = (case a of Granted \<Rightarrow> None | Denied _ e \<Rightarrow> Some e)"

definition authorize_action :: "auth_context \<Rightarrow> string \<Rightarrow> string \<Rightarrow> err option" where
  "authorize_action C resource verb = denial (check_access C resource verb)"

definition auth_connector_action :: "auth_context \<Rightarrow> string \<Rightarrow> string \<Rightarrow> err option" where
  "auth_connector_action C resource verb =
     (case check_access C resource verb of
        Granted \<Rightarrow> None
      | Denied _ _ \<Rightarrow> denial (check_access C kind_auth_connector verb))"

definition entitlement_gate :: "roles_server \<Rightarrow> err option" where
  "entitlement_gate A =
     (if oidc_entitled (rs_server A) (rs_heap A) then None
      else Some (Err AccessDenied ''OIDC is only available in Teleport Enterprise''))"

fun first_err :: "err option list \<Rightarrow> err option" where
  "first_err [] = None"
| "first_err (c # cs) = (case c of Some e \<Rightarrow> Some e | None \<Rightarrow> first_err cs)"

lemma first_err_None: "first_err cs = None \<longleftrightarrow> (\<forall>c \<in> set cs. c = None)"
  by (induction cs) (auto split: option.split)

section \<open>Connectors\<close>

abbreviation connector_verb :: "roles_server \<Rightarrow> string \<Rightarrow> err option" where
  "connector_verb A verb \<equiv> auth_connector_action (rs_context A) kind_oidc verb"

abbreviation admin_reuse :: "roles_server \<Rightarrow> err option" where
  "admin_reuse A \<equiv> authorize_admin_action_allow_reused_mfa (rs_context A)"

definition roles_upsert_connector ::
  "roles_server \<Rightarrow> 'm creator \<Rightarrow> golib \<Rightarrow> connector_codec \<Rightarrow> int \<Rightarrow> string \<Rightarrow> connector_resource \<Rightarrow> 'm
    \<Rightarrow> connector_resource result \<times> connector_event list \<times> 'm" where
  "roles_upsert_connector A put U K now rv r m =
     (case first_err [connector_verb A verb_create, connector_verb A verb_update, entitlement_gate A, admin_reuse A] of
        Some e \<Rightarrow> (Inl e, [], m)
      | None \<Rightarrow> server_upsert_connector put U K now rv r m)"

definition roles_update_connector ::
  "roles_server \<Rightarrow> 'm creator \<Rightarrow> golib \<Rightarrow> connector_codec \<Rightarrow> int \<Rightarrow> string \<Rightarrow> connector_resource \<Rightarrow> 'm
    \<Rightarrow> connector_resource result \<times> connector_event list \<times> 'm" where
  "roles_update_connector A update U K now rv r m =
     (case first_err [connector_verb A verb_update, entitlement_gate A, admin_reuse A] of
        Some e \<Rightarrow> (Inl e, [], m)
      | None \<Rightarrow> server_update_connector update U K now rv r m)"

definition roles_create_connector ::
  "roles_server \<Rightarrow> 'm creator \<Rightarrow> golib \<Rightarrow> connector_codec \<Rightarrow> int \<Rightarrow> string \<Rightarrow> connector_resource \<Rightarrow> 'm
    \<Rightarrow> connector_resource result \<times> connector_event list \<times> 'm" where
  "roles_create_connector A create U K now rv r m =
     (case first_err [connector_verb A verb_create, entitlement_gate A, admin_reuse A] of
        Some e \<Rightarrow> (Inl e, [], m)
      | None \<Rightarrow> server_create_connector create U K now rv r m)"

definition roles_delete_connector ::
  "roles_server \<Rightarrow> 'm deleter \<Rightarrow> int \<Rightarrow> string \<Rightarrow> 'm \<Rightarrow> unit result \<times> connector_event list \<times> 'm" where
  "roles_delete_connector A delete now name m =
     (case first_err [connector_verb A verb_delete, admin_reuse A] of
        Some e \<Rightarrow> (Inl e, [], m)
      | None \<Rightarrow> server_delete_connector delete now name m)"

text \<open>The checks of a read that asks for secrets.\<close>

definition secrets_checks :: "roles_server \<Rightarrow> bool \<Rightarrow> err option list" where
  "secrets_checks A with_secrets = (if with_secrets then [connector_verb A verb_read, admin_reuse A] else [])"

definition roles_get_connector ::
  "roles_server \<Rightarrow> 'm getter \<Rightarrow> golib \<Rightarrow> connector_codec \<Rightarrow> int \<Rightarrow> string \<Rightarrow> bool \<Rightarrow> 'm \<Rightarrow> connector_resource result \<times> 'm" where
  "roles_get_connector A get U K now name with_secrets m =
     (case first_err (connector_verb A verb_read_no_secrets # secrets_checks A with_secrets) of
        Some e \<Rightarrow> (Inl e, m)
      | None \<Rightarrow> get_stored_connector get U K now name with_secrets m)"

definition roles_get_connectors ::
  "roles_server \<Rightarrow> (items_params \<Rightarrow> item list result) \<Rightarrow> golib \<Rightarrow> connector_codec \<Rightarrow> bool \<Rightarrow> connector_resource list result" where
  "roles_get_connectors A items U K with_secrets =
     (case first_err ([connector_verb A verb_list, connector_verb A verb_read_no_secrets] @ secrets_checks A with_secrets) of
        Some e \<Rightarrow> Inl e
      | None \<Rightarrow> get_oidc_connectors items U K with_secrets)"

definition roles_list_connectors ::
  "roles_server \<Rightarrow> (items_params \<Rightarrow> item list result) \<Rightarrow> golib \<Rightarrow> connector_codec \<Rightarrow> int \<Rightarrow> string \<Rightarrow> bool
    \<Rightarrow> (connector_resource list \<times> string) result" where
  "roles_list_connectors A items U K limit start with_secrets =
     (case first_err ([connector_verb A verb_list, connector_verb A verb_read_no_secrets] @ secrets_checks A with_secrets) of
        Some e \<Rightarrow> Inl e
      | None \<Rightarrow> list_oidc_connectors items U K limit start with_secrets)"

section \<open>Logins\<close>

definition only_proxy :: err where
  "only_proxy = Err AccessDenied ''this request can be only executed by a proxy''"

text \<open>The event that a refused auth request leaves; it names nothing but the outcome.\<close>

definition sso_login_failure_event :: "bool \<Rightarrow> login_event" where
  "sso_login_failure_event test_flow =
     \<lparr>ev_code = (if test_flow then CodeTestFailure else CodeLoginFailure), ev_success = False, ev_user = [], ev_class = None,
      ev_connector = [], ev_remote_addr = [], ev_user_agent = [], ev_source = SourceNone, ev_test_flow = False,
      ev_warnings = 0, ev_groups = None, ev_rules = []\<rparr>"

definition oidc_operation :: "roles_server \<Rightarrow> 'a \<Rightarrow> 'a option" where
  "oidc_operation A op = (case sv_oidc_service (rs_server A) of None \<Rightarrow> None | Some _ \<Rightarrow> Some op)"

definition roles_create_auth_request ::
  "roles_server \<Rightarrow> login_env \<Rightarrow> request_secrets result \<Rightarrow> oidc_auth_request \<Rightarrow> world \<Rightarrow> oidc_auth_request result \<times> world" where
  "roles_create_auth_request A E secrets req w =
     (case first_err [entitlement_gate A, authorize_action (rs_context A) kind_oidc_request verb_create,
             authorize_admin_action (rs_context A),
             (if sso_test_flow req then connector_verb A verb_create else None),
             (if create_web_session req \<and> \<not> has_builtin_role (rs_context A) role_proxy then Some only_proxy else None)] of
        Some e \<Rightarrow> (Inl e, w)
      | None \<Rightarrow>
          (case delegate (oidc_operation A (create_auth_request E secrets)) req w of
             (Inl e, w') \<Rightarrow>
               (Inl e, if err_kind e = NotFound then w'
                       else w'\<lparr>lw_audit := lw_audit w' @ [sso_login_failure_event (sso_test_flow req)]\<rparr>)
           | (Inr r, w') \<Rightarrow> (Inr r, w')))"

definition roles_get_auth_request ::
  "roles_server \<Rightarrow> 'm getter \<Rightarrow> codec \<Rightarrow> int \<Rightarrow> string \<Rightarrow> 'm \<Rightarrow> oidc_auth_request result \<times> 'm" where
  "roles_get_auth_request A get C now token m =
     (case authorize_action (rs_context A) kind_oidc_request verb_read of
        Some e \<Rightarrow> (Inl e, m)
      | None \<Rightarrow> get_auth_request_item get C now token m)"

definition roles_validate_callback ::
  "roles_server \<Rightarrow> login_env \<Rightarrow> query \<Rightarrow> world \<Rightarrow> auth_response result \<times> world" where
  "roles_validate_callback A E q w =
     (case delegate (oidc_operation A (validate_oidc_auth_callback E)) q w of
        (Inl e, w') \<Rightarrow> (Inl e, w')
      | (Inr resp, w') \<Rightarrow>
          if ar_session resp \<noteq> None \<and> \<not> has_builtin_role (rs_context A) role_proxy then (Inl only_proxy, w')
          else (Inr resp, w'))"

section \<open>Connector changes are authorised\<close>

text \<open>A change to the connectors, as a caller asks for it.\<close>

datatype connector_op = UpsertOp connector_resource | UpdateOp connector_resource | CreateOp connector_resource | DeleteOp string

fun needed_verbs :: "connector_op \<Rightarrow> string list" where
  "needed_verbs (UpsertOp _) = [verb_create, verb_update]"
| "needed_verbs (UpdateOp _) = [verb_update]"
| "needed_verbs (CreateOp _) = [verb_create]"
| "needed_verbs (DeleteOp _) = [verb_delete]"

fun roles_change ::
  "roles_server \<Rightarrow> golib \<Rightarrow> connector_codec \<Rightarrow> int \<Rightarrow> string \<Rightarrow> connector_op \<Rightarrow> memory \<Rightarrow> bool \<times> connector_event list \<times> memory" where
  "roles_change A U K now rv (UpsertOp r) m =
     (case roles_upsert_connector A mem_put U K now rv r m of (q, evs, m') \<Rightarrow> (\<not> is_err q, evs, m'))"
| "roles_change A U K now rv (UpdateOp r) m =
     (case roles_update_connector A mem_conditional_update U K now rv r m of (q, evs, m') \<Rightarrow> (\<not> is_err q, evs, m'))"
| "roles_change A U K now rv (CreateOp r) m =
     (case roles_create_connector A mem_create U K now rv r m of (q, evs, m') \<Rightarrow> (\<not> is_err q, evs, m'))"
| "roles_change A U K now rv (DeleteOp name) m =
     (case roles_delete_connector A mem_delete now name m of (q, evs, m') \<Rightarrow> (\<not> is_err q, evs, m'))"

lemmas roles_connector_defs = roles_upsert_connector_def roles_update_connector_def roles_create_connector_def
  roles_delete_connector_def

lemma auth_connector_action_None:
  "auth_connector_action C resource verb = None \<longleftrightarrow>
     check_access C resource verb = Granted \<or> check_access C kind_auth_connector verb = Granted"
  by (auto simp: auth_connector_action_def denial_def split: access.split)

lemma admin_reuse_None: "admin_reuse A = None \<longleftrightarrow> cx_admin (rs_context A) \<noteq> AdminUnauthorized"
  by (cases "cx_admin (rs_context A)") (simp_all add: authorize_admin_action_allow_reused_mfa_def authorize_admin_action_def)

text \<open>What a change needs of the caller and of the server.\<close>

definition may_change :: "roles_server \<Rightarrow> connector_op \<Rightarrow> bool" where
  "may_change A op \<longleftrightarrow> (\<forall>verb \<in> set (needed_verbs op). check_access (rs_context A) ''oidc'' verb = Granted
      \<or> check_access (rs_context A) ''auth_connector'' verb = Granted)
    \<and> cx_admin (rs_context A) \<noteq> AdminUnauthorized
    \<and> ((\<exists>name. op = DeleteOp name) \<or> oidc_entitled (rs_server A) (rs_heap A))"

lemma roles_change_cases:
  assumes "roles_change A U K now rv op m = (ok, evs, m')"
  obtains (refused) "\<not> ok" "evs = []" "m' = m" | (allowed) "may_change A op" "connector_step U K m m'"
  using assms
  by (cases op)
    (auto simp: roles_connector_defs may_change_def auth_connector_action_None admin_reuse_None entitlement_gate_def
      kind_oidc_def [symmetric] kind_auth_connector_def [symmetric]
      split: option.split_asm if_split_asm prod.split_asm dest: connector_step.intros)


section \<open>Secrets\<close>

definition has_secrets :: "connector_resource \<Rightarrow> bool" where
  "has_secrets r \<longleftrightarrow> client_secret (con_spec (cr_connector r)) \<noteq> [] \<or> google_service_account (con_spec (cr_connector r)) \<noteq> []"

lemma decoded_without_secrets: "decode_item U K False x = Inr r \<Longrightarrow> \<not> has_secrets r"
  by (auto simp: decode_item_def strip_secrets_def has_secrets_def split: sum.split_asm)

lemma ranged_without_secrets:
  "range_oidc_connectors items U K start stop False = Inr rs \<Longrightarrow> r \<in> set rs \<Longrightarrow> \<not> has_secrets r"
  by (auto simp: range_oidc_connectors_def stream_take_while_def stream_filter_map_def ok_value_def map_filter_def
      split: sum.split_asm dest!: set_takeWhileD decoded_without_secrets)

text \<open>
  Property C18: the client secret of a connector is only shown to a caller that may read connectors, and not only
  list them, and has passed the MFA check for admin actions or needs none: by the read of one connector, of
  all connectors and of a page.
\<close>

theorem secrets_need_read_and_mfa:
  assumes "roles_get_connector A get U K now name ws m = (Inr r, m')
      \<or> (\<exists>rs. roles_get_connectors A items U K ws = Inr rs \<and> r \<in> set rs)
      \<or> (\<exists>rs cursor. roles_list_connectors A items U K limit start ws = Inr (rs, cursor) \<and> r \<in> set rs)"
    and "has_secrets r"
  shows "(check_access (rs_context A) ''oidc'' ''read'' = Granted \<or> check_access (rs_context A) ''auth_connector'' ''read'' = Granted)
    \<and> cx_admin (rs_context A) \<noteq> AdminUnauthorized"
proof -
  have ws
  proof (rule ccontr)
    assume "\<not> ws"
    with assms(1) consider "get_stored_connector get U K now name False m = (Inr r, m')"
      | rs where "get_oidc_connectors items U K False = Inr rs" "r \<in> set rs"
      | rs cursor where "list_oidc_connectors items U K limit start False = Inr (rs, cursor)" "r \<in> set rs"
      by (auto simp: roles_get_connector_def roles_get_connectors_def roles_list_connectors_def split: option.split_asm)
    then have "\<not> has_secrets r"
    proof cases
      case 1
      then show ?thesis
        by (auto simp: get_stored_connector_def split: if_split_asm prod.split_asm sum.split_asm dest: decoded_without_secrets)
    next
      case 2
      then show ?thesis by (auto simp: get_oidc_connectors_def dest: ranged_without_secrets)
    next
      case 3
      then obtain xs where "range_oidc_connectors items U K start [] False = Inr xs" "r \<in> set xs"
        by (auto simp: list_oidc_connectors_def collect_page_and_cursor_def Let_def split: sum.split_asm dest: in_set_takeD)
      then show ?thesis by (rule ranged_without_secrets)
    qed
    with assms(2) show False by simp
  qed
  with assms(1) have "\<forall>c \<in> set (secrets_checks A True). c = None"
    by (auto simp: roles_get_connector_def roles_get_connectors_def roles_list_connectors_def first_err_None
        split: option.split_asm)
  then show ?thesis
    by (simp add: secrets_checks_def auth_connector_action_None admin_reuse_None kind_oidc_def kind_auth_connector_def verb_read_def)
qed

section \<open>Web sessions\<close>

text \<open>
  Web sessions are for proxies. A callback hands out a web session only to a caller with the
  builtin role Proxy, and an auth request that asks for one is only accepted from such a caller; an accepted
  auth request needs the entitlement, the right to create OIDC requests and the check for admin actions
  without reuse of an MFA answer.
\<close>

theorem web_sessions_only_for_proxies:
  assumes "fst (roles_validate_callback A E q w) = Inr resp \<and> ar_session resp \<noteq> None
    \<or> fst (roles_create_auth_request A E secrets req w) = Inr req' \<and> create_web_session req"
  shows "cx_builtin (rs_context A) \<and> ''Proxy'' \<in> rl_name ` set (ck_roles (cx_checker (rs_context A)))
    \<and> (fst (roles_create_auth_request A E secrets req w) = Inr req' \<longrightarrow>
        oidc_entitled (rs_server A) (rs_heap A) \<and> check_access (rs_context A) ''oidc_request'' ''create'' = Granted
        \<and> cx_admin (rs_context A) \<in> {AdminNotRequired, AdminMFAVerified})"
proof -
  have gates: "oidc_entitled (rs_server A) (rs_heap A) \<and> check_access (rs_context A) ''oidc_request'' ''create'' = Granted
      \<and> cx_admin (rs_context A) \<in> {AdminNotRequired, AdminMFAVerified}
      \<and> (create_web_session req \<longrightarrow> has_builtin_role (rs_context A) role_proxy)"
    if "fst (roles_create_auth_request A E secrets req w) = Inr req'"
  proof -
    from that have "first_err [entitlement_gate A, authorize_action (rs_context A) kind_oidc_request verb_create,
             authorize_admin_action (rs_context A), (if sso_test_flow req then connector_verb A verb_create else None),
             (if create_web_session req \<and> \<not> has_builtin_role (rs_context A) role_proxy then Some only_proxy else None)] = None"
      by (auto simp: roles_create_auth_request_def split: option.split_asm)
    then show ?thesis unfolding first_err_None
      by (auto simp: entitlement_gate_def authorize_action_def denial_def authorize_admin_action_def
          kind_oidc_request_def verb_create_def split: if_split_asm access.split_asm)
  qed
  moreover have "has_builtin_role (rs_context A) role_proxy"
    if "fst (roles_validate_callback A E q w) = Inr resp" "ar_session resp \<noteq> None"
    using that by (auto simp: roles_validate_callback_def split: prod.split_asm sum.split_asm if_split_asm)
  ultimately show ?thesis using assms by (auto simp: has_builtin_role_def has_role_def role_proxy_def)
qed

lemma callback_grants:
  assumes "validate_callback E q w = (Inr resp, a, w')" and "create_web_session (ar_req resp)"
  shows "\<exists>g gs. lw_grants w' = lw_grants w @ g # gs \<and> sg_web g \<and> sg_user g = ar_username resp"
proof -
  from validate_callback_ok [OF assms(1)] obtain req a0 w1 st a1 w2 vt u p w3
    where b: "begin_callback E q w = (Inr req, a0, w1)"
      and c: "configure_login E (q_get q ''state'') req a0 w1 = (Inr st, a1, w2)"
      and l: "login_user E req st vt a1 w2 = (Inr (u, p), a, w3)"
      and f: "finish_login E req st vt u p w3 = (Inr resp, w')"
    by (rule callback_ok)
  from finish_login_ok [OF f get_connector_ok(2) [OF configure_login_ok(1) [OF c]]] obtain us where
    "make_auth_response E req us (ic_subject (vt_claims vt)) (up_session_ttl p) w3 = (Inr resp, w')" by blast
  from make_auth_response_ok [OF this] show ?thesis
    using assms(2) user_world(2) [OF l] configured_world(3) [OF c] claimed_world(3) [OF b] by (simp add: Let_def)
qed

text \<open>
  Property C39: a refused callback is not without effect. The check for a proxy comes after the callback: another
  caller who presents the answer of a browser login gets an error and no session, but the login is spent and
  a web session for its user has been issued.
\<close>

theorem refused_callback_issues_session:
  assumes "sv_oidc_service (rs_server A) \<noteq> None" and "\<not> has_builtin_role (rs_context A) role_proxy"
    and "validate_callback E q w = (Inr resp, a, w1)" and "create_web_session (ar_req resp)"
  shows "\<exists>w' g gs. roles_validate_callback A E q w = (Inl only_proxy, w')
    \<and> lw_grants w' = lw_grants w @ g # gs \<and> sg_web g \<and> sg_user g = ar_username resp
    \<and> lw_users w' = lw_users w1 \<and> lw_mem w' = lw_mem w1"
proof -
  obtain s where "ar_session resp = Some s" using callback_session [OF assms(3,4)] by blast
  moreover obtain op where "sv_oidc_service (rs_server A) = Some op" using assms(1) by blast
  ultimately show ?thesis using callback_grants [OF assms(3,4)] assms(2,3)
    by (auto simp: roles_validate_callback_def oidc_operation_def delegate_def validate_oidc_auth_callback_def Let_def)
qed

section \<open>Deny rules on OIDC connectors\<close>

lemma match_roles_append:
  "match_roles E v ns rules namespace resource verb (xs @ ys) =
     (case match_roles E v ns rules namespace resource verb xs of
        Inl e \<Rightarrow> Inl e
      | Inr b \<Rightarrow> if b then Inr True else match_roles E v ns rules namespace resource verb ys)"
  by (induction xs) (auto split: sum.split)

lemma match_roles_unnamed:
  assumes "rule_sorter (re_sort E)" and "\<forall>r \<in> set (rules role). \<not> names_resource resource r"
  shows "match_roles E v ns rules namespace resource verb [role] = Inr False"
proof -
  have "set (make_rule_set E (rules role) resource) = {}" "set (make_rule_set E (rules role) wildcard) = {}"
    using assms(2) by (auto simp: set_make_rule_set [OF assms(1)] names_resource_def)
  then show ?thesis by (simp add: match_rule_set_def)
qed

text \<open>A caller with one more role.\<close>

definition add_role :: "role \<Rightarrow> auth_context \<Rightarrow> auth_context" where
  "add_role D C = C\<lparr>cx_checker := (cx_checker C)\<lparr>ck_roles := ck_roles (cx_checker C) @ [D]\<rparr>\<rparr>"

lemma add_role_blocked [simp]:
  "blocked_in_delegation_session (cx_checker (add_role D C)) = blocked_in_delegation_session (cx_checker C)"
  by (simp add: add_role_def blocked_in_delegation_session_def fun_eq_iff)

lemma add_role_simps [simp]:
  "cx_rules (add_role D C) = cx_rules C" "ck_roles (cx_checker (add_role D C)) = ck_roles (cx_checker C) @ [D]"
  by (simp_all add: add_role_def)

lemma kinds_distinct [simp]: "kind_auth_connector \<noteq> kind_oidc" "kind_oidc \<noteq> wildcard" "kind_auth_connector \<noteq> wildcard"
  "kind_oidc \<noteq> kind_session" "kind_auth_connector \<noteq> kind_session" "wildcard \<noteq> kind_oidc"
  by (simp_all add: kind_auth_connector_def kind_oidc_def wildcard_def kind_session_def)

text \<open>
  A deny rule on OIDC connectors does not bind a caller with access to all auth connectors. To a
  caller who is granted a verb on \<^verbatim>\<open>auth_connector\<close> a role is added that denies the verb on \<^verbatim>\<open>oidc\<close>, without
  conditions: the access check on \<^verbatim>\<open>oidc\<close> then reports an explicit denial, and \<^verbatim>\<open>authConnectorAction\<close> lets the
  caller pass all the same.
\<close>

theorem oidc_deny_rule_bypassed:
  assumes "rule_sorter (re_sort (cx_rules C))" and "check_access C kind_auth_connector verb = Granted"
    and "\<not> blocked_in_delegation_session (cx_checker C) kind_oidc verb"
    and "rl_allow_rules D = []" and "rl_deny_namespaces D = [''default'']"
    and "rl_deny_rules D = [\<lparr>ru_resources = [''oidc''], ru_verbs = [verb], ru_where = [], ru_actions = []\<rparr>]"
  shows "(\<exists>e. check_access (add_role D C) ''oidc'' verb = Denied True e)
    \<and> auth_connector_action (add_role D C) ''oidc'' verb = None"
proof -
  let ?E = "cx_rules C" and ?rs = "ck_roles (cx_checker C)"
  have g: "check_role_set ?E ?rs api_namespace kind_auth_connector verb = Granted"
    using assms(2) by (simp add: check_access_def check_access_to_rule_def split: if_split_asm)
  have b: "\<not> blocked_in_delegation_session (cx_checker C) kind_auth_connector verb"
    using assms(2) by (simp add: check_access_def check_access_to_rule_def split: if_split_asm)
  have p: "re_where_parser_err ?E = None" "re_actions_parser_err ?E = None"
    using g by (auto simp: check_role_set_def check_access_to_rule_impl_def split: option.split_asm)
  have d: "\<forall>r \<in> set (rl_deny_rules D). \<not> names_resource kind_auth_connector r"
    "\<forall>r \<in> set (rl_allow_rules D). \<not> names_resource kind_auth_connector r"
    using assms(4,6) kinds_distinct by (auto simp: names_resource_def kind_oidc_def [symmetric])
  note unnamed = match_roles_unnamed [OF assms(1), of rl_deny_rules D, OF d(1)]
    match_roles_unnamed [OF assms(1), of rl_allow_rules D, OF d(2)]
  from check_role_set_Granted [OF g] have "check_role_set ?E (?rs @ [D]) api_namespace kind_auth_connector verb = Granted"
    using p unnamed
    by (simp add: check_role_set_def check_access_to_rule_impl_def match_roles_append del: match_roles.simps)
  with b have "check_access (add_role D C) kind_auth_connector verb = Granted"
    by (simp add: check_access_def check_access_to_rule_def)
  moreover have "\<exists>e. check_access (add_role D C) kind_oidc verb = Denied True e"
  proof -
    let ?r = "\<lparr>ru_resources = [''oidc''], ru_verbs = [verb], ru_where = [], ru_actions = []\<rparr>"
    have "?r \<in> selected rl_deny_namespaces rl_deny_rules api_namespace (?rs @ [D])" "names_resource kind_oidc ?r"
      using assms(5,6) by (auto simp: match_namespace_def process_namespace_def api_namespace_def names_resource_def kind_oidc_def)
    from match_roles_False [OF assms(1) _ this, of False verb]
    have "match_roles ?E False rl_deny_namespaces rl_deny_rules api_namespace kind_oidc verb (?rs @ [D]) \<noteq> Inr False"
      by (auto simp: matches_where_def covers_verb_def has_verb_def split: if_split_asm)
    then show ?thesis using p assms(3)
      by (auto simp: check_access_def check_access_to_rule_def check_role_set_def check_access_to_rule_impl_def
          split: sum.split bool.split)
  qed
  ultimately show ?thesis by (simp add: auth_connector_action_None kind_oidc_def)
qed

section \<open>Concrete callers\<close>

definition connector_admin_role :: role where
  "connector_admin_role = \<lparr>rl_name = ''admin'', rl_allow_namespaces = [''default''],
     rl_allow_rules = [\<lparr>ru_resources = [''auth_connector''], ru_verbs = [''*''], ru_where = [], ru_actions = []\<rparr>],
     rl_deny_namespaces = [''default''], rl_deny_rules = []\<rparr>"

definition no_delete_role :: role where
  "no_delete_role = \<lparr>rl_name = ''no-delete'', rl_allow_namespaces = [], rl_allow_rules = [], rl_deny_namespaces = [''default''],
     rl_deny_rules = [\<lparr>ru_resources = [''oidc''], ru_verbs = [''delete''], ru_where = [], ru_actions = []\<rparr>]\<rparr>"

definition proxy_role :: role where
  "proxy_role = \<lparr>rl_name = ''Proxy'', rl_allow_namespaces = [''*''],
     rl_allow_rules = [\<lparr>ru_resources = [''oidc_request''], ru_verbs = [''create''], ru_where = [], ru_actions = []\<rparr>],
     rl_deny_namespaces = [], rl_deny_rules = []\<rparr>"

definition caller :: "role \<Rightarrow> bool \<Rightarrow> admin_action_state \<Rightarrow> auth_context" where
  "caller r builtin admin = \<lparr>cx_checker = \<lparr>ck_roles = [r], ck_delegation_session = [], ck_allowed_kinds = []\<rparr>,
     cx_rules = sample_rules, cx_builtin = builtin, cx_admin = admin\<rparr>"

definition entitled_server :: auth_server where
  "entitled_server = \<lparr>sv_modules = OIDCModules (DefaultModules False), sv_oidc_service = Some \<lparr>os_state_ttl = 600 * second\<rparr>\<rparr>"

definition asks :: "auth_context \<Rightarrow> roles_server" where
  "asks C = \<lparr>rs_context = C, rs_server = entitled_server, rs_heap = []\<rparr>"

abbreviation sample_admin :: auth_context where
  "sample_admin \<equiv> caller connector_admin_role False AdminMFAVerifiedWithReuse"

abbreviation sample_proxy :: auth_context where
  "sample_proxy \<equiv> caller proxy_role True AdminNotRequired"

lemma asks_simps [simp]:
  "rs_context (asks C) = C" "rs_server (asks C) = entitled_server" "entitlement_gate (asks C) = None"
  by (simp_all add: asks_def entitlement_gate_def entitled_server_def wrapped_entitled)

lemma sample_admin_verbs:
  "list_all (\<lambda>v. check_access sample_admin kind_auth_connector v = Granted)
     [verb_create, verb_update, verb_read, verb_read_no_secrets, verb_list, verb_delete]"
  by code_simp

lemma sample_admin_checks:
  "connector_verb (asks sample_admin) verb_create = None" "connector_verb (asks sample_admin) verb_read = None"
  "connector_verb (asks sample_admin) verb_read_no_secrets = None" "admin_reuse (asks sample_admin) = None"
  using sample_admin_verbs
  by (simp_all add: auth_connector_action_None authorize_admin_action_allow_reused_mfa_def caller_def)


theorem secrets_need_read_and_mfa_witness:
  "\<exists>r m'. roles_get_connector (asks sample_admin) mem_get ascii_tables connector_codec_sample 5 ''google'' True sample_store = (Inr r, m')
     \<and> has_secrets r \<and> cx_admin sample_admin \<noteq> AdminUnauthorized"
proof -
  let ?r = "sample_resource\<lparr>cr_revision := ''r1''\<rparr>"
  obtain m' where g: "roles_get_connector (asks sample_admin) mem_get ascii_tables connector_codec_sample 5 ''google'' True sample_store = (Inr ?r, m')"
    using sample_admin_checks sample_read_back by (auto simp: roles_get_connector_def secrets_checks_def prod_eq_iff)
  have h: "has_secrets ?r" by (simp add: has_secrets_def sample_resource_def sample_connector_def sample_spec_def)
  from secrets_need_read_and_mfa [OF disjI1 [OF g] h] g h show ?thesis by auto
qed

lemma sample_proxy_checks:
  "authorize_action sample_proxy kind_oidc_request verb_create = None" "has_builtin_role sample_proxy role_proxy"
  "authorize_admin_action sample_proxy = None"
proof -
  have "check_access sample_proxy kind_oidc_request verb_create = Granted" by code_simp
  then show "authorize_action sample_proxy kind_oidc_request verb_create = None" by (simp add: authorize_action_def denial_def)
qed (simp_all add: has_builtin_role_def has_role_def caller_def proxy_role_def role_proxy_def authorize_admin_action_def)

theorem web_sessions_only_for_proxies_witness:
  "fst (roles_create_auth_request (asks sample_proxy) (sample_env\<lparr>le_t_claim := 0\<rparr>) (Inr sample_secrets) sample_auth_request sample_start)
     = Inr sample_auth_request \<and> ''Proxy'' \<in> rl_name ` set (ck_roles (cx_checker sample_proxy))"
proof -
  have c: "fst (roles_create_auth_request (asks sample_proxy) (sample_env\<lparr>le_t_claim := 0\<rparr>) (Inr sample_secrets) sample_auth_request sample_start)
     = Inr sample_auth_request"
    using sample_proxy_checks
    by (simp add: roles_create_auth_request_def oidc_operation_def entitled_server_def delegate_def sample_create)
  have "create_web_session sample_auth_request" by simp
  from web_sessions_only_for_proxies [OF disjI2 [OF conjI [OF c this]]] c show ?thesis by simp
qed

theorem refused_callback_issues_session_witness:
  "\<exists>w' g. roles_validate_callback (asks sample_admin) sample_env sample_query sample_world = (Inl only_proxy, w')
     \<and> g \<in> set (lw_grants w') \<and> sg_web g"
proof -
  have s: "sv_oidc_service (rs_server (asks sample_admin)) \<noteq> None" by (simp add: entitled_server_def)
  have p: "\<not> has_builtin_role (rs_context (asks sample_admin)) role_proxy" by (simp add: has_builtin_role_def caller_def)
  have "create_web_session (ar_req sample_response)" by (simp add: sample_response_request)
  from refused_callback_issues_session [OF s p sample_succeeds this] show ?thesis by (metis in_set_conv_decomp)
qed

theorem oidc_deny_rule_bypassed_witness:
  "(\<exists>e. check_access (add_role no_delete_role sample_admin) ''oidc'' ''delete'' = Denied True e)
   \<and> auth_connector_action (add_role no_delete_role sample_admin) ''oidc'' ''delete'' = None"
proof (rule oidc_deny_rule_bypassed)
  show "rule_sorter (re_sort (cx_rules sample_admin))" using sample_rules_sorter by (simp add: caller_def)
  show "check_access sample_admin kind_auth_connector ''delete'' = Granted"
    using sample_admin_verbs by (simp add: verb_delete_def)
  show "\<not> blocked_in_delegation_session (cx_checker sample_admin) kind_oidc ''delete''"
    by (simp add: caller_def blocked_in_delegation_session_def)
qed (simp_all add: no_delete_role_def)

end
