(* ===== verification/ClusterRun.thy ===== *)
theory ClusterRun
  imports RolesServer
begin

text \<open>
  The parts together: one backend holds the connectors, the auth requests, the nonces and the markers. Callers
  change connectors, proxies start logins, answers come back, and others use the backend outside the keys of
  the connectors. A login reads its connector from the store, through \<^verbatim>\<open>GetOIDCConnector\<close> with secrets.

  A run of the cluster carries the list of the requests to change a connector, with the caller and whether the
  request succeeded.
\<close>

section \<open>A run of the cluster\<close>

definition store_connectors :: "golib \<Rightarrow> connector_codec \<Rightarrow> int \<Rightarrow> memory \<Rightarrow> string \<Rightarrow> oidc_connector option" where
  "store_connectors U K t m name =
     (case fst (get_stored_connector mem_get U K t name True m) of Inl _ \<Rightarrow> None | Inr r \<Rightarrow> Some (cr_connector r))"

definition sees :: "golib \<Rightarrow> connector_codec \<Rightarrow> int \<Rightarrow> world \<Rightarrow> world" where
  "sees U K t w = w\<lparr>lw_connectors := store_connectors U K t (lw_mem w)\<rparr>"

type_synonym change_log = "(roles_server \<times> connector_op \<times> bool) list"

inductive cluster_run :: "golib \<Rightarrow> connector_codec \<Rightarrow> world \<Rightarrow> change_log \<Rightarrow> bool" for U K where
  init: "lw_mem w = new_memory \<Longrightarrow> lw_users w = [] \<Longrightarrow> cluster_run U K w []"
| change: "cluster_run U K w log \<Longrightarrow> roles_change A U K now rv op (lw_mem w) = (ok, evs, m) \<Longrightarrow>
    cluster_run U K (w\<lparr>lw_mem := m\<rparr>) (log @ [(A, op, ok)])"
| start: "cluster_run U K w log \<Longrightarrow> roles_create_auth_request A E secrets req (sees U K t w) = (r, w') \<Longrightarrow>
    cluster_run U K w' log"
| callback: "cluster_run U K w log \<Longrightarrow> roles_validate_callback A E q (sees U K t w) = (s, w') \<Longrightarrow> cluster_run U K w' log"
| others: "cluster_run U K w log \<Longrightarrow> mem_other own connector_space t (lw_mem w) m \<Longrightarrow>
    cluster_run U K (w\<lparr>lw_mem := m\<rparr>) log"

section \<open>Logins leave the connectors alone\<close>

abbreviation quiet_step :: "memory \<Rightarrow> memory \<Rightarrow> bool" where
  "quiet_step m m' \<equiv> \<exists>t. mem_other (\<lambda>_. False) connector_space t m m'"

definition quiet :: "memory \<Rightarrow> memory \<Rightarrow> bool" where
  "quiet = quiet_step\<^sup>*\<^sup>*"

lemma quiet_refl [simp]: "quiet m m"
  by (simp add: quiet_def)

lemma quiet_trans [trans]: "quiet m n \<Longrightarrow> quiet n o' \<Longrightarrow> quiet m o'"
  by (simp add: quiet_def)

lemma quiet_frame:
  assumes "quiet m m'" and "mem_auth m"
  shows "mem_auth m' \<and> (\<forall>s x. connector_space s \<longrightarrow> mem_get_item m' s = Some x \<longrightarrow> mem_get_item m s = Some x)"
  using assms(1) unfolding quiet_def
proof (induction rule: rtranclp_induct)
  case (step n n')
  from step(2) obtain t where "mem_run (\<lambda>_. False) connector_space t n t n'" using mem_run.wait mem_run.step by blast
  with step(3) memr.run_inv [of n] memr.run_quiet [of n] show ?case by blast
qed (use assms(2) in simp)

lemma login_keys_quiet [simp]:
  "\<not> connector_space (key_s (state_key sha kind token))" "\<not> connector_space (key_s (request_key token))"
  by (auto simp: connector_space_def state_key_text request_key_text starts_with_iff)

lemma create_quiet: "mem_create t rv it m = (r, m') \<Longrightarrow> \<not> connector_space (ks it) \<Longrightarrow> quiet m m'"
  unfolding quiet_def by (blast intro: mem_other.create)

lemma get_quiet: "mem_get t k m = (r, m') \<Longrightarrow> quiet m m'"
  unfolding quiet_def by (blast intro: mem_other.get)

lemma state_item_key [simp]: "it_key (state_item sha kind token v e) = state_key sha kind token"
  by (simp add: state_item_def)

lemma store_ops_quiet:
  "put_nonce mem_create sha ttl t rv token nonce m = (u, m1) \<Longrightarrow> quiet m m1"
  "claim mem_create sha ttl t rv token m = (u, m1) \<Longrightarrow> quiet m m1"
  "create_auth_request_item mem_create C ttl t rv req m = (u, m1) \<Longrightarrow> quiet m m1"
  "get_auth_request_item mem_get C t token m = (p, m1) \<Longrightarrow> quiet m m1"
  "get_nonce mem_get sha t token m = (n, m1) \<Longrightarrow> quiet m m1"
  by (auto simp: put_nonce_def claim_def create_auth_request_item_def get_auth_request_item_def get_nonce_def
      split: if_split_asm prod.split_asm sum.split_asm option.split_asm dest!: create_quiet get_quiet)

lemma start_quiet:
  assumes "create_auth_request E secrets req w = (r, w')" shows "quiet (lw_mem w) (lw_mem w')"
  using assms
  by (auto simp: create_auth_request_def split: sum.split_asm prod.split_asm dest!: store_ops_quiet(1,3) intro: quiet_trans)

lemma begin_quiet:
  assumes "begin_callback E q w = (r, a, w')" shows "quiet (lw_mem w) (lw_mem w')"
  using assms
  by (auto simp: begin_callback_def claim_request_def Let_def
      split: if_split_asm sum.split_asm prod.split_asm option.split_asm dest!: store_ops_quiet(2,4) intro: quiet_trans)

lemma configure_quiet:
  assumes "configure_login E token req a w = (r, a', w')" shows "quiet (lw_mem w) (lw_mem w')"
  using assms
  by (auto simp: configure_login_def Let_def split: if_split_asm sum.split_asm prod.split_asm dest!: store_ops_quiet(5))

lemma callback_steps_quiet:
  assumes "callback_steps E q w = (r, a, w')" shows "quiet (lw_mem w) (lw_mem w')"
  using assms
  by (auto simp: callback_steps_def split: sum.split_asm prod.split_asm
      dest!: begin_quiet configure_quiet login_user_mem finish_login_mem intro: quiet_trans)

lemma callback_quiet:
  assumes "validate_oidc_auth_callback E q w = (r, w')" shows "quiet (lw_mem w) (lw_mem w')"
proof -
  obtain s a w1 where c: "callback_steps E q w = (s, a, w1)" by (metis surj_pair)
  with assms have "lw_mem w' = lw_mem w1"
    by (auto simp: validate_oidc_auth_callback_def validate_callback_def Let_def split: sum.split_asm if_split_asm)
  with callback_steps_quiet [OF c] show ?thesis by simp
qed

lemma roles_login_quiet:
  "roles_create_auth_request A E secrets req w = (r, w') \<Longrightarrow> quiet (lw_mem w) (lw_mem w')"
  "roles_validate_callback A E q w = (s, w') \<Longrightarrow> quiet (lw_mem w) (lw_mem w')"
  by (auto simp: roles_create_auth_request_def roles_validate_callback_def delegate_def oidc_operation_def
      split: option.split_asm sum.split_asm prod.split_asm if_split_asm dest!: start_quiet callback_quiet)

lemma roles_login_keeps:
  "roles_create_auth_request A E secrets req w = (r, w') \<Longrightarrow> world_ok w \<Longrightarrow> world_ok w'"
  "roles_validate_callback A E q w = (s, w') \<Longrightarrow> world_ok w \<Longrightarrow> world_ok w'"
proof -
  have a: "world_ok (w\<lparr>lw_audit := x\<rparr>) = world_ok w" for w x by (simp add: world_ok_def)
  show "roles_create_auth_request A E secrets req w = (r, w') \<Longrightarrow> world_ok w \<Longrightarrow> world_ok w'"
    by (auto simp: roles_create_auth_request_def delegate_def oidc_operation_def a
        split: option.split_asm sum.split_asm prod.split_asm if_split_asm dest: create_auth_request_keeps)
  show "roles_validate_callback A E q w = (s, w') \<Longrightarrow> world_ok w \<Longrightarrow> world_ok w'"
    by (auto simp: roles_validate_callback_def delegate_def oidc_operation_def
        split: option.split_asm sum.split_asm prod.split_asm if_split_asm dest: world_step_keeps [OF world_step.callback])
qed

section \<open>Where a connector comes from\<close>

fun writes_name :: "connector_op \<Rightarrow> string option" where
  "writes_name (UpsertOp r) = Some (cr_name r)"
| "writes_name (UpdateOp r) = Some (cr_name r)"
| "writes_name (CreateOp r) = Some (cr_name r)"
| "writes_name (DeleteOp _) = None"

lemma write_frame:
  assumes "with_policy U r event (with_encoded U K r (\<lambda>r1 v. w (connector_item r1 v (g r1)))) m = (q, evs, m')"
    and "\<And>it p m1. w it m = (p, m1) \<Longrightarrow> mem_get_item m1 s = Some x \<Longrightarrow> is_err p \<or> s \<noteq> ks it \<Longrightarrow> mem_get_item m s = Some x"
    and "mem_get_item m' s = Some x"
  shows "mem_get_item m s = Some x \<or> \<not> is_err q \<and> s = key_s (connector_key (cr_name r))"
proof (cases rule: with_policy_cases [OF assms(1), case_names refused tried])
  case tried
  show ?thesis
  proof (cases rule: with_encoded_cases [OF tried(2), case_names refused tried_write])
    case (tried_write v p)
    from assms(2) [OF tried_write(2) assms(3)] tried_write(3) show ?thesis
      by (cases p) (auto simp: connector_item_def)
  qed (use assms(3) in simp)
qed (use assms(3) in simp)

lemma change_frame:
  assumes "mem_auth m" and "roles_change A U K now rv op m = (ok, evs, m')" and "mem_get_item m' s = Some x"
  shows "mem_get_item m s = Some x \<or> ok \<and> may_change A op \<and> (\<exists>n. writes_name op = Some n \<and> s = key_s (connector_key n))"
proof (cases rule: roles_change_cases [OF assms(2), case_names refused allowed])
  case refused
  with assms(3) show ?thesis by simp
next
  case allowed
  have "mem_get_item m s = Some x \<or> ok \<and> (\<exists>n. writes_name op = Some n \<and> s = key_s (connector_key n))"
  proof (cases op)
    case (UpsertOp r)
    with assms(2) obtain q where "m' = m \<or> server_upsert_connector mem_put U K now rv r m = (q, evs, m') \<and> ok = (\<not> is_err q)"
      by (auto simp: roles_upsert_connector_def split: option.split_asm prod.split_asm)
    then show ?thesis
    proof (elim disjE conjE)
      assume "server_upsert_connector mem_put U K now rv r m = (q, evs, m')" and ok: "ok = (\<not> is_err q)"
      from write_frame [OF this(1) [unfolded server_upsert_connector_def upsert_oidc_connector_def] memw.put_adds_one [OF assms(1)] assms(3)]
      show ?thesis using ok UpsertOp by simp
    qed (use assms(3) in simp)
  next
    case (UpdateOp r)
    with assms(2) obtain q where "m' = m \<or> server_update_connector mem_conditional_update U K now rv r m = (q, evs, m') \<and> ok = (\<not> is_err q)"
      by (auto simp: roles_update_connector_def split: option.split_asm prod.split_asm)
    then show ?thesis
    proof (elim disjE conjE)
      assume "server_update_connector mem_conditional_update U K now rv r m = (q, evs, m')" and ok: "ok = (\<not> is_err q)"
      from write_frame [OF this(1) [unfolded server_update_connector_def update_oidc_connector_def] memw.update_adds_one [OF assms(1)] assms(3)]
      show ?thesis using ok UpdateOp by simp
    qed (use assms(3) in simp)
  next
    case (CreateOp r)
    with assms(2) obtain q where "m' = m \<or> server_create_connector mem_create U K now rv r m = (q, evs, m') \<and> ok = (\<not> is_err q)"
      by (auto simp: roles_create_connector_def split: option.split_asm prod.split_asm)
    then show ?thesis
    proof (elim disjE conjE)
      assume "server_create_connector mem_create U K now rv r m = (q, evs, m')" and ok: "ok = (\<not> is_err q)"
      from write_frame [OF this(1) [unfolded server_create_connector_def create_oidc_connector_def] mem.create_adds_one [OF assms(1)] assms(3)]
      show ?thesis using ok CreateOp by simp
    qed (use assms(3) in simp)
  next
    case (DeleteOp name)
    with assms(2) obtain d where "m' = m \<or> server_delete_connector mem_delete now name m = (d, evs, m')"
      by (auto simp: roles_delete_connector_def split: option.split_asm prod.split_asm)
    then have "mem_get_item m s = Some x"
      using assms(3) memw.delete_adds_none [OF assms(1)]
      by (auto simp: server_delete_connector_def delete_oidc_connector_def split: if_split_asm sum.split_asm prod.split_asm)
    then show ?thesis ..
  qed
  with allowed show ?thesis by blast
qed

section \<open>The invariant of a run\<close>

definition traced :: "change_log \<Rightarrow> memory \<Rightarrow> bool" where
  "traced log m \<longleftrightarrow> (\<forall>name x. mem_get_item m (key_s (connector_key name)) = Some x \<longrightarrow>
     (\<exists>A op. (A, op, True) \<in> set log \<and> writes_name op = Some name \<and> may_change A op))"

definition cluster_inv :: "golib \<Rightarrow> connector_codec \<Rightarrow> world \<Rightarrow> change_log \<Rightarrow> bool" where
  "cluster_inv U K w log \<longleftrightarrow> world_ok w \<and> memw.holds (good_connector U K) (lw_mem w) \<and> traced log (lw_mem w)"

lemma connector_key_space [simp]: "connector_space (key_s (connector_key name))"
  by (simp add: connector_space_def connector_key_text starts_with_iff)

lemma quiet_connectors:
  assumes "quiet m m'" and "mem_auth m" and "memw.holds (good_connector U K) m" and "traced log m"
  shows "memw.holds (good_connector U K) m' \<and> traced log m'"
  using quiet_frame [OF assms(1,2)] assms(3,4) unfolding memw.holds_def good_connector_def traced_def
  by (meson connector_key_space)

lemma cluster_run_inv:
  assumes "faithful K" and "cluster_run U K w log"
  shows "cluster_inv U K w log"
  using assms(2)
proof (induction rule: cluster_run.induct)
  case (init w)
  then show ?case
    by (simp add: cluster_inv_def world_ok_def users_ok_def traced_def memw.holds_def)
       (simp add: new_memory_def tree_get_def)
next
  case (change w log A now rv op ok evs m)
  then have i: "mem_auth (lw_mem w)" "memw.holds (good_connector U K) (lw_mem w)" "traced log (lw_mem w)"
    by (simp_all add: cluster_inv_def world_ok_def)
  have "mem_auth m \<and> memw.holds (good_connector U K) m"
    by (rule roles_change_cases [OF change(2)]) (use i connector_step_good [OF assms(1) _ i(1,2)] in auto)
  moreover have "traced (log @ [(A, op, ok)]) m"
    unfolding traced_def
  proof (intro allI impI)
    fix name x
    assume "mem_get_item m (key_s (connector_key name)) = Some x"
    from change_frame [OF i(1) change(2) this] show
      "\<exists>A' op'. (A', op', True) \<in> set (log @ [(A, op, ok)]) \<and> writes_name op' = Some name \<and> may_change A' op'"
      using i(3) unfolding traced_def by (elim disjE conjE exE) (simp, blast, auto)
  qed
  ultimately show ?case using change(3) by (simp add: cluster_inv_def world_ok_def)
next
  case (start w log A E secrets req t r w')
  then have i: "world_ok (sees U K t w)" "mem_auth (lw_mem w)" by (simp_all add: cluster_inv_def world_ok_def sees_def)
  from roles_login_quiet(1) [OF start(2)] have "quiet (lw_mem w) (lw_mem w')" by (simp add: sees_def)
  from quiet_connectors [OF this i(2)] roles_login_keeps(1) [OF start(2) i(1)] start(3)
  show ?case by (auto simp: cluster_inv_def)
next
  case (callback w log A E q t s w')
  then have i: "world_ok (sees U K t w)" "mem_auth (lw_mem w)" by (simp_all add: cluster_inv_def world_ok_def sees_def)
  from roles_login_quiet(2) [OF callback(2)] have "quiet (lw_mem w) (lw_mem w')" by (simp add: sees_def)
  from quiet_connectors [OF this i(2)] roles_login_keeps(2) [OF callback(2) i(1)] callback(3)
  show ?case by (auto simp: cluster_inv_def)
next
  case (others w log own t m)
  then have i: "mem_auth (lw_mem w)" by (simp add: cluster_inv_def world_ok_def)
  have "mem_run own connector_space t (lw_mem w) t m" using others(2) mem_run.wait mem_run.step by blast
  with memr.run_inv [OF i] memr.run_quiet [OF i] others(3) show ?case
    unfolding cluster_inv_def world_ok_def memw.holds_def good_connector_def traced_def by simp
qed

lemma stored_connector_found:
  assumes "store_connectors U K t m name = Some c" and "mem_auth m" and "memw.holds (good_connector U K) m"
  obtains x where "mem_get_item m (key_s (connector_key name)) = Some x"
    "con_name c = name" "validate_connector U (Some c) = None"
proof -
  from assms(1) obtain r m' where g: "get_stored_connector mem_get U K t name True m = (Inr r, m')" and c: "c = cr_connector r"
    by (auto simp: store_connectors_def split: sum.split_asm) (metis fst_conv surj_pair)
  from g obtain x where "mem_get t (connector_key name) m = (Inr x, m')"
    by (auto simp: get_stored_connector_def split: if_split_asm prod.split_asm sum.split_asm)
  with mem.get_sound [OF assms(2)] have "mem_get_item m (key_s (connector_key name)) = Some x" by blast
  from that [OF this] memw.get_connector_good [OF assms(2,3) g] c show thesis by simp
qed

lemma callback_connector:
  assumes "roles_validate_callback A E q (sees U K t w) = (Inr resp, w')"
  obtains c where "store_connectors U K t (lw_mem w) (connector_id (ar_req resp)) = Some c"
    "validate_connector (le_lib E) (Some c) = None"
proof -
  from assms obtain a w2 where "validate_callback E q (sees U K t w) = (Inr resp, a, w2)"
    by (auto simp: roles_validate_callback_def delegate_def oidc_operation_def validate_oidc_auth_callback_def Let_def
        split: option.split_asm sum.split_asm prod.split_asm if_split_asm)
  from validate_callback_ok [OF this] obtain req a0 w1 st a1 w2 vt u p w3 w4
    where b: "begin_callback E q (sees U K t w) = (Inr req, a0, w1)"
      and c: "configure_login E (q_get q ''state'') req a0 w1 = (Inr st, a1, w2)"
      and f: "finish_login E req st vt u p w3 = (Inr resp, w4)"
    by (rule callback_ok)
  note conn = get_connector_ok [OF configure_login_ok(1) [OF c]]
  from finish_login_ok [OF f conn(2)] make_auth_response_ok(1) have "ar_req resp = req" by metis
  with conn(1,3) claimed_world(2) [OF b] that show thesis by (simp add: sees_def)
qed

section \<open>A concrete run\<close>

text \<open>An administrator creates a connector, a proxy starts a login with it, and the answer comes back.\<close>

lemma google_found:
  "lw_connectors w ''google'' = Some sample_connector \<Longrightarrow> get_connector ascii_tables sample_auth_request w = Inr sample_connector"
  using sample_valid by (simp add: get_connector_def get_oidc_connector_def)

lemma prepare_in:
  assumes "lw_connectors w ''google'' = Some sample_connector"
  shows "prepare_request (sample_env\<lparr>le_t_claim := 0\<rparr>) (Inr sample_secrets) sample_auth_request w = Inr (sample_auth_request, ''n'')"
proof -
  have r: "sample_auth_request\<lparr>pkce_verifier := ''v'', state_token := ''t''\<rparr> = sample_auth_request"
    "clean_user_agent sample_auth_request = sample_auth_request"
    by (simp_all add: sample_auth_request_def clean_user_agent_def valid_utf8_def max_audit_user_agent_bytes_def)
  have "get_connector ascii_tables sample_auth_request sample_start = Inr sample_connector"
    by (rule google_found) (simp add: sample_start_def)
  with sample_prepare [where v = "''v''" and s = "''t''"] google_found [OF assms] r show ?thesis
    by (simp add: prepare_request_def)
qed

lemma callback_in:
  assumes "lw_connectors w ''google'' = Some sample_connector" and "lw_users w = []"
    and "get_auth_request_item mem_get login_codec second ''t'' (lw_mem w) = (Inr sample_auth_request, m1)"
    and "claim mem_create (\<lambda>s. s) (600 * second) second ''r'' ''t'' m1 = (Inr (), m2)"
    and "get_nonce mem_get (\<lambda>s. s) second ''t'' m2 = (Inr ''n'', m3)"
  shows "\<exists>resp a w'. validate_callback sample_env sample_query w = (Inr resp, a, w')"
proof -
  let ?w = "w\<lparr>lw_mem := m2\<rparr>" and ?a = "set_request sample_auth_request new_callback_audit"
  have b: "begin_callback sample_env sample_query w = (Inr sample_auth_request, ?a, ?w)"
    using assms(3,4) by (simp add: begin_callback_def claim_request_def sample_query_def q_get_def)
  obtain c where c: "new_oauth2_config (le_discover sample_env) sample_connector
      ''HTTPS://tp.ex.com:443/v1/webapi/oidc/callback'' = Inr c" using sample_config by blast
  have "get_connector ascii_tables sample_auth_request ?w = Inr sample_connector" by (rule google_found) (simp add: assms(1))
  with c assms(5) obtain st a where st: "configure_login sample_env ''t'' sample_auth_request ?a ?w = (Inr st, a, w\<lparr>lw_mem := m3\<rparr>)"
    "st_connector st = sample_connector" "st_domains st = [''ex.com'', ''b.org'']" "gs_enabled (st_groups st)"
    by (simp add: configure_login_def sample_domains sample_group sample_callback_url)
  have "lw_users (w\<lparr>lw_mem := m3\<rparr>) = []" by (simp add: assms(2))
  from sample_logs_in [OF st(2,4) this sample_request_fields(5), of "le_codec sample_env"] obtain u p a' w' where
    l: "login_user sample_env sample_auth_request st sample_verified a (w\<lparr>lw_mem := m3\<rparr>) = (Inr (u, p), a', w')"
    unfolding sample_env_codec by blast
  obtain resp w'' where f: "finish_login sample_env sample_auth_request st sample_verified u p w' = (Inr resp, w'')"
    using sample_finishes by blast
  have "q_get sample_query ''state'' = ''t''" by (simp add: sample_query_def q_get_def)
  then show ?thesis using b st(1) l f sample_verifies [OF st(2,3)] by (simp add: validate_callback_def callback_steps_def)
qed

definition created_mem :: memory where
  "created_mem = snd (snd (server_create_connector mem_create ascii_tables connector_codec_sample 0 ''r1'' sample_resource new_memory))"

lemma created:
  "server_create_connector mem_create ascii_tables connector_codec_sample 0 ''r1'' sample_resource new_memory =
     (Inr (sample_resource\<lparr>cr_revision := ''r1''\<rparr>), [ConnectorCreated (cr_name sample_resource)], created_mem)"
proof -
  have "sample_resource\<lparr>cr_revision := []\<rparr> = sample_resource" by (simp add: sample_resource_def)
  with sample_marshal(1) [of "[]"] have "marshal_oidc_connector ascii_tables connector_codec_sample sample_resource = Inr (sample_resource, [])" by simp
  from create_sample [OF _ _ _ this, of new_memory 0 "''r1''"] show ?thesis
    by (simp add: created_mem_def new_memory_def tree_get_def)
qed

lemma created_facts:
  shows "mem_auth created_mem"
    and "\<exists>x. mem_get_item created_mem (key_s (connector_key ''google'')) = Some x \<and> it_expires x = None
      \<and> decode_item ascii_tables connector_codec_sample True x = Inr (sample_resource\<lparr>cr_revision := ''r1''\<rparr>)"
    and "s \<noteq> key_s (connector_key ''google'') \<Longrightarrow> mem_get_item created_mem s = None"
proof -
  have n: "cr_name sample_resource = ''google''" "cr_expires sample_resource = None"
    by (simp_all add: sample_resource_def sample_connector_def)
  from memw.create_written [OF sample_codec_faithful new_memory_auth, of ascii_tables sample_resource "''r1''" 0] created
  show "mem_auth created_mem" "\<exists>x. mem_get_item created_mem (key_s (connector_key ''google'')) = Some x \<and> it_expires x = None
      \<and> decode_item ascii_tables connector_codec_sample True x = Inr (sample_resource\<lparr>cr_revision := ''r1''\<rparr>)"
    by (auto simp: memw.written_def n)
  show "mem_get_item created_mem s = None" if "s \<noteq> key_s (connector_key ''google'')"
  proof (rule ccontr)
    assume "mem_get_item created_mem s \<noteq> None"
    then obtain x where "mem_get_item created_mem s = Some x" by blast
    from write_frame [OF created [unfolded server_create_connector_def create_oidc_connector_def] mem.create_adds_one [OF new_memory_auth] this]
    show False using that n by (simp add: new_memory_def tree_get_def)
  qed
qed

lemma connector_kept:
  assumes "mem_run connector_space (\<lambda>_. False) 0 created_mem t m"
  shows "store_connectors ascii_tables connector_codec_sample t m ''google'' = Some sample_connector"
proof -
  obtain x where x: "mem_get_item created_mem (key_s (connector_key ''google'')) = Some x" "it_expires x = None"
    "decode_item ascii_tables connector_codec_sample True x = Inr (sample_resource\<lparr>cr_revision := ''r1''\<rparr>)"
    using created_facts(2) by blast
  have l: "live t x" using x(2) by (simp add: live_def)
  obtain g m' where g: "mem_get t (connector_key ''google'') m = (g, m')" by fastforce
  have "g = Inr x"
    by (rule mem.get_live [OF memr.run_inv [OF created_facts(1) assms] _ memr.run_keeps [OF created_facts(1) assms _ x(1) l] l g]) simp_all
  with g x(3) show ?thesis by (simp add: store_connectors_def get_stored_connector_def sample_resource_def)
qed

lemma login_started:
  "\<exists>m1 m2. put_nonce mem_create (\<lambda>s. s) (600 * second) 0 ''r'' ''t'' ''n'' created_mem = (Inr (), m1)
     \<and> create_auth_request_item mem_create login_codec (600 * second) 0 ''r'' sample_auth_request m1 = (Inr (), m2)
     \<and> mem_get_item m2 (key_s (state_key (\<lambda>s. s) ''used'' ''t'')) = None
     \<and> mem_run connector_space (\<lambda>_. False) 0 created_mem 0 m2"
proof -
  let ?n = "state_item (\<lambda>s. s) ''nonce'' ''t'' ''n'' (0 + 600 * second)"
  let ?q = "\<lparr>it_key = request_key ''t'', it_value = ''{}'', it_expires = expiry 0 (600 * second), it_revision = []\<rparr>"
  have fresh: "mem_get_item created_mem (key_s (state_key (\<lambda>s. s) kind ''t'')) = None" "mem_get_item created_mem (key_s (request_key ''t'')) = None" for kind
    using login_keys_quiet by (metis connector_key_space created_facts(3))+
  have keys: "key_s (state_key (\<lambda>s. s) ''used'' ''t'') \<noteq> key_s (state_key (\<lambda>s. s) ''nonce'' ''t'')" by (simp add: state_key_text)
  obtain r m1 where c: "mem_create 0 ''r'' ?n created_mem = (r, m1)" by fastforce
  have "\<not> key_is_zero (it_key ?n)" "mem_get_item created_mem (ks ?n) = None" by (simp add: state_key_def, simp add: fresh)
  from mem.create_free [OF created_facts(1) this c] have r: "r = Inr (?n\<lparr>it_revision := ''r''\<rparr>)" .
  have i: "mem_auth m1" by (rule mem.create_inv [OF created_facts(1) c])
  have f1: "mem_get_item m1 (key_s (request_key ''t'')) = None" "mem_get_item m1 (key_s (state_key (\<lambda>s. s) ''used'' ''t'')) = None"
    using mem.create_adds_one [OF created_facts(1) c] fresh keys
    by (metis not_None_eq option.simps(3) state_item_key state_key_not_request)+
  obtain q m2 where d: "mem_create 0 ''r'' ?q m1 = (q, m2)" by fastforce
  have "\<not> key_is_zero (it_key ?q)" "mem_get_item m1 (ks ?q) = None" by (simp add: request_key_def, simp add: f1)
  from mem.create_free [OF i this d] have q: "q = Inr (?q\<lparr>it_revision := ''r''\<rparr>)" .
  have f2: "mem_get_item m2 (key_s (state_key (\<lambda>s. s) ''used'' ''t'')) = None"
    using mem.create_adds_one [OF i d, of "key_s (state_key (\<lambda>s. s) ''used'' ''t'')"] f1(2) by (cases "mem_get_item m2 (key_s (state_key (\<lambda>s. s) ''used'' ''t''))") auto
  have "mem_run connector_space (\<lambda>_. False) 0 created_mem 0 m2"
    by (rule mem_run.step [OF mem_run.step [OF mem_run.wait mem_other.create [OF c]] mem_other.create [OF d]]) simp_all
  moreover have "check_auth_request (\<lambda>_. True) sample_auth_request = None" by (simp add: check_auth_request_def sample_auth_request_def)
  ultimately show ?thesis using c r d q f2
    by (auto simp: put_nonce_def create_auth_request_item_def login_codec_def)
qed

lemma answer_finds:
  assumes "put_nonce mem_create (\<lambda>s. s) (600 * second) 0 ''r'' ''t'' ''n'' created_mem = (Inr (), m1)"
    and "create_auth_request_item mem_create login_codec (600 * second) 0 ''r'' sample_auth_request m1 = (Inr (), m2)"
    and "mem_get_item m2 (key_s (state_key (\<lambda>s. s) ''used'' ''t'')) = None"
  shows "\<exists>m3 m4 m5. get_auth_request_item mem_get login_codec second ''t'' m2 = (Inr sample_auth_request, m3)
     \<and> claim mem_create (\<lambda>s. s) (600 * second) second ''r'' ''t'' m3 = (Inr (), m4)
     \<and> get_nonce mem_get (\<lambda>s. s) second ''t'' m4 = (Inr ''n'', m5)"
proof -
  let ?u = "state_item (\<lambda>s. s) ''used'' ''t'' ''used'' (second + 600 * second)"
  have i1: "mem_auth m1" by (rule put_nonce_item [OF created_facts(1) assms(1)])
  have i2: "mem_auth m2" by (rule memr.request_stored(1) [OF i1 assms(2)])
  have "fst (get_auth_request_item mem_get login_codec second (state_token sample_auth_request) m2) = Inr sample_auth_request"
    by (rule memr.request_roundtrip [OF i1 assms(2) mem_run.wait, where own = "\<lambda>_. True"])
       (simp_all add: second_def login_codec_def)
  moreover obtain g m3 where g: "mem_get second (request_key ''t'') m2 = (g, m3)" by fastforce
  ultimately have look: "get_auth_request_item mem_get login_codec second ''t'' m2 = (Inr sample_auth_request, m3)"
    by (auto simp: get_auth_request_item_def split: sum.split_asm)
  have i3: "mem_auth m3" by (rule mem.get_inv [OF i2 g])
  have "mem_get_item m3 (ks ?u) = None"
    using mem.get_adds_none [OF i2 g] assms(3) by (cases "mem_get_item m3 (ks ?u)") auto
  moreover obtain c m4 where c: "mem_create second ''r'' ?u m3 = (c, m4)" by fastforce
  ultimately have "c = Inr (?u\<lparr>it_revision := ''r''\<rparr>)"
    by (intro mem.create_free [OF i3 _ _ c]) (simp add: state_key_def)
  with c have claimed: "claim mem_create (\<lambda>s. s) (600 * second) second ''r'' ''t'' m3 = (Inr (), m4)" by (simp add: claim_def)
  from assms(2) obtain it p where "mem_create 0 ''r'' it m1 = (p, m2)"
    by (auto simp: create_auth_request_item_def split: option.split_asm sum.split_asm prod.split_asm)
  then have run: "mem_run (\<lambda>_. True) (\<lambda>_. False) 0 m1 second m4"
    by (intro mem_run.step [OF mem_run.step [OF mem_run.step [OF mem_run.wait mem_other.create [of 0]] mem_other.get [OF g]]
      mem_other.create [OF c]]) (simp_all add: second_def)
  have "fst (get_nonce mem_get (\<lambda>s. s) second ''t'' m4) = Inr ''n''"
    by (rule memr.nonce_roundtrip [OF created_facts(1) assms(1) run]) (simp_all add: second_def)
  with look claimed show ?thesis by (metis prod.collapse)
qed

definition sample_log :: change_log where
  "sample_log = [(asks sample_admin, CreateOp sample_resource, True)]"

lemma connector_created_run:
  "cluster_run ascii_tables connector_codec_sample (sample_start\<lparr>lw_mem := created_mem\<rparr>) sample_log"
proof -
  have "cluster_run ascii_tables connector_codec_sample sample_start []" by (rule cluster_run.init) (simp_all add: sample_start_def)
  moreover have "roles_change (asks sample_admin) ascii_tables connector_codec_sample 0 ''r1'' (CreateOp sample_resource) (lw_mem sample_start) =
     (True, [ConnectorCreated (cr_name sample_resource)], created_mem)"
    using sample_admin_checks created by (simp add: roles_create_connector_def sample_start_def)
  ultimately show ?thesis using cluster_run.change by (fastforce simp: sample_log_def)
qed

lemma sample_cluster:
  "\<exists>w resp w'. cluster_run ascii_tables connector_codec_sample w sample_log
     \<and> roles_validate_callback (asks sample_proxy) sample_env sample_query (sees ascii_tables connector_codec_sample second w) = (Inr resp, w')
     \<and> ar_req resp = sample_auth_request"
proof -
  let ?U = ascii_tables and ?K = connector_codec_sample
  obtain m1 m2 where l: "put_nonce mem_create (\<lambda>s. s) (600 * second) 0 ''r'' ''t'' ''n'' created_mem = (Inr (), m1)"
    "create_auth_request_item mem_create login_codec (600 * second) 0 ''r'' sample_auth_request m1 = (Inr (), m2)"
    "mem_get_item m2 (key_s (state_key (\<lambda>s. s) ''used'' ''t'')) = None"
    and run: "mem_run connector_space (\<lambda>_. False) 0 created_mem 0 m2" using login_started by blast
  from answer_finds [OF l] obtain m3 m4 m5 where a: "get_auth_request_item mem_get login_codec second ''t'' m2 = (Inr sample_auth_request, m3)"
    "claim mem_create (\<lambda>s. s) (600 * second) second ''r'' ''t'' m3 = (Inr (), m4)"
    "get_nonce mem_get (\<lambda>s. s) second ''t'' m4 = (Inr ''n'', m5)" by blast
  let ?w1 = "sees ?U ?K 0 (sample_start\<lparr>lw_mem := created_mem\<rparr>)"
  have "lw_connectors ?w1 ''google'' = Some sample_connector"
    using connector_kept [OF mem_run.wait] by (simp add: sees_def)
  from prepare_in [OF this] l(1,2) have "create_auth_request (sample_env\<lparr>le_t_claim := 0\<rparr>) (Inr sample_secrets) sample_auth_request ?w1 =
      (Inr sample_auth_request, ?w1\<lparr>lw_mem := m2\<rparr>)"
    by (simp add: create_auth_request_def) (simp add: sees_def)
  then have "roles_create_auth_request (asks sample_proxy) (sample_env\<lparr>le_t_claim := 0\<rparr>) (Inr sample_secrets) sample_auth_request ?w1 =
      (Inr sample_auth_request, ?w1\<lparr>lw_mem := m2\<rparr>)"
    using sample_proxy_checks by (simp add: roles_create_auth_request_def oidc_operation_def entitled_server_def delegate_def)
  from cluster_run.start [OF connector_created_run this] have r: "cluster_run ?U ?K (?w1\<lparr>lw_mem := m2\<rparr>) sample_log" .
  let ?w2 = "sees ?U ?K second (?w1\<lparr>lw_mem := m2\<rparr>)"
  have "mem_run connector_space (\<lambda>_. False) 0 created_mem second m2"
    using run by (cases rule: mem_run.cases) (auto intro: mem_run.wait mem_run.step simp: second_def)
  from connector_kept [OF this] have w2: "lw_connectors ?w2 ''google'' = Some sample_connector" "lw_users ?w2 = []" "lw_mem ?w2 = m2"
    by (simp_all add: sees_def sample_start_def)
  have "get_auth_request_item mem_get login_codec second ''t'' (lw_mem ?w2) = (Inr sample_auth_request, m3)" using a(1) w2(3) by simp
  from callback_in [OF w2(1,2) this a(2,3)] obtain resp e w' where v: "validate_callback sample_env sample_query ?w2 = (Inr resp, e, w')" by blast
  have "ar_req resp = sample_auth_request" using callback_request [OF v] a(1) w2(3) by (simp add: sample_query_def q_get_def)
  moreover have "\<exists>w''. roles_validate_callback (asks sample_proxy) sample_env sample_query ?w2 = (Inr resp, w'')"
    using v sample_proxy_checks(2)
    by (simp add: roles_validate_callback_def oidc_operation_def entitled_server_def delegate_def validate_oidc_auth_callback_def)
  ultimately show ?thesis using r by blast
qed

end
