(* ===== verification/Fanout.thy ===== *)
theory Fanout
  imports AtomicWrite "HOL-Library.Sublist"
begin

text \<open>
  Watching the backend: the event buffer of \<^verbatim>\<open>lib/backend/buffer.go\<close>, its watchers with their channels and backlogs,
  and the prefix tree they are registered in. The operations of the buffer run under its mutex and are
  atomic steps. A watcher is an object: its number is its address, the list of objects the heap, and the prefix tree holds
  numbers. A channel is the list of what it holds, with its capacity beside it; a select with a default sends when there
  is room. A panic of the code is \<^const>\<open>None\<close>.

  The prefix tree is \<^verbatim>\<open>github.com/armon/go-radix\<close>, which is not part of the repository: its operations are an
  argument, and the locale \<open>radix_tree\<close> states what its documentation promises.
\<close>

section \<open>The prefix tree (go-radix)\<close>

record 't radix =
  rx_new :: 't
  rx_get :: "string \<Rightarrow> 't \<Rightarrow> nat list option"
  rx_insert :: "string \<Rightarrow> nat list \<Rightarrow> 't \<Rightarrow> 't"
  rx_delete :: "string \<Rightarrow> 't \<Rightarrow> 't"
  rx_walk_path :: "string \<Rightarrow> 't \<Rightarrow> nat list list"
  rx_walk :: "'t \<Rightarrow> nat list list"

section \<open>Events, watches and watchers\<close>

datatype buffer_event = InitEvent | ItemEvent event

record watch =
  wa_name :: string
  wa_prefixes :: "key list"
  wa_queue_size :: int
  wa_metric_component :: string

record buffer_watcher =
  bw_watch :: watch
  bw_events :: "buffer_event list"
  bw_backlog :: "buffer_event list"
  bw_backlog_since :: int
  bw_created :: int
  bw_done :: bool
  bw_init_once :: bool
  bw_init_ok :: bool
  bw_capacity :: nat

record buffer_config =
  bc_grace_period :: int
  bc_creation_grace_period :: int
  bc_capacity :: int

datatype buffer_option = BufferCapacity int | BacklogGracePeriod int | CreationGracePeriod int

record 't circular_buffer =
  cb_cfg :: buffer_config
  cb_init :: bool
  cb_closed :: bool
  cb_watchers :: 't
  cb_objects :: "buffer_watcher list"

definition default_buffer_capacity :: int where "default_buffer_capacity = 1024"
definition default_backlog_grace_period :: int where "default_backlog_grace_period = second * 59"
definition default_creation_grace_period :: int where "default_creation_grace_period = default_backlog_grace_period * 3"

fun apply_buffer_option :: "buffer_option \<Rightarrow> buffer_config \<Rightarrow> buffer_config" where
  "apply_buffer_option (BufferCapacity c) cfg = (if c > 0 then cfg\<lparr>bc_capacity := c\<rparr> else cfg)"
| "apply_buffer_option (BacklogGracePeriod d) cfg = (if d > 0 then cfg\<lparr>bc_grace_period := d\<rparr> else cfg)"
| "apply_buffer_option (CreationGracePeriod d) cfg = (if d > 0 then cfg\<lparr>bc_creation_grace_period := d\<rparr> else cfg)"

definition new_circular_buffer :: "'t radix \<Rightarrow> buffer_option list \<Rightarrow> 't circular_buffer" where
  "new_circular_buffer R opts =
     \<lparr>cb_cfg = fold apply_buffer_option opts
        \<lparr>bc_grace_period = default_backlog_grace_period, bc_creation_grace_period = default_creation_grace_period,
         bc_capacity = default_buffer_capacity\<rparr>,
      cb_init = False, cb_closed = False, cb_watchers = rx_new R, cb_objects = []\<rparr>"

section \<open>One watcher\<close>

text \<open>The zero \<^verbatim>\<open>time.Time\<close>.\<close>

definition zero_time :: int where "zero_time = - 62135596800 * second"

text \<open>The loop of \<^verbatim>\<open>flushBacklog\<close>: the channel and what is left of the backlog.\<close>

fun flush_loop :: "nat \<Rightarrow> buffer_event list \<Rightarrow> buffer_event list \<Rightarrow> buffer_event list \<times> buffer_event list" where
  "flush_loop capacity ch [] = (ch, [])"
| "flush_loop capacity ch (e # es) = (if length ch < capacity then flush_loop capacity (ch @ [e]) es else (ch, e # es))"

definition flush_backlog :: "buffer_watcher \<Rightarrow> bool \<times> buffer_watcher" where
  "flush_backlog w =
     (case flush_loop (bw_capacity w) (bw_events w) (bw_backlog w) of
        (ch, []) \<Rightarrow> (True, w\<lparr>bw_events := ch, bw_backlog := [], bw_backlog_since := zero_time\<rparr>)
      | (ch, rest) \<Rightarrow> (False, w\<lparr>bw_events := ch, bw_backlog := rest\<rparr>))"

definition watcher_emit :: "buffer_config \<Rightarrow> int \<Rightarrow> event \<Rightarrow> buffer_watcher \<Rightarrow> bool \<times> buffer_watcher" where
  "watcher_emit cfg now e w0 =
     (let (flushed, w) = flush_backlog w0 in
      if \<not> flushed then
        if now > bw_backlog_since w + bc_grace_period cfg \<and> now > bw_created w + bc_creation_grace_period cfg then (False, w)
        else (True, w\<lparr>bw_backlog := bw_backlog w @ [ItemEvent e]\<rparr>)
      else if length (bw_events w) < bw_capacity w then (True, w\<lparr>bw_events := bw_events w @ [ItemEvent e]\<rparr>)
      else (True, w\<lparr>bw_backlog := bw_backlog w @ [ItemEvent e], bw_backlog_since := now\<rparr>))"

definition watcher_init :: "buffer_watcher \<Rightarrow> bool \<times> buffer_watcher" where
  "watcher_init w =
     (let w' = (if bw_init_once w then w
                else if length (bw_events w) < bw_capacity w
                then w\<lparr>bw_events := bw_events w @ [InitEvent], bw_init_ok := True, bw_init_once := True\<rparr>
                else w\<lparr>bw_init_ok := False, bw_init_once := True\<rparr>)
      in (bw_init_ok w', w'))"

definition close_watcher :: "buffer_watcher \<Rightarrow> buffer_watcher" where
  "close_watcher w = w\<lparr>bw_done := True\<rparr>"

text \<open>\<^verbatim>\<open>Events\<close> flushes and returns the channel, from which the client then receives.\<close>

definition watcher_events :: "buffer_watcher \<Rightarrow> buffer_watcher" where
  "watcher_events w = snd (flush_backlog w)"

section \<open>The tree of watchers\<close>

definition ids_at :: "'t radix \<Rightarrow> string \<Rightarrow> 't \<Rightarrow> nat list" where
  "ids_at R p t = (case rx_get R p t of None \<Rightarrow> [] | Some ws \<Rightarrow> ws)"

definition wt_add :: "'t radix \<Rightarrow> nat \<Rightarrow> key list \<Rightarrow> 't \<Rightarrow> 't" where
  "wt_add R w pfx = fold (\<lambda>p t. rx_insert R (key_string p) (ids_at R (key_string p) t @ [w]) t) pfx"

fun wt_rm :: "'t radix \<Rightarrow> nat \<Rightarrow> key list \<Rightarrow> bool \<times> 't \<Rightarrow> bool \<times> 't" where
  "wt_rm R w [] ft = ft"
| "wt_rm R w (p # ps) (found, t) =
     (case rx_get R (key_string p) t of
        None \<Rightarrow> wt_rm R w ps (found, t)
      | Some buffers \<Rightarrow>
          let buffers' = remove1 w buffers; found' = (found \<or> w \<in> set buffers) in
          wt_rm R w ps
            (found', if buffers' = [] then rx_delete R (key_string p) t
                     else if length buffers' \<noteq> length buffers then rx_insert R (key_string p) buffers' t
                     else t))"

section \<open>The buffer\<close>

abbreviation object_at :: "'t circular_buffer \<Rightarrow> nat \<Rightarrow> buffer_watcher" where
  "object_at B w \<equiv> cb_objects B ! w"

definition set_object :: "nat \<Rightarrow> buffer_watcher \<Rightarrow> 't circular_buffer \<Rightarrow> 't circular_buffer" where
  "set_object w x B = B\<lparr>cb_objects := (cb_objects B)[w := x]\<rparr>"

text \<open>Closing a watcher of the buffer and taking it out of the tree.\<close>

definition drop_watcher :: "'t radix \<Rightarrow> nat \<Rightarrow> 't circular_buffer \<Rightarrow> 't circular_buffer" where
  "drop_watcher R w B =
     (set_object w (close_watcher (object_at B w)) B)
       \<lparr>cb_watchers := snd (wt_rm R w (wa_prefixes (bw_watch (object_at B w))) (False, cb_watchers B))\<rparr>"

definition buffer_clear :: "'t radix \<Rightarrow> 't circular_buffer \<Rightarrow> 't circular_buffer" where
  "buffer_clear R B =
     (fold (\<lambda>w B. set_object w (close_watcher (object_at B w)) B) (concat (rx_walk R (cb_watchers B))) B)
       \<lparr>cb_watchers := rx_new R\<rparr>"

definition buffer_reset :: "'t radix \<Rightarrow> 't circular_buffer \<Rightarrow> 't circular_buffer" where
  "buffer_reset R B = (buffer_clear R B)\<lparr>cb_init := False\<rparr>"

definition buffer_close :: "'t radix \<Rightarrow> 't circular_buffer \<Rightarrow> 't circular_buffer" where
  "buffer_close R B = (buffer_clear R B)\<lparr>cb_closed := True\<rparr>"

text \<open>A walk that hands every watcher to a function and collects those for which it fails.\<close>

fun walk_watchers :: "(nat \<Rightarrow> buffer_watcher \<Rightarrow> bool \<times> buffer_watcher) \<Rightarrow> nat list \<Rightarrow> nat list \<Rightarrow> 't circular_buffer
    \<Rightarrow> nat list \<times> 't circular_buffer" where
  "walk_watchers f [] failed B = (failed, B)"
| "walk_watchers f (w # ws) failed B =
     (let (ok, x) = f w (object_at B w) in walk_watchers f ws (if ok then failed else failed @ [w]) (set_object w x B))"

definition buffer_set_init :: "'t radix \<Rightarrow> 't circular_buffer \<Rightarrow> 't circular_buffer" where
  "buffer_set_init R B =
     (if cb_init B then B
      else let (failed, B1) = walk_watchers (\<lambda>_. watcher_init) (concat (rx_walk R (cb_watchers B))) [] B in
        (fold (drop_watcher R) failed B1)\<lparr>cb_init := True\<rparr>)"

text \<open>Each watcher reads the clock for itself.\<close>

definition fan_out_event :: "'t radix \<Rightarrow> (nat \<Rightarrow> int) \<Rightarrow> event \<Rightarrow> 't circular_buffer \<Rightarrow> 't circular_buffer" where
  "fan_out_event R now r B =
     (let (failed, B1) = walk_watchers (\<lambda>w. watcher_emit (cb_cfg B) (now w) r)
            (concat (rx_walk_path R (key_string (it_key (ev_item r))) (cb_watchers B))) [] B in
      fold (drop_watcher R) failed B1)"

fun emit_all :: "'t radix \<Rightarrow> (nat \<Rightarrow> int) \<Rightarrow> event list \<Rightarrow> 't circular_buffer \<Rightarrow> 't circular_buffer option" where
  "emit_all R now [] B = Some B"
| "emit_all R now (r # rs) B = (if \<not> cb_init B then None else emit_all R now rs (fan_out_event R now r B))"

definition buffer_emit :: "'t radix \<Rightarrow> (nat \<Rightarrow> int) \<Rightarrow> event list \<Rightarrow> 't circular_buffer \<Rightarrow> (bool \<times> 't circular_buffer) option" where
  "buffer_emit R now events B =
     (if cb_closed B then Some (False, B) else map_option (Pair True) (emit_all R now events B))"

text \<open>The loop of \<^verbatim>\<open>RemoveRedundantPrefixes\<close> over the sorted keys. \<^verbatim>\<open>sort.Slice\<close> may put keys of the same text in
  another order; of those only one is kept, and only its text is looked at.\<close>

fun keep_shortest :: "key \<Rightarrow> key list \<Rightarrow> key list" where
  "keep_shortest cur [] = [cur]"
| "keep_shortest cur (p # ps) = (if key_has_prefix p cur then keep_shortest cur ps else cur # keep_shortest p ps)"

definition remove_redundant_prefixes :: "key list \<Rightarrow> key list" where
  "remove_redundant_prefixes pfx =
     (case sort_key key_s pfx of [] \<Rightarrow> [] | p # ps \<Rightarrow> keep_shortest p ps)"

definition new_watcher :: "'t radix \<Rightarrow> int \<Rightarrow> watch \<Rightarrow> 't circular_buffer \<Rightarrow> (nat result \<times> 't circular_buffer) option" where
  "new_watcher R now watch B =
     (if cb_closed B then Some (Inl (Err OtherError ''cannot register watcher, buffer is closed''), B)
      else let size = (if wa_queue_size watch = 0 then bc_capacity (cb_cfg B) else wa_queue_size watch);
               pfx = (if wa_prefixes watch = [] then [zero_key] else remove_redundant_prefixes (wa_prefixes watch));
               w = \<lparr>bw_watch = watch\<lparr>wa_queue_size := size, wa_prefixes := pfx\<rparr>, bw_events = [], bw_backlog = [],
                    bw_backlog_since = zero_time, bw_created = now, bw_done = False, bw_init_once = False, bw_init_ok = False,
                    bw_capacity = nat size\<rparr>
           in if size < 0 then None
              else let (ok, w') = (if cb_init B then watcher_init w else (True, w)) in
                if \<not> ok then Some (Inl (Err BadParameter ''failed to send init event''), B)
                else let a = length (cb_objects B) in
                  Some (Inr a, B\<lparr>cb_objects := cb_objects B @ [w'], cb_watchers := wt_add R a pfx (cb_watchers B)\<rparr>))"

definition remove_watcher_with_lock :: "'t radix \<Rightarrow> nat \<Rightarrow> 't circular_buffer \<Rightarrow> 't circular_buffer" where
  "remove_watcher_with_lock R w B =
     B\<lparr>cb_watchers := snd (wt_rm R w (wa_prefixes (bw_watch (object_at B w))) (False, cb_watchers B))\<rparr>"

text \<open>\<^verbatim>\<open>NewWatcher\<close> of the in-memory backend.\<close>

definition mem_new_watcher ::
  "'t radix \<Rightarrow> int \<Rightarrow> watch \<Rightarrow> memory \<Rightarrow> 't circular_buffer \<Rightarrow> (nat result \<times> 't circular_buffer) option" where
  "mem_new_watcher R now watch m B =
     (if mem_events_off m then Some (Inl (Err BadParameter ''events are turned off for this backend''), B)
      else new_watcher R now watch B)"

section \<open>Redundant prefixes\<close>

text \<open>Neither text begins with the other.\<close>

definition apart :: "key \<Rightarrow> key \<Rightarrow> bool" where
  "apart p q \<longleftrightarrow> \<not> starts_with (key_s p) (key_s q) \<and> \<not> starts_with (key_s q) (key_s p)"

lemma between_prefix: "a \<le> b \<Longrightarrow> b \<le> a @ c \<Longrightarrow> \<exists>u. b = a @ u" for a b c :: string
proof (induction a arbitrary: b)
  case (Cons x a)
  then show ?case by (cases b) auto
qed simp

lemma append_ge: "a \<le> a @ (c :: string)"
  by (induction a) auto

lemma starts_with_le: "starts_with a b \<Longrightarrow> a \<le> b"
  by (auto simp: go_strings append_ge)

lemma starts_with_between: "starts_with a c \<Longrightarrow> a \<le> b \<Longrightarrow> b \<le> c \<Longrightarrow> starts_with a b"
  by (auto simp: go_strings dest: between_prefix)

lemma starts_with_refl [simp]: "starts_with a a"
  by (simp add: go_strings)

lemma starts_with_trans: "starts_with a b \<Longrightarrow> starts_with b c \<Longrightarrow> starts_with a c"
  by (auto simp: go_strings)

lemma set_keep_shortest: "set (keep_shortest cur ps) \<subseteq> set (cur # ps)"
  by (induction cur ps rule: keep_shortest.induct) auto

lemma keep_shortest_covers: "\<forall>q \<in> set (cur # ps). \<exists>p \<in> set (keep_shortest cur ps). starts_with (key_s p) (key_s q)"
proof (induction cur ps rule: keep_shortest.induct)
  case (2 cur p ps)
  show ?case
  proof (cases "key_has_prefix p cur")
    case True
    from "2.IH"(1) [OF True] obtain r where "r \<in> set (keep_shortest cur ps)" "starts_with (key_s r) (key_s cur)" by auto
    moreover have "starts_with (key_s cur) (key_s p)" using True by (simp add: key_has_prefix_def)
    ultimately have "\<exists>r \<in> set (keep_shortest cur ps). starts_with (key_s r) (key_s p)" using starts_with_trans by blast
    with "2.IH"(1) [OF True] True show ?thesis by simp
  next
    case False
    with "2.IH"(2) [OF False] show ?thesis by auto
  qed
qed simp

lemma keep_shortest_apart: "sorted (map key_s (cur # ps)) \<Longrightarrow> sorted_wrt apart (keep_shortest cur ps)"
proof (induction cur ps rule: keep_shortest.induct)
  case (2 cur p ps)
  show ?case
  proof (cases "key_has_prefix p cur")
    case False
    have "apart cur q" if "q \<in> set (p # ps)" for q
    proof -
      have le: "key_s cur \<le> key_s p" "key_s p \<le> key_s q" using "2.prems" that by auto
      have n: "\<not> starts_with (key_s cur) (key_s q)"
        using starts_with_between [OF _ le] False by (auto simp: key_has_prefix_def)
      moreover have "\<not> starts_with (key_s q) (key_s cur)"
        using starts_with_le [of "key_s q" "key_s cur"] le n by (metis order.trans order.antisym starts_with_refl)
      ultimately show ?thesis by (simp add: apart_def)
    qed
    moreover have "sorted_wrt apart (keep_shortest p ps)" using "2.IH"(2) [OF False] "2.prems" by simp
    ultimately show ?thesis using False set_keep_shortest [of p ps] by auto
  qed (use 2 in auto)
qed simp

lemma sorted_apart: "sorted_wrt apart ps \<Longrightarrow> p \<in> set ps \<Longrightarrow> q \<in> set ps \<Longrightarrow> p \<noteq> q \<Longrightarrow> apart p q"
  by (induction ps) (auto simp: apart_def)

lemma redundant_removed:
  assumes "ps \<noteq> []"
  shows "sorted_wrt apart (remove_redundant_prefixes ps)" and "set (remove_redundant_prefixes ps) \<subseteq> set ps"
    and "(\<exists>p \<in> set (remove_redundant_prefixes ps). starts_with (key_s p) s) \<longleftrightarrow> (\<exists>p \<in> set ps. starts_with (key_s p) s)"
proof -
  obtain q qs where s: "sort_key key_s ps = q # qs" using assms by (metis list.exhaust sort_key_simps(1) sorted_sort_key set_sort set_empty)
  then have e: "remove_redundant_prefixes ps = keep_shortest q qs" "set ps = set (q # qs)"
    by (simp add: remove_redundant_prefixes_def, metis set_sort)
  show "sorted_wrt apart (remove_redundant_prefixes ps)"
    using keep_shortest_apart [of q qs] sorted_sort_key [of key_s ps] by (simp add: e s)
  show sub: "set (remove_redundant_prefixes ps) \<subseteq> set ps" using set_keep_shortest [of q qs] by (simp add: e)
  show "(\<exists>p \<in> set (remove_redundant_prefixes ps). starts_with (key_s p) s) \<longleftrightarrow> (\<exists>p \<in> set ps. starts_with (key_s p) s)"
    using keep_shortest_covers [of q qs] sub unfolding e by (meson starts_with_trans subsetD)
qed

section \<open>One watcher loses nothing\<close>

text \<open>What a watcher holds for its client, in the order in which the client will get it.\<close>

definition held :: "buffer_watcher \<Rightarrow> buffer_event list" where
  "held w = bw_events w @ bw_backlog w"

lemma flush_loop_spec:
  "flush_loop n ch es = (ch', rest) \<Longrightarrow> ch' @ rest = ch @ es \<and> (length ch \<le> n \<longrightarrow> length ch' \<le> n) \<and> (rest \<noteq> [] \<longrightarrow> es \<noteq> [])"
  by (induction n ch es rule: flush_loop.induct) (auto split: if_split_asm)

lemma flush_backlog_spec:
  assumes "flush_backlog w = (ok, w')"
  shows "held w' = held w" "ok \<longleftrightarrow> bw_backlog w' = []" "bw_watch w' = bw_watch w" "bw_init_once w' = bw_init_once w"
    "bw_backlog w' \<noteq> [] \<Longrightarrow> bw_backlog_since w' = bw_backlog_since w" "bw_created w' = bw_created w"
    "bw_init_ok w' = bw_init_ok w"
  using assms flush_loop_spec [of "bw_capacity w" "bw_events w" "bw_backlog w"]
  by (auto simp: flush_backlog_def held_def split: prod.split_asm list.split_asm)

lemma watcher_emit_spec:
  assumes "watcher_emit cfg now e w = (ok, w')"
  shows "held w' = held w @ (if ok then [ItemEvent e] else [])" "bw_watch w' = bw_watch w" "bw_init_once w' = bw_init_once w"
    "\<not> ok \<Longrightarrow> bw_backlog w' \<noteq> [] \<and> now > bw_backlog_since w + bc_grace_period cfg
       \<and> now > bw_created w + bc_creation_grace_period cfg"
proof -
  obtain f v where f: "flush_backlog w = (f, v)" by fastforce
  note s = flush_backlog_spec [OF f]
  show "held w' = held w @ (if ok then [ItemEvent e] else [])" "bw_watch w' = bw_watch w" "bw_init_once w' = bw_init_once w"
    "\<not> ok \<Longrightarrow> bw_backlog w' \<noteq> [] \<and> now > bw_backlog_since w + bc_grace_period cfg
       \<and> now > bw_created w + bc_creation_grace_period cfg"
    using assms s f by (auto simp: watcher_emit_def held_def split: if_split_asm)
qed

lemma watcher_init_spec:
  assumes "watcher_init w = (ok, w')"
  shows "bw_init_once w \<Longrightarrow> w' = w" "\<not> bw_init_once w \<Longrightarrow> ok \<Longrightarrow> bw_backlog w = [] \<Longrightarrow> held w' = held w @ [InitEvent]"
    "\<not> bw_init_once w \<Longrightarrow> \<not> ok \<Longrightarrow> held w' = held w" "bw_init_once w'" "bw_watch w' = bw_watch w" "bw_init_ok w' = ok"
    "bw_backlog w' = bw_backlog w"
  using assms by (auto simp: watcher_init_def held_def Let_def split: if_split_asm)

section \<open>The tree of watchers, laws\<close>

text \<open>
  What the documentation of go-radix promises: a map from texts, whose \<^verbatim>\<open>WalkPath\<close> visits the entries on the path from the
  root to the given text, which are those whose key is a prefix of it, and whose \<^verbatim>\<open>Walk\<close> visits every entry.
\<close>

locale radix_tree =
  fixes R :: "'t radix"
  assumes get_new: "rx_get R p (rx_new R) = None"
    and get_insert: "rx_get R p (rx_insert R q ws t) = (if p = q then Some ws else rx_get R p t)"
    and get_delete: "rx_get R p (rx_delete R q t) = (if p = q then None else rx_get R p t)"
    and walk_path: "rx_walk_path R s t = List.map_filter (\<lambda>n. rx_get R (take n s) t) [0..<Suc (length s)]"
    and walk: "set (rx_walk R t) = ran (\<lambda>p. rx_get R p t)"
begin

lemma ids_new [simp]: "ids_at R p (rx_new R) = []"
  by (simp add: ids_at_def get_new)

lemma ids_insert [simp]: "ids_at R p (rx_insert R q ws t) = (if p = q then ws else ids_at R p t)"
  by (simp add: ids_at_def get_insert)

lemma ids_delete [simp]: "ids_at R p (rx_delete R q t) = (if p = q then [] else ids_at R p t)"
  by (simp add: ids_at_def get_delete)

lemma path_ids: "concat (rx_walk_path R s t) = concat (map (\<lambda>n. ids_at R (take n s) t) [0..<Suc (length s)])"
proof -
  have "concat (List.map_filter (\<lambda>n. rx_get R (take n s) t) ns) = concat (map (\<lambda>n. ids_at R (take n s) t) ns)" for ns
    by (induction ns) (auto simp: List.map_filter_simps ids_at_def split: option.split)
  then show ?thesis by (simp add: walk_path)
qed

lemma walk_ids: "set (concat (rx_walk R t)) = {w. \<exists>p. w \<in> set (ids_at R p t)}"
  by (auto simp: walk ran_def ids_at_def split: option.splits) (metis, force split: option.splits)

lemma ids_add:
  "sorted_wrt (\<lambda>p q. key_string p \<noteq> key_string q) ps \<Longrightarrow>
     ids_at R s (wt_add R w ps t) = ids_at R s t @ (if s \<in> key_string ` set ps then [w] else [])"
proof (induction ps arbitrary: t)
  case (Cons p ps)
  then have "key_string p \<notin> key_string ` set ps" by auto
  with Cons show ?case by (auto simp: wt_add_def)
qed (simp add: wt_add_def)

lemma ids_rm_one:
  "ids_at R s (snd (wt_rm R w [p] (found, t))) = (if s = key_string p then remove1 w (ids_at R s t) else ids_at R s t)"
proof -
  have "length (remove1 w ws) = length ws \<longleftrightarrow> w \<notin> set ws" for ws :: "nat list"
    by (metis One_nat_def Suc_pred length_pos_if_in_set length_remove1 n_not_Suc_n)
  then show ?thesis
    by (cases "rx_get R (key_string p) t") (auto simp: Let_def ids_at_def get_insert get_delete remove1_idem)
qed

lemma wt_rm_Cons: "wt_rm R w (p # ps) ft = wt_rm R w ps (wt_rm R w [p] ft)"
  by (cases ft) (auto simp: Let_def split: option.split)

lemma ids_rm:
  "distinct (ids_at R s t) \<Longrightarrow> set (ids_at R s (snd (wt_rm R w ps (found, t)))) =
     set (ids_at R s t) - (if s \<in> key_string ` set ps then {w} else {})
   \<and> distinct (ids_at R s (snd (wt_rm R w ps (found, t))))"
proof (induction ps arbitrary: found t)
  case (Cons p ps)
  obtain f t' where ft: "wt_rm R w [p] (found, t) = (f, t')" by fastforce
  then have i: "ids_at R s t' = (if s = key_string p then remove1 w (ids_at R s t) else ids_at R s t)"
    using ids_rm_one [of s w p found t] by simp
  with Cons.prems have "distinct (ids_at R s t')" by (auto simp: distinct_remove1)
  from Cons.IH [OF this, of f] i Cons.prems show ?case by (auto simp: wt_rm_Cons [of w p ps] ft simp del: wt_rm.simps)
qed simp

end

section \<open>The buffer, well-formed\<close>

definition registered :: "'t radix \<Rightarrow> 't circular_buffer \<Rightarrow> nat \<Rightarrow> bool" where
  "registered R B w \<longleftrightarrow> (\<exists>p. w \<in> set (ids_at R p (cb_watchers B)))"

definition texts :: "buffer_watcher \<Rightarrow> string set" where
  "texts x = key_string ` set (wa_prefixes (bw_watch x))"

definition good_prefixes :: "buffer_watcher \<Rightarrow> bool" where
  "good_prefixes x \<longleftrightarrow> sorted_wrt apart (wa_prefixes (bw_watch x))
     \<and> (\<forall>p \<in> set (wa_prefixes (bw_watch x)). key_string p = key_s p)"

lemma text_prefix: "good_prefixes x \<Longrightarrow> s \<in> texts x \<Longrightarrow> \<exists>p \<in> set (wa_prefixes (bw_watch x)). key_s p = s"
  by (auto simp: good_prefixes_def texts_def)

text \<open>A watcher is in the tree under all of its prefixes, once each, or under none.\<close>

definition tree_ok :: "'t radix \<Rightarrow> 't circular_buffer \<Rightarrow> bool" where
  "tree_ok R B \<longleftrightarrow> (\<forall>p. distinct (ids_at R p (cb_watchers B)))
     \<and> (\<forall>p. \<forall>w \<in> set (ids_at R p (cb_watchers B)). w < length (cb_objects B) \<and> p \<in> texts (object_at B w))
     \<and> (\<forall>w. registered R B w \<longrightarrow> (\<forall>p \<in> texts (object_at B w). w \<in> set (ids_at R p (cb_watchers B))))
     \<and> (\<forall>w < length (cb_objects B). good_prefixes (object_at B w))"

lemma registered_bound: "tree_ok R B \<Longrightarrow> registered R B w \<Longrightarrow> w < length (cb_objects B)"
  unfolding tree_ok_def registered_def by blast

lemma set_object_simps [simp]:
  "cb_watchers (set_object w x B) = cb_watchers B" "cb_cfg (set_object w x B) = cb_cfg B" "cb_init (set_object w x B) = cb_init B"
  "cb_closed (set_object w x B) = cb_closed B" "length (cb_objects (set_object w x B)) = length (cb_objects B)"
  "w < length (cb_objects B) \<Longrightarrow> object_at (set_object w x B) v = (if v = w then x else object_at B v)"
  by (simp_all add: set_object_def nth_list_update)

lemma flags_irrelevant [simp]:
  "registered R (B\<lparr>cb_init := b\<rparr>) = registered R B" "registered R (B\<lparr>cb_closed := b\<rparr>) = registered R B"
  "tree_ok R (B\<lparr>cb_init := b\<rparr>) = tree_ok R B" "tree_ok R (B\<lparr>cb_closed := b\<rparr>) = tree_ok R B"
  unfolding tree_ok_def registered_def [abs_def] by simp_all

text \<open>Two buffers with the same watches in the same tree.\<close>

definition same_watches :: "'t circular_buffer \<Rightarrow> 't circular_buffer \<Rightarrow> bool" where
  "same_watches B B' \<longleftrightarrow> length (cb_objects B') = length (cb_objects B) \<and> cb_watchers B' = cb_watchers B
     \<and> (\<forall>w < length (cb_objects B). bw_watch (object_at B' w) = bw_watch (object_at B w))"

lemma same_watches_ok: "same_watches B B' \<Longrightarrow> tree_ok R B \<Longrightarrow> tree_ok R B' \<and> registered R B' = registered R B"
proof -
  assume s: "same_watches B B'" and ok: "tree_ok R B"
  have r: "registered R B' = registered R B" using s by (simp add: same_watches_def registered_def fun_eq_iff)
  have "texts (object_at B' w) = texts (object_at B w)" "good_prefixes (object_at B' w) = good_prefixes (object_at B w)"
    if "w < length (cb_objects B)" for w using s that by (simp_all add: same_watches_def texts_def good_prefixes_def)
  then show ?thesis using s ok r registered_bound [OF ok] by (simp add: tree_ok_def same_watches_def)
qed

lemma walk_watchers_spec:
  assumes "walk_watchers f ws failed B = (failed', B')" and "\<forall>w \<in> set ws. w < length (cb_objects B)"
    and "distinct ws \<or> (\<forall>w x. f w (snd (f w x)) = f w x)"
  shows "set failed' = set failed \<union> {w \<in> set ws. \<not> fst (f w (object_at B w))}
    \<and> cb_watchers B' = cb_watchers B \<and> cb_cfg B' = cb_cfg B \<and> cb_init B' = cb_init B \<and> cb_closed B' = cb_closed B
    \<and> length (cb_objects B') = length (cb_objects B)
    \<and> (\<forall>v. object_at B' v = (if v \<in> set ws then snd (f v (object_at B v)) else object_at B v))"
  using assms
proof (induction ws arbitrary: failed B)
  case (Cons w ws)
  obtain ok x where f: "f w (object_at B w) = (ok, x)" by fastforce
  let ?B = "set_object w x B"
  from Cons.prems(1) have s: "walk_watchers f ws (if ok then failed else failed @ [w]) ?B = (failed', B')" by (simp add: f)
  have o: "object_at ?B v = (if v = w then x else object_at B v)" for v using Cons.prems(2) by simp
  have fx: "f w x = (ok, x)" if "w \<in> set ws"
    using Cons.prems(3) that f by (metis distinct.simps(2) snd_conv)
  from Cons.IH [OF s] Cons.prems(2,3) have IH: "set failed' = set (if ok then failed else failed @ [w]) \<union> {v \<in> set ws. \<not> fst (f v (object_at ?B v))}"
    "cb_watchers B' = cb_watchers B" "cb_cfg B' = cb_cfg B" "cb_init B' = cb_init B" "cb_closed B' = cb_closed B"
    "length (cb_objects B') = length (cb_objects B)"
    "\<forall>v. object_at B' v = (if v \<in> set ws then snd (f v (object_at ?B v)) else object_at ?B v)" by auto
  have "set failed' = set failed \<union> {v \<in> set (w # ws). \<not> fst (f v (object_at B v))}"
    unfolding IH(1) o using f fx by (auto split: if_split_asm)
  moreover have "object_at B' v = (if v \<in> set (w # ws) then snd (f v (object_at B v)) else object_at B v)" for v
    using IH(7) f fx by (auto simp: o)
  ultimately show ?case using IH by simp
qed simp

context radix_tree
begin

lemma drop_watcher_spec:
  assumes "tree_ok R B" and "w < length (cb_objects B)"
  shows "tree_ok R (drop_watcher R w B)" and "registered R (drop_watcher R w B) v \<longleftrightarrow> registered R B v \<and> v \<noteq> w"
    and "length (cb_objects (drop_watcher R w B)) = length (cb_objects B)"
    and "object_at (drop_watcher R w B) v = (if v = w then close_watcher (object_at B v) else object_at B v)"
proof -
  let ?B = "drop_watcher R w B"
  have i: "set (ids_at R p (cb_watchers ?B)) = set (ids_at R p (cb_watchers B)) - {w} \<and> distinct (ids_at R p (cb_watchers ?B))" for p
    using ids_rm [of p "cb_watchers B" w "wa_prefixes (bw_watch (object_at B w))" False] assms(1)
    by (auto simp: drop_watcher_def tree_ok_def texts_def split: if_split_asm)
  then show r: "registered R ?B v \<longleftrightarrow> registered R B v \<and> v \<noteq> w" for v by (auto simp: registered_def)
  show l: "length (cb_objects ?B) = length (cb_objects B)" by (simp add: drop_watcher_def)
  show o: "object_at ?B v = (if v = w then close_watcher (object_at B v) else object_at B v)" for v
    using assms(2) by (simp add: drop_watcher_def)
  have "texts (object_at ?B v) = texts (object_at B v)" "good_prefixes (object_at ?B v) = good_prefixes (object_at B v)" for v
    by (simp_all add: o texts_def good_prefixes_def close_watcher_def)
  then show "tree_ok R ?B" using assms(1) unfolding tree_ok_def r l by (auto simp: i)
qed

lemma drop_watchers_spec:
  assumes "tree_ok R B" and "\<forall>w \<in> set ws. w < length (cb_objects B)"
  shows "tree_ok R (fold (drop_watcher R) ws B) \<and> (\<forall>v. registered R (fold (drop_watcher R) ws B) v \<longleftrightarrow> registered R B v \<and> v \<notin> set ws)
    \<and> length (cb_objects (fold (drop_watcher R) ws B)) = length (cb_objects B)
    \<and> (\<forall>v. object_at (fold (drop_watcher R) ws B) v = (if v \<in> set ws then close_watcher (object_at B v) else object_at B v))"
  using assms
proof (induction ws arbitrary: B)
  case (Cons w ws)
  note d = drop_watcher_spec [of B w]
  from Cons.IH [of "drop_watcher R w B"] Cons.prems d show ?case by (auto simp: close_watcher_def)
qed simp

lemma path_recipients:
  assumes "tree_ok R B"
  shows "distinct (concat (rx_walk_path R s (cb_watchers B)))"
    and "set (concat (rx_walk_path R s (cb_watchers B))) = {w. registered R B w \<and>
      (\<exists>p \<in> set (wa_prefixes (bw_watch (object_at B w))). starts_with (key_s p) s)}"
proof -
  let ?f = "\<lambda>n. ids_at R (take n s) (cb_watchers B)"
  have d: "distinct (concat (map g ns))" if "distinct ns" "\<forall>n \<in> set ns. distinct (g n)"
    "\<forall>n \<in> set ns. \<forall>m \<in> set ns. n \<noteq> m \<longrightarrow> set (g n) \<inter> set (g m) = {}" for g :: "nat \<Rightarrow> nat list" and ns
    using that by (induction ns) auto
  have at: "take n s \<in> texts (object_at B w) \<and> w < length (cb_objects B)" if "w \<in> set (?f n)" for w n
    using assms that unfolding tree_ok_def by blast
  have good: "good_prefixes (object_at B w)" if "w \<in> set (?f n)" for w n
    using assms at [OF that] unfolding tree_ok_def by blast
  have "set (?f n) \<inter> set (?f m) = {}" if "n < m" "m \<le> length s" for n m
  proof (rule ccontr)
    assume "set (?f n) \<inter> set (?f m) \<noteq> {}"
    then obtain w where w: "w \<in> set (?f n)" "w \<in> set (?f m)" by blast
    obtain p q where pq: "p \<in> set (wa_prefixes (bw_watch (object_at B w)))"
      "q \<in> set (wa_prefixes (bw_watch (object_at B w)))" "key_s p = take n s" "key_s q = take m s"
      using text_prefix [OF good [OF w(1)]] at [OF w(1)] at [OF w(2)] by blast
    have "length (key_s p) \<noteq> length (key_s q)" using that by (simp add: pq)
    then have "apart p q" using sorted_apart [of _ p q] pq(1,2) good [OF w(1)] unfolding good_prefixes_def by blast
    moreover have "starts_with (key_s p) (key_s q)" using that by (auto simp: pq starts_with_def min_def)
    ultimately show False by (simp add: apart_def)
  qed
  note less = this
  have "set (?f n) \<inter> set (?f m) = {}" if "n \<noteq> m" "n \<le> length s" "m \<le> length s" for n m
    using less [of n m] less [of m n] that by (cases "n < m") (auto simp: not_less)
  moreover have "distinct (?f n)" for n using assms unfolding tree_ok_def by blast
  ultimately show "distinct (concat (rx_walk_path R s (cb_watchers B)))"
    unfolding path_ids by (intro d) (simp_all add: less_Suc_eq_le del: upt_Suc)
  show "set (concat (rx_walk_path R s (cb_watchers B))) = {w. registered R B w \<and>
      (\<exists>p \<in> set (wa_prefixes (bw_watch (object_at B w))). starts_with (key_s p) s)}"
  proof (intro set_eqI iffI)
    fix w assume "w \<in> set (concat (rx_walk_path R s (cb_watchers B)))"
    then obtain n where n: "w \<in> set (?f n)" unfolding path_ids by (auto simp del: upt_Suc)
    obtain p where "p \<in> set (wa_prefixes (bw_watch (object_at B w)))" "key_s p = take n s"
      using text_prefix [OF good [OF n]] at [OF n] by blast
    with n show "w \<in> {w. registered R B w \<and> (\<exists>p \<in> set (wa_prefixes (bw_watch (object_at B w))). starts_with (key_s p) s)}"
      by (auto simp: registered_def starts_with_iff intro!: bexI [of _ p]) (metis append_take_drop_id)
  next
    fix w assume "w \<in> {w. registered R B w \<and> (\<exists>p \<in> set (wa_prefixes (bw_watch (object_at B w))). starts_with (key_s p) s)}"
    then obtain p where p: "registered R B w" "p \<in> set (wa_prefixes (bw_watch (object_at B w)))" "starts_with (key_s p) s" by auto
    have "key_string p = key_s p" using assms registered_bound [OF assms p(1)] p(2) by (simp add: tree_ok_def good_prefixes_def)
    with p have "key_s p \<in> texts (object_at B w)" by (force simp: texts_def)
    then have "w \<in> set (ids_at R (key_s p) (cb_watchers B))" using assms p(1) by (simp add: tree_ok_def)
    moreover have "key_s p = take (length (key_s p)) s" "length (key_s p) \<le> length s"
      using p(3) by (auto simp: starts_with_def) (metis length_take min.cobounded1)
    ultimately show "w \<in> set (concat (rx_walk_path R s (cb_watchers B)))" unfolding path_ids
      by (auto simp del: upt_Suc intro!: bexI [of _ "length (key_s p)"])
  qed
qed

end

section \<open>Runs of the buffer\<close>

text \<open>The buffer with what cannot be seen in it: every event emitted so far, and for each watcher what its client has
  received, how many events had been emitted when it was registered, and the prefixes the client asked for.\<close>

record 't watch_log =
  wl_buffer :: "'t circular_buffer"
  wl_emitted :: "event list"
  wl_got :: "nat \<Rightarrow> buffer_event list"
  wl_from :: "nat \<Rightarrow> nat"
  wl_asked :: "nat \<Rightarrow> key list"

definition start_log :: "'t radix \<Rightarrow> buffer_option list \<Rightarrow> 't watch_log" where
  "start_log R opts = \<lparr>wl_buffer = new_circular_buffer R opts, wl_emitted = [], wl_got = (\<lambda>_. []), wl_from = (\<lambda>_. 0),
     wl_asked = (\<lambda>_. [])\<rparr>"

text \<open>Clients flush and receive, close and cancel their watchers; the removal after a close comes later, by itself.\<close>

inductive buffer_step :: "'t radix \<Rightarrow> 't watch_log \<Rightarrow> 't watch_log \<Rightarrow> bool" for R where
  set_init: "buffer_step R S (S\<lparr>wl_buffer := buffer_set_init R (wl_buffer S)\<rparr>)"
| emit: "buffer_emit R now [ev] (wl_buffer S) = Some (ok, B) \<Longrightarrow>
    buffer_step R S (S\<lparr>wl_buffer := B, wl_emitted := wl_emitted S @ (if ok then [ev] else [])\<rparr>)"
| register: "new_watcher R t watch (wl_buffer S) = Some (Inr w, B) \<Longrightarrow> \<forall>p \<in> set (wa_prefixes watch). key_string p = key_s p \<Longrightarrow>
    buffer_step R S (S\<lparr>wl_buffer := B, wl_from := (wl_from S)(w := length (wl_emitted S)), wl_got := (wl_got S)(w := []),
      wl_asked := (wl_asked S)(w := wa_prefixes watch)\<rparr>)"
| refuse: "new_watcher R t watch (wl_buffer S) = Some (Inl e, B) \<Longrightarrow> buffer_step R S (S\<lparr>wl_buffer := B\<rparr>)"
| events: "w < length (cb_objects (wl_buffer S)) \<Longrightarrow>
    buffer_step R S (S\<lparr>wl_buffer := set_object w (watcher_events (object_at (wl_buffer S) w)) (wl_buffer S)\<rparr>)"
| receive: "w < length (cb_objects (wl_buffer S)) \<Longrightarrow> bw_events (object_at (wl_buffer S) w) = e # es \<Longrightarrow>
    buffer_step R S (S\<lparr>wl_buffer := set_object w ((object_at (wl_buffer S) w)\<lparr>bw_events := es\<rparr>) (wl_buffer S),
      wl_got := (wl_got S)(w := wl_got S w @ [e])\<rparr>)"
| close_one: "w < length (cb_objects (wl_buffer S)) \<Longrightarrow>
    buffer_step R S (S\<lparr>wl_buffer := set_object w (close_watcher (object_at (wl_buffer S) w)) (wl_buffer S)\<rparr>)"
| remove: "w < length (cb_objects (wl_buffer S)) \<Longrightarrow>
    buffer_step R S (S\<lparr>wl_buffer := remove_watcher_with_lock R w (wl_buffer S)\<rparr>)"
| clear: "buffer_step R S (S\<lparr>wl_buffer := buffer_clear R (wl_buffer S)\<rparr>)"
| reset: "buffer_step R S (S\<lparr>wl_buffer := buffer_reset R (wl_buffer S)\<rparr>)"
| close: "buffer_step R S (S\<lparr>wl_buffer := buffer_close R (wl_buffer S)\<rparr>)"

definition wanted :: "key list \<Rightarrow> event \<Rightarrow> bool" where
  "wanted ps ev \<longleftrightarrow> ps = [] \<or> (\<exists>p \<in> set ps. starts_with (key_s p) (key_string (it_key (ev_item ev))))"

text \<open>What the client of a watcher is to receive, and what it has received or will.\<close>

definition due :: "'t watch_log \<Rightarrow> nat \<Rightarrow> buffer_event list" where
  "due S w = InitEvent # map ItemEvent (filter (wanted (wl_asked S w)) (drop (wl_from S w) (wl_emitted S)))"

definition stream :: "'t watch_log \<Rightarrow> nat \<Rightarrow> buffer_event list" where
  "stream S w = wl_got S w @ held (object_at (wl_buffer S) w)"

definition watcher_inv :: "'t radix \<Rightarrow> 't watch_log \<Rightarrow> nat \<Rightarrow> bool" where
  "watcher_inv R S w \<longleftrightarrow> wl_from S w \<le> length (wl_emitted S)
     \<and> (\<forall>ev. wanted (wl_asked S w) ev \<longleftrightarrow> (\<exists>p \<in> set (wa_prefixes (bw_watch (object_at (wl_buffer S) w))).
           starts_with (key_s p) (key_string (it_key (ev_item ev)))))
     \<and> prefix (stream S w) (due S w)
     \<and> (registered R (wl_buffer S) w \<longrightarrow>
          (if cb_init (wl_buffer S) then stream S w = due S w
           else stream S w = [] \<and> \<not> bw_init_once (object_at (wl_buffer S) w) \<and> wl_from S w = length (wl_emitted S)))"

definition watch_inv :: "'t radix \<Rightarrow> 't watch_log \<Rightarrow> bool" where
  "watch_inv R S \<longleftrightarrow> tree_ok R (wl_buffer S) \<and> (\<forall>w < length (cb_objects (wl_buffer S)). watcher_inv R S w)"

text \<open>A step that adds no watcher keeps the invariant of a watcher when it changes neither its stream nor its watch,
  and leaves it unregistered if it was.\<close>

lemma quiet_step:
  assumes "watcher_inv R S w" and "wl_emitted S' = wl_emitted S" and "wl_from S' = wl_from S" and "wl_asked S' = wl_asked S"
    and "stream S' w = stream S w" and "bw_watch (object_at (wl_buffer S') w) = bw_watch (object_at (wl_buffer S) w)"
    and "registered R (wl_buffer S') w \<Longrightarrow> registered R (wl_buffer S) w \<and> cb_init (wl_buffer S') = cb_init (wl_buffer S)
      \<and> bw_init_once (object_at (wl_buffer S') w) = bw_init_once (object_at (wl_buffer S) w)"
  shows "watcher_inv R S' w"
  using assms by (auto simp: watcher_inv_def due_def)

lemma close_watcher_simps [simp]:
  "held (close_watcher x) = held x" "bw_watch (close_watcher x) = bw_watch x" "bw_init_once (close_watcher x) = bw_init_once x"
  by (simp_all add: close_watcher_def held_def)

lemma drop_watchers_frame [simp]:
  "cb_init (fold (drop_watcher R) ws B) = cb_init B" "cb_cfg (fold (drop_watcher R) ws B) = cb_cfg B"
  "cb_closed (fold (drop_watcher R) ws B) = cb_closed B"
  by (induction ws arbitrary: B) (simp_all add: drop_watcher_def)

lemma due_emit:
  "wl_from S w \<le> length (wl_emitted S) \<Longrightarrow> due (S\<lparr>wl_buffer := B, wl_emitted := wl_emitted S @ [ev]\<rparr>) w =
     due S w @ (if wanted (wl_asked S w) ev then [ItemEvent ev] else [])"
  by (simp add: due_def)

lemma due_buffer [simp]: "due (S\<lparr>wl_buffer := B\<rparr>) w = due S w"
  by (simp add: due_def)

context radix_tree
begin

text \<open>A walk over watchers of the tree, after which those for which it failed are dropped.\<close>

lemma walk_drop_spec:
  assumes "tree_ok R B" and "walk_watchers f ids [] B = (failed, B1)" and "\<forall>w \<in> set ids. registered R B w"
    and "distinct ids \<or> (\<forall>w x. f w (snd (f w x)) = f w x)" and "\<And>w x. bw_watch (snd (f w x)) = bw_watch x"
  defines "B' \<equiv> fold (drop_watcher R) failed B1" and "bad \<equiv> {w \<in> set ids. \<not> fst (f w (object_at B w))}"
  shows "tree_ok R B'" and "registered R B' v \<longleftrightarrow> registered R B v \<and> v \<notin> bad"
    and "length (cb_objects B') = length (cb_objects B)" and "cb_init B' = cb_init B"
    and "held (object_at B' v) = held (if v \<in> set ids then snd (f v (object_at B v)) else object_at B v)"
    and "bw_watch (object_at B' v) = bw_watch (object_at B v)"
proof -
  have b: "\<forall>w \<in> set ids. w < length (cb_objects B)" using assms(3) registered_bound [OF assms(1)] by auto
  note w1 = walk_watchers_spec [OF assms(2) b assms(4)]
  then have "same_watches B B1" using assms(5) by (simp add: same_watches_def)
  note s1 = same_watches_ok [OF this assms(1)]
  have "\<forall>w \<in> set failed. w < length (cb_objects B1)" using w1 b by auto
  note d = drop_watchers_spec [OF conjunct1 [OF s1] this, folded B'_def]
  show "tree_ok R B'" "length (cb_objects B') = length (cb_objects B)" "registered R B' v \<longleftrightarrow> registered R B v \<and> v \<notin> bad"
    using d s1 w1 by (simp_all add: bad_def)
  show "cb_init B' = cb_init B" using w1 by (simp add: B'_def)
  show "held (object_at B' v) = held (if v \<in> set ids then snd (f v (object_at B v)) else object_at B v)"
    "bw_watch (object_at B' v) = bw_watch (object_at B v)"
    using d w1 assms(5) by simp_all
qed

lemma fan_out_inv:
  assumes "watch_inv R S" and "cb_init (wl_buffer S)"
  shows "watch_inv R (S\<lparr>wl_buffer := fan_out_event R now ev (wl_buffer S), wl_emitted := wl_emitted S @ [ev]\<rparr>)"
proof -
  define B where "B = wl_buffer S"
  define f where "f = (\<lambda>w. watcher_emit (cb_cfg B) (now w) ev)"
  define ids where "ids = concat (rx_walk_path R (key_string (it_key (ev_item ev))) (cb_watchers B))"
  obtain failed B1 where wk: "walk_watchers f ids [] B = (failed, B1)" by fastforce
  define B' where "B' = fold (drop_watcher R) failed B1"
  let ?S = "S\<lparr>wl_buffer := B', wl_emitted := wl_emitted S @ [ev]\<rparr>"
  have ok: "tree_ok R B" using assms(1) by (simp add: watch_inv_def B_def)
  note idr = path_recipients [OF ok, of "key_string (it_key (ev_item ev))", folded ids_def]
  have fx: "held (snd (f w x)) = held x @ (if fst (f w x) then [ItemEvent ev] else [])" "bw_watch (snd (f w x)) = bw_watch x" for w x
    using watcher_emit_spec(1,2) [OF surjective_pairing] by (simp_all add: f_def)
  have "\<forall>w \<in> set ids. registered R B w" using idr(2) by auto
  note d = walk_drop_spec [OF ok wk this disjI1 [OF idr(1)] fx(2), folded B'_def]
  have e: "fan_out_event R now ev (wl_buffer S) = B'"
    using wk by (simp add: fan_out_event_def B'_def ids_def f_def B_def)
  have "watcher_inv R ?S w" if "w < length (cb_objects B)" for w
  proof -
    have i: "watcher_inv R S w" using assms(1) that by (simp add: watch_inv_def B_def)
    have r: "w \<in> set ids \<longleftrightarrow> registered R B w \<and> wanted (wl_asked S w) ev" using i idr(2) by (auto simp: watcher_inv_def B_def)
    have du: "due ?S w = due S w @ (if wanted (wl_asked S w) ev then [ItemEvent ev] else [])"
      using i by (intro due_emit) (simp add: watcher_inv_def)
    have st: "stream ?S w = stream S w @ (if w \<in> set ids \<and> fst (f w (object_at B w)) then [ItemEvent ev] else [])"
      by (auto simp: stream_def d(5) fx B_def)
    have "prefix (stream ?S w) (due ?S w) \<and> (registered R B' w \<longrightarrow> stream ?S w = due ?S w)"
      using i assms(2) unfolding du st d(2) by (auto simp: watcher_inv_def B_def r)
    then show ?thesis using i assms(2) d(4,6) by (simp add: watcher_inv_def B_def)
  qed
  with d show ?thesis by (simp add: watch_inv_def e)
qed

lemma set_init_inv:
  assumes "watch_inv R S" shows "watch_inv R (S\<lparr>wl_buffer := buffer_set_init R (wl_buffer S)\<rparr>)"
proof (cases "cb_init (wl_buffer S)")
  case False
  define B where "B = wl_buffer S"
  define ids where "ids = concat (rx_walk R (cb_watchers B))"
  obtain failed B1 where wk: "walk_watchers (\<lambda>_. watcher_init) ids [] B = (failed, B1)" by fastforce
  define B' where "B' = fold (drop_watcher R) failed B1"
  let ?S = "S\<lparr>wl_buffer := B'\<lparr>cb_init := True\<rparr>\<rparr>"
  have ok: "tree_ok R B" using assms by (simp add: watch_inv_def B_def)
  have ids: "set ids = {w. registered R B w}" unfolding ids_def walk_ids registered_def by simp
  note init = watcher_init_spec [OF surjective_pairing]
  have idem: "watcher_init (snd (watcher_init x)) = watcher_init x" for x by (simp add: watcher_init_def Let_def)
  have "\<forall>w \<in> set ids. registered R B w" using ids by simp
  note d = walk_drop_spec [OF ok wk this disjI2, OF _ init(5), folded B'_def, simplified idem, simplified]
  have e: "buffer_set_init R (wl_buffer S) = B'\<lparr>cb_init := True\<rparr>"
    using wk False by (simp add: buffer_set_init_def B'_def ids_def B_def)
  have "watcher_inv R ?S w" if "w < length (cb_objects B)" for w
  proof -
    have i: "watcher_inv R S w" using assms that by (simp add: watch_inv_def B_def)
    have x: "wl_got S w = []" "held (object_at B w) = []" "\<not> bw_init_once (object_at B w)" "due S w = [InitEvent]"
      "bw_backlog (object_at B w) = []" if "registered R B w"
      using i False that by (auto simp: watcher_inv_def B_def stream_def due_def held_def)
    then have "stream ?S w = (if registered R B' w then [InitEvent] else stream S w)"
      using init(2,3) [of "object_at B w"] by (auto simp: stream_def d(2,5) ids B_def)
    moreover have "registered R B' w \<Longrightarrow> registered R B w" by (simp add: d(2))
    ultimately show ?thesis using i x d(6) by (simp add: watcher_inv_def B_def split: if_split_asm)
  qed
  with d(1,3) show ?thesis by (simp add: watch_inv_def e B_def)
qed (use assms in \<open>simp add: buffer_set_init_def\<close>)

lemma new_watcher_Inr:
  assumes "new_watcher R t watch B = Some (Inr w, B')"
  obtains x where "w = length (cb_objects B)"
    and "B' = B\<lparr>cb_objects := cb_objects B @ [x], cb_watchers := wt_add R w (wa_prefixes (bw_watch x)) (cb_watchers B)\<rparr>"
    and "wa_prefixes (bw_watch x) = (if wa_prefixes watch = [] then [zero_key] else remove_redundant_prefixes (wa_prefixes watch))"
    and "held x = (if cb_init B then [InitEvent] else [])" and "bw_init_once x = cb_init B"
  using assms by (auto simp: new_watcher_def watcher_init_def held_def Let_def split: if_split_asm prod.split_asm)

lemma asked_prefixes:
  fixes watch :: watch
  assumes "\<forall>p \<in> set (wa_prefixes watch). key_string p = key_s p"
  defines "ps \<equiv> if wa_prefixes watch = [] then [zero_key] else remove_redundant_prefixes (wa_prefixes watch)"
  shows "sorted_wrt apart ps" "\<forall>p \<in> set ps. key_string p = key_s p"
    "wanted (wa_prefixes watch) ev \<longleftrightarrow> (\<exists>p \<in> set ps. starts_with (key_s p) (key_string (it_key (ev_item ev))))"
  using redundant_removed [of "wa_prefixes watch"] assms
  by (auto simp: wanted_def zero_key_def key_string_def starts_with_def split: if_split_asm)

lemma register_inv:
  assumes "watch_inv R S" and "new_watcher R t watch (wl_buffer S) = Some (Inr w, B')"
    and "\<forall>p \<in> set (wa_prefixes watch). key_string p = key_s p"
  shows "watch_inv R (S\<lparr>wl_buffer := B', wl_from := (wl_from S)(w := length (wl_emitted S)), wl_got := (wl_got S)(w := []),
      wl_asked := (wl_asked S)(w := wa_prefixes watch)\<rparr>)" (is "watch_inv R ?S")
proof -
  define B where "B = wl_buffer S"
  note ps = asked_prefixes [OF assms(3)]
  obtain x where w: "w = length (cb_objects B)"
    and B': "B' = B\<lparr>cb_objects := cb_objects B @ [x], cb_watchers := wt_add R w (wa_prefixes (bw_watch x)) (cb_watchers B)\<rparr>"
    and x: "wa_prefixes (bw_watch x) = (if wa_prefixes watch = [] then [zero_key] else remove_redundant_prefixes (wa_prefixes watch))"
      "held x = (if cb_init B then [InitEvent] else [])" "bw_init_once x = cb_init B"
    by (rule new_watcher_Inr [OF assms(2), folded B_def])
  have ok: "tree_ok R B" using assms(1) by (simp add: watch_inv_def B_def)
  have good: "good_prefixes x" using ps(1,2) by (simp add: good_prefixes_def x)
  then have "sorted_wrt (\<lambda>p q. key_string p \<noteq> key_string q) (wa_prefixes (bw_watch x))"
    unfolding good_prefixes_def by (auto intro!: sorted_wrt_mono_rel [of _ apart] simp: apart_def)
  from ids_add [OF this] have ids: "ids_at R p (cb_watchers B') = ids_at R p (cb_watchers B) @ (if p \<in> texts x then [w] else [])" for p
    by (simp add: B' texts_def)
  have fresh: "v < w" if "v \<in> set (ids_at R p (cb_watchers B))" for v p
    using registered_bound [OF ok, of v] that w unfolding registered_def by blast
  have at: "object_at B' v = (if v < w then object_at B v else x)" if "v \<le> w" for v using that by (auto simp: B' w nth_append)
  have len: "length (cb_objects B') = Suc w" by (simp add: B' w)
  have reg: "registered R B' v \<longleftrightarrow> registered R B v" if "v \<noteq> w" for v using that by (simp add: registered_def ids)
  have "distinct (ids_at R p (cb_watchers B'))" for p using ok fresh [of w p] by (auto simp: ids tree_ok_def)
  moreover have "v < length (cb_objects B') \<and> p \<in> texts (object_at B' v)" if "v \<in> set (ids_at R p (cb_watchers B'))" for v p
    using that ok fresh [of v p] at [of v] len by (auto simp: ids tree_ok_def split: if_split_asm)
  moreover have "v \<in> set (ids_at R p (cb_watchers B'))" if "registered R B' v" "p \<in> texts (object_at B' v)" for v p
  proof (cases "v = w")
    case True
    then show ?thesis using that(2) at [of w] by (simp add: ids)
  next
    case False
    then have "registered R B v" "v < w" using that(1) reg registered_bound [OF ok, of v] w by auto
    moreover from this have "v \<in> set (ids_at R p (cb_watchers B))" using that(2) at [of v] ok unfolding tree_ok_def by simp
    ultimately show ?thesis by (simp add: ids)
  qed
  moreover have "good_prefixes (object_at B' v)" if "v < length (cb_objects B')" for v
    using that ok good at [of v] unfolding len tree_ok_def w by (simp add: less_Suc_eq_le)
  ultimately have "tree_ok R B'" unfolding tree_ok_def by blast
  moreover have "watcher_inv R ?S v" if v: "v < length (cb_objects B')" for v
  proof (cases "v = w")
    case True
    then show ?thesis using ps(3) at [of w] by (simp add: watcher_inv_def stream_def due_def x B')
  next
    case False
    with v have "v < length (cb_objects B)" by (simp add: len w)
    then have "watcher_inv R S v" "object_at B' v = object_at B v" using assms(1) at [of v] by (simp_all add: watch_inv_def B_def w)
    moreover from this have "stream ?S v = stream S v" "due ?S v = due S v" using False by (simp_all add: stream_def due_def B_def)
    moreover have "cb_init B' = cb_init B" by (simp add: B')
    ultimately show ?thesis using False reg [OF False] by (simp add: watcher_inv_def B_def)
  qed
  ultimately show ?thesis by (simp add: watch_inv_def)
qed

lemma unregister_inv:
  assumes "watch_inv R S" and "tree_ok R B'" and "length (cb_objects B') = length (cb_objects (wl_buffer S))"
    and "\<And>v. v < length (cb_objects B') \<Longrightarrow> registered R B' v \<Longrightarrow> registered R (wl_buffer S) v \<and> cb_init B' = cb_init (wl_buffer S)
      \<and> bw_init_once (object_at B' v) = bw_init_once (object_at (wl_buffer S) v)"
    and "\<And>v. v < length (cb_objects B') \<Longrightarrow> held (object_at B' v) = held (object_at (wl_buffer S) v)
      \<and> bw_watch (object_at B' v) = bw_watch (object_at (wl_buffer S) v)"
  shows "watch_inv R (S\<lparr>wl_buffer := B'\<rparr>)"
proof -
  have "watcher_inv R (S\<lparr>wl_buffer := B'\<rparr>) v" if "v < length (cb_objects B')" for v
  proof (rule quiet_step)
    show "watcher_inv R S v" using assms(1,3) that by (simp add: watch_inv_def)
  qed (use assms(4,5) [OF that] in \<open>simp_all add: stream_def\<close>)
  with assms(2) show ?thesis by (simp add: watch_inv_def)
qed

lemma clear_objects:
  defines "close_one \<equiv> \<lambda>w B. set_object w (close_watcher (object_at B w)) B"
  assumes "\<forall>w \<in> set ws. w < length (cb_objects B)"
  shows "length (cb_objects (fold close_one ws B)) = length (cb_objects B) \<and> cb_init (fold close_one ws B) = cb_init B
    \<and> held (object_at (fold close_one ws B) v) = held (object_at B v) \<and> bw_watch (object_at (fold close_one ws B) v) = bw_watch (object_at B v)"
  using assms(2)
proof (induction ws arbitrary: B)
  case (Cons w ws)
  from Cons.IH [of "close_one w B"] Cons.prems show ?case by (simp add: close_one_def)
qed simp

lemma buffer_clear_spec:
  assumes "tree_ok R B"
  shows "tree_ok R (buffer_clear R B)" and "\<not> registered R (buffer_clear R B) v"
    and "length (cb_objects (buffer_clear R B)) = length (cb_objects B)"
    and "held (object_at (buffer_clear R B) v) = held (object_at B v)"
    and "bw_watch (object_at (buffer_clear R B) v) = bw_watch (object_at B v)"
proof -
  have "\<forall>w \<in> set (concat (rx_walk R (cb_watchers B))). w < length (cb_objects B)"
    unfolding walk_ids using registered_bound [OF assms] by (simp add: registered_def)
  note c = clear_objects [OF this]
  show r: "\<not> registered R (buffer_clear R B) v" for v by (simp add: registered_def buffer_clear_def)
  show "length (cb_objects (buffer_clear R B)) = length (cb_objects B)" "held (object_at (buffer_clear R B) v) = held (object_at B v)"
    "bw_watch (object_at (buffer_clear R B) v) = bw_watch (object_at B v)" for v using c by (simp_all add: buffer_clear_def)
  moreover have "ids_at R p (cb_watchers (buffer_clear R B)) = []" for p by (simp add: buffer_clear_def)
  ultimately show "tree_ok R (buffer_clear R B)" using assms r by (simp add: tree_ok_def good_prefixes_def)
qed

lemma remove_watcher_spec:
  assumes "tree_ok R B" and "w < length (cb_objects B)"
  shows "tree_ok R (remove_watcher_with_lock R w B)" and "registered R (remove_watcher_with_lock R w B) v \<Longrightarrow> registered R B v"
proof -
  let ?B = "remove_watcher_with_lock R w B"
  have "same_watches (drop_watcher R w B) ?B"
    using assms(2) by (auto simp: same_watches_def remove_watcher_with_lock_def drop_watcher_def)
  from same_watches_ok [OF this drop_watcher_spec(1) [OF assms]] drop_watcher_spec(2) [OF assms, of v]
  show "tree_ok R ?B" "registered R ?B v \<Longrightarrow> registered R B v" by auto
qed

lemma object_inv:
  assumes "watch_inv R S" and "w < length (cb_objects (wl_buffer S))" and "bw_watch x = bw_watch (object_at (wl_buffer S) w)"
    and "bw_init_once x = bw_init_once (object_at (wl_buffer S) w)"
    and "g w @ held x = stream S w" and "\<And>v. v \<noteq> w \<Longrightarrow> g v = wl_got S v"
  shows "watch_inv R (S\<lparr>wl_buffer := set_object w x (wl_buffer S), wl_got := g\<rparr>)"
proof -
  have s: "same_watches (wl_buffer S) (set_object w x (wl_buffer S))" using assms(2,3) by (simp add: same_watches_def)
  have ok: "tree_ok R (wl_buffer S)" using assms(1) by (simp add: watch_inv_def)
  note r = same_watches_ok [OF s ok]
  have "watcher_inv R (S\<lparr>wl_buffer := set_object w x (wl_buffer S), wl_got := g\<rparr>) v" if "v < length (cb_objects (wl_buffer S))" for v
  proof (rule quiet_step)
    show "watcher_inv R S v" using assms(1) that by (simp add: watch_inv_def)
  qed (use assms(2-6) r in \<open>auto simp: stream_def\<close>)
  with r show ?thesis by (simp add: watch_inv_def)
qed

lemma buffer_step_inv: "buffer_step R S S' \<Longrightarrow> watch_inv R S \<Longrightarrow> watch_inv R S'"
proof (induction rule: buffer_step.induct)
  case (set_init S)
  then show ?case by (rule set_init_inv)
next
  case (emit now ev S ok B)
  then show ?case using fan_out_inv [of S, where now = now and ev = ev] by (auto simp: buffer_emit_def split: if_split_asm)
next
  case (register t watch S w B)
  then show ?case using register_inv by blast
next
  case (refuse t watch S e B)
  then show ?case by (auto simp: new_watcher_def Let_def split: if_split_asm prod.split_asm)
next
  case (events w S)
  have "watch_inv R (S\<lparr>wl_buffer := set_object w (watcher_events (object_at (wl_buffer S) w)) (wl_buffer S), wl_got := wl_got S\<rparr>)"
    using events flush_backlog_spec [OF surjective_pairing] by (intro object_inv) (simp_all add: watcher_events_def stream_def)
  then show ?case by simp
next
  case (receive w S e es)
  then show ?case by (intro object_inv) (simp_all add: stream_def held_def)
next
  case (close_one w S)
  have "watch_inv R (S\<lparr>wl_buffer := set_object w (close_watcher (object_at (wl_buffer S) w)) (wl_buffer S), wl_got := wl_got S\<rparr>)"
    using close_one by (intro object_inv) (simp_all add: stream_def)
  then show ?case by simp
next
  case (remove w S)
  then have "tree_ok R (wl_buffer S)" by (simp add: watch_inv_def)
  from remove_watcher_spec [OF this remove(1)] remove show ?case
    by (intro unregister_inv) (simp_all add: remove_watcher_with_lock_def)
next
  case (clear S)
  then have "tree_ok R (wl_buffer S)" by (simp add: watch_inv_def)
  from buffer_clear_spec [OF this] clear show ?case by (intro unregister_inv) simp_all
next
  case (reset S)
  then have "tree_ok R (wl_buffer S)" by (simp add: watch_inv_def)
  from buffer_clear_spec [OF this] reset show ?case by (intro unregister_inv) (simp_all add: buffer_reset_def)
next
  case (close S)
  then have "tree_ok R (wl_buffer S)" by (simp add: watch_inv_def)
  from buffer_clear_spec [OF this] close show ?case by (intro unregister_inv) (simp_all add: buffer_close_def)
qed

lemma start_log_inv: "watch_inv R (start_log R opts)"
  by (simp add: watch_inv_def start_log_def new_circular_buffer_def tree_ok_def registered_def)

lemma buffer_run_inv: "(buffer_step R)\<^sup>*\<^sup>* (start_log R opts) S \<Longrightarrow> watch_inv R S"
  by (induction rule: rtranclp_induct) (auto intro: start_log_inv buffer_step_inv)

end

text \<open>An association list keeps the promises of the prefix tree.\<close>

definition alist_radix :: "(string \<times> nat list) list radix" where
  "alist_radix = \<lparr>rx_new = [], rx_get = (\<lambda>p t. map_of t p), rx_insert = (\<lambda>p ws t. (p, ws) # t),
     rx_delete = (\<lambda>p t. filter (\<lambda>e. fst e \<noteq> p) t),
     rx_walk_path = (\<lambda>s t. List.map_filter (\<lambda>n. map_of t (take n s)) [0..<Suc (length s)]),
     rx_walk = (\<lambda>t. map (\<lambda>p. the (map_of t p)) (remdups (map fst t)))\<rparr>"

interpretation alist: radix_tree alist_radix
proof
  fix p q s :: string and ws and t :: "(string \<times> nat list) list"
  show "rx_get alist_radix p (rx_new alist_radix) = None" by (simp add: alist_radix_def)
  show "rx_get alist_radix p (rx_insert alist_radix q ws t) = (if p = q then Some ws else rx_get alist_radix p t)"
    by (simp add: alist_radix_def)
  show "rx_get alist_radix p (rx_delete alist_radix q t) = (if p = q then None else rx_get alist_radix p t)"
    unfolding alist_radix_def by (induction t) auto
  show "rx_walk_path alist_radix s t = List.map_filter (\<lambda>n. rx_get alist_radix (take n s) t) [0..<Suc (length s)]"
    by (simp add: alist_radix_def)
  have "ran m = (\<lambda>p. the (m p)) ` dom m" for m :: "string \<Rightarrow> nat list option" by (force simp: ran_def dom_def image_iff)
  from this [of "map_of t"] show "set (rx_walk alist_radix t) = ran (\<lambda>p. rx_get alist_radix p t)"
    by (simp add: alist_radix_def dom_map_of_conv_image_fst)
qed

text \<open>
  Property C34: a watcher misses nothing. In every run of the buffer, with any interleaving of emits, registrations, slow
  or stopped clients, closes and resets, what the client of a watcher has received, followed by its channel and its
  backlog, is the init event and then the events that were emitted since the registration and lie under one of the
  prefixes asked for: all of them, each once and in order, as long as the watcher is registered with an initialised
  buffer; and an initial part of them otherwise.
\<close>

theorem watcher_misses_nothing:
  assumes "radix_tree R" and "(buffer_step R)\<^sup>*\<^sup>* (start_log R opts) S" and "w < length (cb_objects (wl_buffer S))"
  shows "prefix (wl_got S w @ bw_events (object_at (wl_buffer S) w) @ bw_backlog (object_at (wl_buffer S) w))
      (InitEvent # map ItemEvent (filter (wanted (wl_asked S w)) (drop (wl_from S w) (wl_emitted S))))
    \<and> (registered R (wl_buffer S) w \<and> cb_init (wl_buffer S) \<longrightarrow>
      wl_got S w @ bw_events (object_at (wl_buffer S) w) @ bw_backlog (object_at (wl_buffer S) w) =
      InitEvent # map ItemEvent (filter (wanted (wl_asked S w)) (drop (wl_from S w) (wl_emitted S))))"
  using radix_tree.buffer_run_inv [OF assms(1,2)] assms(3)
  by (auto simp: watch_inv_def watcher_inv_def stream_def due_def held_def)

text \<open>
  A watcher is only dropped by an event when its backlog could not be flushed, is older than the grace period, and the
  watcher itself is older than the grace period for new ones.
\<close>

theorem slow_watcher_dropped_late:
  assumes "watcher_emit cfg now e w = (False, w')"
  shows "bw_backlog w' \<noteq> [] \<and> now > bw_backlog_since w + bc_grace_period cfg \<and> now > bw_created w + bc_creation_grace_period cfg
    \<and> bw_events w' @ bw_backlog w' = bw_events w @ bw_backlog w"
  using watcher_emit_spec [OF assms] by (simp add: held_def)

section \<open>The backend and its watchers\<close>

text \<open>An operation of the backend holds its lock until its last event is emitted; watchers and their clients do not
  wait for that lock. Once the buffer is closed nothing is emitted any more.\<close>

inductive watch_step :: "'t radix \<Rightarrow> memory \<times> 't watch_log \<Rightarrow> memory \<times> 't watch_log \<Rightarrow> bool" for R where
  change: "mem_change m m' \<Longrightarrow> wl_emitted S = mem_buf m \<or> cb_closed (wl_buffer S) \<Longrightarrow> watch_step R (m, S) (m', S)"
| buffer: "buffer_step R S S' \<Longrightarrow> cb_init (wl_buffer S') \<Longrightarrow> prefix (wl_emitted S') (mem_buf m) \<Longrightarrow> watch_step R (m, S) (m, S')"

definition start_watch :: "'t radix \<Rightarrow> buffer_option list \<Rightarrow> memory \<times> 't watch_log" where
  "start_watch R opts = (new_memory, (start_log R opts)\<lparr>wl_buffer := buffer_set_init R (new_circular_buffer R opts)\<rparr>)"

text \<open>A reader of the events of a watcher.\<close>

fun apply_received :: "buffer_event \<Rightarrow> (string \<Rightarrow> item option) \<Rightarrow> string \<Rightarrow> item option" where
  "apply_received InitEvent v = v"
| "apply_received (ItemEvent ev) v = apply_change ev v"

lemma apply_change_own: "apply_change ev v (ks (ev_item ev)) = apply_change ev v' (ks (ev_item ev))"
  by (simp add: apply_change_def split: event_type.split)

lemma replay_touched: "s \<in> (\<lambda>ev. ks (ev_item ev)) ` set evs \<Longrightarrow> fold apply_change evs v s = fold apply_change evs v' s"
proof (induction evs arbitrary: v v')
  case (Cons ev evs)
  show ?case
  proof (cases "s \<in> (\<lambda>ev. ks (ev_item ev)) ` set evs")
    case False
    with Cons.prems show ?thesis using apply_change_own [of ev v v'] by (auto simp: replay_untouched)
  qed (use Cons.IH in simp)
qed simp

lemma replay_again: "fold apply_change (xs @ ys) (fold apply_change xs v) s = fold apply_change (xs @ ys) v s"
proof (cases "s \<in> (\<lambda>ev. ks (ev_item ev)) ` set (xs @ ys)")
  case True
  then show ?thesis by (rule replay_touched)
next
  case False
  then have "s \<notin> (\<lambda>ev. ks (ev_item ev)) ` set xs" by auto
  from replay_untouched [OF False] replay_untouched [OF this] show ?thesis by metis
qed

lemma replay_filter:
  "(\<And>ev. ev \<in> set evs \<Longrightarrow> ks (ev_item ev) = s \<Longrightarrow> P ev) \<Longrightarrow> v s = v' s \<Longrightarrow>
     fold apply_change (filter P evs) v s = fold apply_change evs v' s"
proof (induction evs arbitrary: v v')
  case (Cons ev evs)
  have "P ev \<Longrightarrow> apply_change ev v s = apply_change ev v' s" "\<not> P ev \<Longrightarrow> v s = apply_change ev v' s"
    using Cons.prems by (auto simp: apply_change_def split: event_type.split)
  with Cons show ?case by auto
qed simp

lemma apply_received_items: "fold apply_received (map ItemEvent evs) v = fold apply_change evs v"
  by (induction evs arbitrary: v) simp_all

text \<open>What a step of the buffer leaves alone: the number of a watcher, where it began and what it was asked.\<close>

lemma walk_watchers_length: "walk_watchers f ws failed B = (failed', B') \<Longrightarrow> length (cb_objects B') = length (cb_objects B)"
  by (induction ws arbitrary: failed B) (auto split: prod.split_asm)

lemma drop_length: "length (cb_objects (fold (drop_watcher R) ws B)) = length (cb_objects B)"
  by (induction ws arbitrary: B) (simp_all add: drop_watcher_def)

lemma clear_length: "length (cb_objects (buffer_clear R B)) = length (cb_objects B)"
proof -
  have "length (cb_objects (fold (\<lambda>w B. set_object w (close_watcher (object_at B w)) B) ws B)) = length (cb_objects B)" for ws
    by (induction ws arbitrary: B) simp_all
  then show ?thesis by (simp add: buffer_clear_def)
qed

lemma emit_length: "buffer_emit R now [ev] B = Some (ok, B') \<Longrightarrow> length (cb_objects B') = length (cb_objects B)"
  by (auto simp: buffer_emit_def fan_out_event_def drop_length split: if_split_asm prod.split_asm prod.split dest: walk_watchers_length)

lemma set_init_length: "length (cb_objects (buffer_set_init R B)) = length (cb_objects B)"
  by (auto simp: buffer_set_init_def drop_length split: prod.split dest: walk_watchers_length)

lemma new_watcher_fresh: "new_watcher R t watch B = Some (Inr w, B') \<Longrightarrow> w = length (cb_objects B) \<and> length (cb_objects B') = Suc w"
  by (auto simp: new_watcher_def Let_def split: if_split_asm prod.split_asm)

lemma buffer_step_keeps:
  assumes "buffer_step R S S'" and "w < length (cb_objects (wl_buffer S))"
  shows "w < length (cb_objects (wl_buffer S')) \<and> wl_from S' w = wl_from S w \<and> wl_asked S' w = wl_asked S w"
  using assms
proof (induction rule: buffer_step.induct)
  case (register t watch S v B)
  then show ?case using new_watcher_fresh [OF register(1)] by auto
next
  case (refuse t watch S e B)
  then show ?case by (auto simp: new_watcher_def Let_def split: if_split_asm prod.split_asm)
qed (auto simp: set_init_length clear_length emit_length buffer_reset_def buffer_close_def remove_watcher_with_lock_def)

definition watch_ok :: "'t radix \<Rightarrow> memory \<times> 't watch_log \<Rightarrow> bool" where
  "watch_ok R X \<longleftrightarrow> watch_inv R (snd X) \<and> cb_init (wl_buffer (snd X)) \<and> prefix (wl_emitted (snd X)) (mem_buf (fst X))
     \<and> logged new_memory (fst X)"

lemma logged_prefix: "logged m m' \<Longrightarrow> \<not> mem_events_off m \<Longrightarrow> prefix (mem_buf m) (mem_buf m')"
  by (auto simp: logged_def)

lemma watch_step_ok:
  assumes "radix_tree R" and "watch_step R X Y" and "watch_ok R X"
  shows "watch_ok R Y"
  using assms(2,3)
proof (induction rule: watch_step.induct)
  case (change m m' S)
  have "logged m m'" by (rule mem_change_logged [OF change(1)])
  moreover have "\<not> mem_events_off m" using change(3) by (simp add: watch_ok_def logged_def new_memory_def)
  ultimately show ?case using change(3) logged_prefix [of m m']
    by (auto simp: watch_ok_def intro: logged_trans prefix_order.trans)
next
  case (buffer S S' m)
  then show ?case using radix_tree.buffer_step_inv [OF assms(1) buffer(1)] by (simp add: watch_ok_def)
qed

lemma start_watch_ok: "radix_tree R \<Longrightarrow> watch_ok R (start_watch R opts)"
  using radix_tree.set_init_inv [OF _ radix_tree.start_log_inv, of R opts]
  by (simp add: watch_ok_def start_watch_def) (simp add: start_log_def buffer_set_init_def new_circular_buffer_def split: prod.split)

lemma watch_run_ok: "(watch_step R)\<^sup>*\<^sup>* X Y \<Longrightarrow> radix_tree R \<Longrightarrow> watch_ok R X \<Longrightarrow> watch_ok R Y"
  by (induction rule: rtranclp_induct) (auto intro: watch_step_ok)

lemma watch_run_keeps:
  assumes "(watch_step R)\<^sup>*\<^sup>* (m, S) (m', S')" and "w < length (cb_objects (wl_buffer S))"
  shows "logged m m' \<and> w < length (cb_objects (wl_buffer S')) \<and> wl_from S' w = wl_from S w \<and> wl_asked S' w = wl_asked S w"
  using assms(1)
proof (induction "(m', S')" arbitrary: m' S' rule: rtranclp_induct)
  case (step Y)
  obtain m1 S1 where Y: "Y = (m1, S1)" by fastforce
  from step(2) show ?case unfolding Y
    by cases (use step(3) [OF Y] buffer_step_keeps [of R S1 S' w] in \<open>auto intro: logged_trans mem_change_logged\<close>)
qed (use assms(2) in simp)

lemma logged_items: "logged m m' \<Longrightarrow> \<not> mem_events_off m \<Longrightarrow>
    \<exists>evs. mem_buf m' = mem_buf m @ evs \<and> (\<forall>s. mem_get_item m' s = fold apply_change evs (mem_get_item m) s)"
  by (simp add: logged_def)

text \<open>
  Property C35: who follows the events holds the store. A client registers a watcher, at some time later reads the items
  of the backend, and then applies what the watcher delivers, from its first event on, to what it read. Whatever
  happened in between, before and after the read, once all events of the backend are emitted and while the watcher is
  still registered, the events received, in the channel and in the backlog turn the items read into the items of the
  backend, for every key under a prefix that was asked for: whether an item was created, updated, deleted, expired or
  written in a batch. The keys of the events are keys with a text, as all constructors but the one for open ranges make them.
\<close>

theorem replica_follows_store:
  assumes "radix_tree R" and "(watch_step R)\<^sup>*\<^sup>* (start_watch R opts) (m0, S0)" and "w < length (cb_objects (wl_buffer S0))"
    and "wl_emitted S0 = mem_buf m0" and "(watch_step R)\<^sup>*\<^sup>* (m0, S0) (m, S)" and "wl_emitted S = mem_buf m"
    and "registered R (wl_buffer S) w" and "\<forall>ev \<in> set (mem_buf m). key_string (it_key (ev_item ev)) = ks (ev_item ev)"
    and "wl_asked S w = [] \<or> (\<exists>p \<in> set (wl_asked S w). starts_with (key_s p) s)"
  shows "fold apply_received (wl_got S w @ bw_events (object_at (wl_buffer S) w) @ bw_backlog (object_at (wl_buffer S) w))
      (mem_get_item m0) s = mem_get_item m s"
proof -
  have ok0: "watch_ok R (m0, S0)" by (rule watch_run_ok [OF assms(2,1) start_watch_ok [OF assms(1)]])
  have ok: "watch_ok R (m, S)" by (rule watch_run_ok [OF assms(5,1) ok0])
  note k = watch_run_keeps [OF assms(5,3)]
  have on: "\<not> mem_events_off m0" using ok0 by (simp add: watch_ok_def logged_def new_memory_def)
  from ok k have i: "watcher_inv R S w" "cb_init (wl_buffer S)" by (simp_all add: watch_ok_def watch_inv_def)
  have "watcher_inv R S0 w" using ok0 assms(3) by (simp add: watch_ok_def watch_inv_def)
  then have from0: "wl_from S w \<le> length (mem_buf m0)" using k assms(4) by (simp add: watcher_inv_def)
  define pre xs where "pre = take (wl_from S w) (mem_buf m0)" and "xs = drop (wl_from S w) (mem_buf m0)"
  from logged_items [OF conjunct1 [OF k] on] obtain ys where ys: "mem_buf m = mem_buf m0 @ ys"
    "\<And>s. mem_get_item m s = fold apply_change ys (mem_get_item m0) s" by blast
  obtain v where v: "\<And>s. mem_get_item m0 s = fold apply_change xs v s"
  proof -
    from ok0 have "\<forall>s. mem_get_item m0 s = fold apply_change (mem_buf m0) (mem_get_item new_memory) s"
      by (auto simp: watch_ok_def logged_def new_memory_def)
    moreover have "mem_buf m0 = pre @ xs" by (simp add: pre_def xs_def)
    ultimately show ?thesis using that by (metis comp_apply fold_append)
  qed
  have "drop (wl_from S w) (wl_emitted S) = xs @ ys" using from0 by (simp add: assms(6) ys(1) xs_def)
  then have st: "wl_got S w @ bw_events (object_at (wl_buffer S) w) @ bw_backlog (object_at (wl_buffer S) w) =
      InitEvent # map ItemEvent (filter (wanted (wl_asked S w)) (xs @ ys))"
    using i assms(7) by (simp add: watcher_inv_def stream_def due_def held_def)
  have "set (xs @ ys) \<subseteq> set (mem_buf m)" by (auto simp: ys(1) xs_def dest: in_set_dropD)
  then have wn: "wanted (wl_asked S w) ev" if "ev \<in> set (xs @ ys)" "ks (ev_item ev) = s" for ev
    using that assms(8,9) unfolding wanted_def by (metis subsetD)
  have m0: "mem_get_item m0 = fold apply_change xs v" using v by blast
  have "fold apply_change (filter (wanted (wl_asked S w)) (xs @ ys)) (mem_get_item m0) s = fold apply_change (xs @ ys) (mem_get_item m0) s"
    by (rule replay_filter [OF wn]) simp_all
  also have "\<dots> = fold apply_change (xs @ ys) v s" unfolding m0 by (rule replay_again)
  also have "\<dots> = mem_get_item m s" by (simp add: ys(2) m0)
  finally show ?thesis by (simp add: st apply_received_items)
qed

section \<open>A concrete watcher\<close>

text \<open>A client watches one prefix with a channel of one event; two items are created, one of them under the prefix.\<close>

definition sample_watch :: watch where
  "sample_watch = \<lparr>wa_name = ''cache'', wa_prefixes = [new_key [''a'']], wa_queue_size = 1, wa_metric_component = []\<rparr>"

definition put_event :: "string \<Rightarrow> string \<Rightarrow> int \<Rightarrow> event" where
  "put_event k rv e = \<lparr>ev_type = OpPut, ev_item = (sample_item k e)\<lparr>it_revision := rv\<rparr>\<rparr>"

definition ready_buffer :: "(string \<times> nat list) list circular_buffer" where
  "ready_buffer = buffer_set_init alist_radix (new_circular_buffer alist_radix [])"

definition watched_buffer :: "buffer_event list \<Rightarrow> int \<Rightarrow> (string \<times> nat list) list circular_buffer" where
  "watched_buffer backlog since = ready_buffer\<lparr>cb_watchers := [(''/a'', [0])],
     cb_objects := [\<lparr>bw_watch = sample_watch, bw_events = [InitEvent], bw_backlog = backlog, bw_backlog_since = since, bw_created = 7,
       bw_done = False, bw_init_once = True, bw_init_ok = True, bw_capacity = 1\<rparr>]\<rparr>"

definition watching :: "buffer_event list \<Rightarrow> int \<Rightarrow> event list \<Rightarrow> (string \<times> nat list) list watch_log" where
  "watching backlog since evs = \<lparr>wl_buffer = watched_buffer backlog since, wl_emitted = evs, wl_got = (\<lambda>_. []), wl_from = (\<lambda>_. 0),
     wl_asked = (\<lambda>w. if w = 0 then [new_key [''a'']] else [])\<rparr>"

abbreviation "put_a \<equiv> put_event ''a'' ''r1'' 1900000000"
abbreviation "put_b \<equiv> put_event ''b'' ''r2'' 1200000000"

lemma ready_fields [simp]:
  "cb_init ready_buffer" "\<not> cb_closed ready_buffer" "cb_watchers ready_buffer = []" "cb_objects ready_buffer = []"
  "cb_cfg ready_buffer = \<lparr>bc_grace_period = default_backlog_grace_period, bc_creation_grace_period = default_creation_grace_period,
     bc_capacity = default_buffer_capacity\<rparr>"
  by (simp_all add: ready_buffer_def new_circular_buffer_def buffer_set_init_def alist_radix_def)

lemma sample_registered: "new_watcher alist_radix 7 sample_watch ready_buffer = Some (Inr 0, watched_buffer [] zero_time)"
  by (simp add: new_watcher_def remove_redundant_prefixes_def watcher_init_def wt_add_def ids_at_def Let_def sample_watch_def
      watched_buffer_def alist_radix_def new_key_def key_string_def)

lemma sample_emit_a: "buffer_emit alist_radix (\<lambda>_. 9) [put_a] (watched_buffer [] zero_time) = Some (True, watched_buffer [ItemEvent put_a] 9)"
  by (simp add: buffer_emit_def fan_out_event_def watched_buffer_def alist_radix_def put_event_def sample_item_def new_key_def
      key_string_def List.map_filter_simps upt_rec set_object_def watcher_emit_def flush_backlog_def)

lemma sample_emit_b: "buffer_emit alist_radix (\<lambda>_. 9) [put_b] (watched_buffer bl t) = Some (True, watched_buffer bl t)"
  by (simp add: buffer_emit_def fan_out_event_def watched_buffer_def alist_radix_def put_event_def sample_item_def new_key_def
      key_string_def List.map_filter_simps upt_rec)

abbreviation "ready_log \<equiv> (start_log alist_radix [])\<lparr>wl_buffer := ready_buffer\<rparr>"

lemma sample_steps:
  "buffer_step alist_radix (start_log alist_radix []) ready_log"
  "buffer_step alist_radix ready_log (watching [] zero_time [])"
  "buffer_step alist_radix (watching [] zero_time []) (watching [ItemEvent put_a] 9 [put_a])"
  "buffer_step alist_radix (watching [ItemEvent put_a] 9 [put_a]) (watching [ItemEvent put_a] 9 [put_a, put_b])"
proof -
  show "buffer_step alist_radix (start_log alist_radix []) ready_log"
    using buffer_step.set_init [of alist_radix "start_log alist_radix []"] by (simp add: start_log_def ready_buffer_def)
  have "new_watcher alist_radix 7 sample_watch (wl_buffer ready_log) = Some (Inr 0, watched_buffer [] zero_time)"
    using sample_registered by simp
  moreover have "\<forall>p \<in> set (wa_prefixes sample_watch). key_string p = key_s p" by (simp add: sample_watch_def new_key_def key_string_def)
  ultimately show "buffer_step alist_radix ready_log (watching [] zero_time [])"
    by (rule buffer_step.register [THEN back_subst [of "buffer_step alist_radix ready_log"]])
      (simp add: watching_def start_log_def sample_watch_def fun_eq_iff)
  show "buffer_step alist_radix (watching [] zero_time []) (watching [ItemEvent put_a] 9 [put_a])"
    using buffer_step.emit [of alist_radix "\<lambda>_. 9" put_a "watching [] zero_time []"] sample_emit_a by (simp add: watching_def)
  show "buffer_step alist_radix (watching [ItemEvent put_a] 9 [put_a]) (watching [ItemEvent put_a] 9 [put_a, put_b])"
    using buffer_step.emit [of alist_radix "\<lambda>_. 9" put_b "watching [ItemEvent put_a] 9 [put_a]"] sample_emit_b by (simp add: watching_def)
qed

lemma sample_watching [simp]:
  "wl_buffer (watching bl t evs) = watched_buffer bl t" "wl_emitted (watching bl t evs) = evs" "wl_from (watching bl t evs) w = 0"
  "wl_got (watching bl t evs) w = []" "wl_asked (watching bl t evs) 0 = [new_key [''a'']]"
  "cb_init (watched_buffer bl t)" "registered alist_radix (watched_buffer bl t) 0" "length (cb_objects (watched_buffer bl t)) = 1"
  "bw_events (object_at (watched_buffer bl t) 0) = [InitEvent]" "bw_backlog (object_at (watched_buffer bl t) 0) = bl"
  by (simp_all add: watching_def watched_buffer_def registered_def ids_at_def alist_radix_def)

lemma sample_wanted: "wanted [new_key [''a'']] put_a" "\<not> wanted [new_key [''a'']] put_b"
  by (simp_all add: wanted_def put_event_def sample_item_def new_key_def key_string_def starts_with_def)

theorem watcher_misses_nothing_witness:
  "\<exists>S. (buffer_step alist_radix)\<^sup>*\<^sup>* (start_log alist_radix []) S \<and> wl_emitted S = [put_a, put_b]
    \<and> wl_got S 0 @ bw_events (object_at (wl_buffer S) 0) @ bw_backlog (object_at (wl_buffer S) 0) = [InitEvent, ItemEvent put_a]"
proof -
  note s = sample_steps [THEN r_into_rtranclp [of "buffer_step alist_radix"]]
  have r: "(buffer_step alist_radix)\<^sup>*\<^sup>* (start_log alist_radix []) (watching [ItemEvent put_a] 9 [put_a, put_b])"
    by (rule rtranclp_trans [OF rtranclp_trans [OF rtranclp_trans [OF s(1,2)] s(3)] s(4)])
  have "0 < length (cb_objects (wl_buffer (watching [ItemEvent put_a] 9 [put_a, put_b])))" by simp
  from watcher_misses_nothing [OF alist.radix_tree_axioms r this] show ?thesis
    using r by (intro exI [of _ "watching [ItemEvent put_a] 9 [put_a, put_b]"]) (simp add: sample_wanted)
qed

theorem replica_follows_store_witness:
  "fold apply_received [InitEvent, ItemEvent put_a] (mem_get_item new_memory) ''/a'' = mem_get_item sample_memory ''/a''
    \<and> mem_get_item sample_memory ''/a'' \<noteq> None"
proof -
  let ?m = "snd (mem_create 0 ''r1'' (sample_item ''a'' 1900000000) new_memory)"
  let ?S0 = "watching [] zero_time []" and ?S1 = "watching [ItemEvent put_a] 9 [put_a]" and ?S2 = "watching [ItemEvent put_a] 9 [put_a, put_b]"
  have m: "mem_buf ?m = [put_a]" "mem_buf sample_memory = [put_a, put_b]" "mem_buf new_memory = []"
    by (simp_all add: sample_memory_eq put_event_def mem_create_def new_memory_def store_def emit_def process_put_def sample_item_def
        new_key_def key_is_zero_def remove_expired_def expire_loop.simps tree_get_def Let_def)
  have "watch_step alist_radix (new_memory, ready_log) (new_memory, ?S0)"
    by (rule watch_step.buffer [OF sample_steps(2)]) (simp_all add: m)
  then have r0: "(watch_step alist_radix)\<^sup>*\<^sup>* (start_watch alist_radix []) (new_memory, ?S0)"
    by (simp add: start_watch_def start_log_def ready_buffer_def)
  have c1: "watch_step alist_radix (new_memory, ?S0) (?m, ?S0)"
    by (rule watch_step.change) (auto simp: m intro: mem_change.single mem_step.create surjective_pairing)
  have c2: "watch_step alist_radix (?m, ?S0) (?m, ?S1)"
    by (rule watch_step.buffer [OF sample_steps(3)]) (simp_all add: m)
  have c3: "watch_step alist_radix (?m, ?S1) (sample_memory, ?S1)"
    unfolding sample_memory_def by (rule watch_step.change) (auto simp: m intro: mem_change.single mem_step.create surjective_pairing)
  have c4: "watch_step alist_radix (sample_memory, ?S1) (sample_memory, ?S2)"
    by (rule watch_step.buffer [OF sample_steps(4)]) (simp_all add: m)
  note c = c1 c2 c3 c4 [THEN r_into_rtranclp [of "watch_step alist_radix"]]
  have r1: "(watch_step alist_radix)\<^sup>*\<^sup>* (new_memory, ?S0) (sample_memory, ?S2)"
    by (rule converse_rtranclp_into_rtranclp [OF c(1) converse_rtranclp_into_rtranclp [OF c(2) converse_rtranclp_into_rtranclp [OF c(3,4)]]])
  have "\<forall>ev \<in> set (mem_buf sample_memory). key_string (it_key (ev_item ev)) = ks (ev_item ev)"
    by (simp add: m put_event_def sample_item_def new_key_def key_string_def)
  from replica_follows_store [OF alist.radix_tree_axioms r0 _ _ r1 _ _ this, of 0 "''/a''"] show ?thesis
    by (simp add: m) (simp add: starts_with_def new_key_def sample_memory_eq sample_item_def tree_get_def)
qed

end
