(* ===== verification/KeyPolicy.thy ===== *)
theory KeyPolicy
  imports GoText
begin

text \<open>
  Private key policies, \<^verbatim>\<open>api/utils/keys/policy.go\<close>: what a role or the cluster requires of the key a client
  logs in with, which policy satisfies which, the least policy that satisfies a set, and the policy that an
  error message names. A policy is a string, as in the code, so unknown values are covered.
\<close>

definition policy_none :: string where "policy_none = ''none''"
definition policy_hardware_key :: string where "policy_hardware_key = ''hardware_key''"
definition policy_touch :: string where "policy_touch = ''hardware_key_touch''"
definition policy_pin :: string where "policy_pin = ''hardware_key_pin''"
definition policy_touch_and_pin :: string where "policy_touch_and_pin = ''hardware_key_touch_and_pin''"
definition policy_web_session :: string where "policy_web_session = ''web_session''"

lemmas policy_defs = policy_none_def policy_hardware_key_def policy_touch_def policy_pin_def
  policy_touch_and_pin_def policy_web_session_def

definition is_touch_verified :: "string \<Rightarrow> bool" where
  "is_touch_verified p \<longleftrightarrow> p = policy_touch \<or> p = policy_touch_and_pin"

definition is_pin_verified :: "string \<Rightarrow> bool" where
  "is_pin_verified p \<longleftrightarrow> p = policy_pin \<or> p = policy_touch_and_pin"

definition is_hardware_key_policy :: "string \<Rightarrow> bool" where
  "is_hardware_key_policy p \<longleftrightarrow> p = policy_hardware_key \<or> p = policy_touch \<or> p = policy_pin \<or> p = policy_touch_and_pin"

definition mfa_verified :: "string \<Rightarrow> bool" where
  "mfa_verified p \<longleftrightarrow> is_touch_verified p \<or> is_pin_verified p"

definition is_satisfied_by :: "string \<Rightarrow> string \<Rightarrow> bool" where
  "is_satisfied_by required key =
     (if key = policy_web_session then True
      else if required = policy_none then True
      else if required = policy_hardware_key then is_hardware_key_policy key
      else if required = policy_touch then is_touch_verified key
      else if required = policy_pin then is_pin_verified key
      else if required = policy_touch_and_pin then is_touch_verified key \<and> is_pin_verified key
      else False)"

definition validate_policy :: "string \<Rightarrow> err option" where
  "validate_policy p =
     (if p \<in> {policy_none, policy_hardware_key, policy_touch, policy_pin, policy_touch_and_pin, policy_web_session} then None
      else Some (Err BadParameter (p @ '' is not a valid key policy'')))"

fun satisfy_set :: "string \<Rightarrow> string list \<Rightarrow> string result" where
  "satisfy_set set_policy [] = Inr set_policy"
| "satisfy_set set_policy (p # ps) =
     (if is_satisfied_by p set_policy then satisfy_set set_policy ps
      else if is_satisfied_by set_policy p then satisfy_set p ps
      else if is_satisfied_by p policy_touch_and_pin \<and> is_satisfied_by set_policy policy_touch_and_pin
      then satisfy_set policy_touch_and_pin ps
      else Inl (Err BadParameter (''private key policy requirements '' @ p @ '' and '' @ set_policy @ '' are incompatible'')))"

definition policy_that_satisfies_set :: "string list \<Rightarrow> string result" where
  "policy_that_satisfies_set ps = satisfy_set policy_none ps"

text \<open>The class of word characters of a regular expression, and the leftmost match of the pattern.\<close>

definition word_char :: "char \<Rightarrow> bool" where
  "word_char c \<longleftrightarrow> 97 \<le> byte c \<and> byte c \<le> 122 \<or> 65 \<le> byte c \<and> byte c \<le> 90 \<or> 48 \<le> byte c \<and> byte c \<le> 57 \<or> c = CHR ''_''"

definition policy_after :: "string \<Rightarrow> string \<Rightarrow> string option" where
  "policy_after p s =
     (if starts_with p s \<and> takeWhile word_char (drop (length p) s) \<noteq> []
      then Some (takeWhile word_char (drop (length p) s)) else None)"

fun find_policy :: "string \<Rightarrow> string option" where
  "find_policy [] = None"
| "find_policy (c # s) =
     (case policy_after ''private key policy not met: '' (c # s) of
        Some p \<Rightarrow> Some p
      | None \<Rightarrow>
          (case policy_after ''private key policy not satisfied: '' (c # s) of
             Some p \<Rightarrow> Some p
           | None \<Rightarrow> find_policy s))"

definition new_private_key_policy_error :: "string \<Rightarrow> err" where
  "new_private_key_policy_error p = Err BadParameter (''private key policy not met: '' @ p)"

definition parse_private_key_policy_error :: "err \<Rightarrow> string result" where
  "parse_private_key_policy_error e =
     (case find_policy (err_msg e) of
        None \<Rightarrow> Inl (Err BadParameter ''provided error is not a key policy error'')
      | Some p \<Rightarrow> (case validate_policy p of Some e' \<Rightarrow> Inl e' | None \<Rightarrow> Inr p))"

definition is_private_key_policy_error :: "err option \<Rightarrow> bool" where
  "is_private_key_policy_error e = (case e of None \<Rightarrow> False | Some e' \<Rightarrow> find_policy (err_msg e') \<noteq> None)"

section \<open>Satisfaction is an order\<close>

lemma satisfied_trans:
  assumes "validate_policy q = None" and "is_satisfied_by p q" and "is_satisfied_by q k"
  shows "is_satisfied_by p k"
  using assms
  by (auto simp: validate_policy_def is_satisfied_by_def is_hardware_key_policy_def is_touch_verified_def is_pin_verified_def
      policy_defs split: if_split_asm)

text \<open>The two policies that neither satisfies the other meet in the strictest one.\<close>

lemma satisfied_join:
  assumes "validate_policy p = None" "validate_policy q = None" "\<not> is_satisfied_by p q" "\<not> is_satisfied_by q p"
  shows "is_satisfied_by p policy_touch_and_pin \<and> is_satisfied_by q policy_touch_and_pin
    \<and> (is_satisfied_by policy_touch_and_pin k \<longleftrightarrow> is_satisfied_by p k \<and> is_satisfied_by q k)"
  using assms
  by (auto simp: validate_policy_def is_satisfied_by_def is_hardware_key_policy_def is_touch_verified_def is_pin_verified_def
      policy_defs split: if_split_asm)

lemma satisfy_set_least:
  assumes "validate_policy s = None" and "list_all (\<lambda>p. validate_policy p = None) ps"
  shows "\<exists>q. satisfy_set s ps = Inr q \<and> validate_policy q = None
    \<and> (\<forall>k. is_satisfied_by q k \<longleftrightarrow> is_satisfied_by s k \<and> list_all (\<lambda>p. is_satisfied_by p k) ps)"
  using assms
proof (induction ps arbitrary: s)
  case (Cons p ps)
  then have p: "validate_policy p = None" and ps: "list_all (\<lambda>p. validate_policy p = None) ps" by auto
  obtain s' where step: "satisfy_set s (p # ps) = satisfy_set s' ps" "validate_policy s' = None"
    and meet: "\<And>k. is_satisfied_by s' k \<longleftrightarrow> is_satisfied_by s k \<and> is_satisfied_by p k"
  proof -
    consider "is_satisfied_by p s" | "\<not> is_satisfied_by p s" "is_satisfied_by s p"
      | "\<not> is_satisfied_by p s" "\<not> is_satisfied_by s p" by blast
    then show ?thesis
    proof cases
      case 1
      with satisfied_trans [OF Cons.prems(1) 1] Cons.prems(1) show ?thesis by (intro that [of s]) auto
    next
      case 2
      with satisfied_trans [OF p 2(2)] p show ?thesis by (intro that [of p]) auto
    next
      case 3
      note j = satisfied_join [OF p Cons.prems(1) 3]
      have "validate_policy policy_touch_and_pin = None" by (simp add: validate_policy_def)
      with 3 j show ?thesis by (intro that [of policy_touch_and_pin]) auto
    qed
  qed
  from Cons.IH [OF step(2) ps] step(1) meet show ?case by auto
qed simp

section \<open>The lattice of policies\<close>

text \<open>
  The specification: the six known policies, ordered by strictness. \<open>None\<close> is least, the web session greatest; touch
  and PIN are incomparable and meet in the policy that asks for both.
\<close>

datatype key_policy = PNone | PHardware | PTouch | PPin | PTouchPin | PWeb

instantiation key_policy :: bounded_lattice
begin

fun less_eq_key_policy :: "key_policy \<Rightarrow> key_policy \<Rightarrow> bool" where
  "less_eq_key_policy PNone q = True"
| "less_eq_key_policy PHardware q = (q \<noteq> PNone)"
| "less_eq_key_policy PTouch q = (q = PTouch \<or> q = PTouchPin \<or> q = PWeb)"
| "less_eq_key_policy PPin q = (q = PPin \<or> q = PTouchPin \<or> q = PWeb)"
| "less_eq_key_policy PTouchPin q = (q = PTouchPin \<or> q = PWeb)"
| "less_eq_key_policy PWeb q = (q = PWeb)"

definition less_key_policy :: "key_policy \<Rightarrow> key_policy \<Rightarrow> bool" where
  "less_key_policy p q = (p \<le> q \<and> \<not> q \<le> p)"

definition sup_key_policy :: "key_policy \<Rightarrow> key_policy \<Rightarrow> key_policy" where
  "sup_key_policy p q = (if p \<le> q then q else if q \<le> p then p else PTouchPin)"

definition inf_key_policy :: "key_policy \<Rightarrow> key_policy \<Rightarrow> key_policy" where
  "inf_key_policy p q = (if p \<le> q then p else if q \<le> p then q else PHardware)"

definition bot_key_policy :: key_policy where "bot_key_policy = PNone"

definition top_key_policy :: key_policy where "top_key_policy = PWeb"

instance
proof
  fix p q r :: key_policy
  show "p < q \<longleftrightarrow> p \<le> q \<and> \<not> q \<le> p" by (simp add: less_key_policy_def)
  show "p \<le> p" "bot \<le> p" "p \<le> top" by (cases p; simp add: bot_key_policy_def top_key_policy_def)+
  show "p \<le> q \<Longrightarrow> q \<le> r \<Longrightarrow> p \<le> r" by (cases p; cases q; simp; elim disjE; simp)
  show "p \<le> q \<Longrightarrow> q \<le> p \<Longrightarrow> p = q" by (cases p; cases q; simp)
  show "p \<le> sup p q" "q \<le> sup p q" "inf p q \<le> p" "inf p q \<le> q"
    by (cases p; cases q; simp add: sup_key_policy_def inf_key_policy_def)+
  show "q \<le> p \<Longrightarrow> r \<le> p \<Longrightarrow> sup q r \<le> p" "p \<le> q \<Longrightarrow> p \<le> r \<Longrightarrow> p \<le> inf q r"
    by (cases p; cases q; cases r; simp add: sup_key_policy_def inf_key_policy_def)+
qed

end

fun policy_text :: "key_policy \<Rightarrow> string" where
  "policy_text PNone = policy_none"
| "policy_text PHardware = policy_hardware_key"
| "policy_text PTouch = policy_touch"
| "policy_text PPin = policy_pin"
| "policy_text PTouchPin = policy_touch_and_pin"
| "policy_text PWeb = policy_web_session"

text \<open>The code's test is the order, and what the code accepts as a policy is a text of the lattice.\<close>

lemma satisfied_is_order: "is_satisfied_by (policy_text p) (policy_text q) \<longleftrightarrow> p \<le> q"
  by (cases p; cases q)
     (simp_all add: is_satisfied_by_def is_hardware_key_policy_def is_touch_verified_def is_pin_verified_def policy_defs)

lemma known_policy: "validate_policy s = None \<longleftrightarrow> (\<exists>p. s = policy_text p)"
proof
  assume "validate_policy s = None"
  then consider "s = policy_text PNone" | "s = policy_text PHardware" | "s = policy_text PTouch" | "s = policy_text PPin"
    | "s = policy_text PTouchPin" | "s = policy_text PWeb"
    by (auto simp: validate_policy_def split: if_split_asm)
  then show "\<exists>p. s = policy_text p" by cases blast+
next
  assume "\<exists>p. s = policy_text p"
  then obtain p where "s = policy_text p" ..
  then show "validate_policy s = None" by (cases p) (simp_all add: validate_policy_def)
qed

lemma satisfy_set_sup: "satisfy_set (policy_text s) (map policy_text ps) = Inr (policy_text (fold sup ps s))"
proof (induction ps arbitrary: s)
  case (Cons p ps)
  have "is_satisfied_by (policy_text p) policy_touch_and_pin \<and> is_satisfied_by (policy_text s) policy_touch_and_pin \<and> sup p s = PTouchPin"
    if "\<not> p \<le> s" "\<not> s \<le> p"
    using that satisfied_is_order [of p PTouchPin] satisfied_is_order [of s PTouchPin] by (cases p; cases s) (simp_all add: sup_key_policy_def)
  with Cons [of s] Cons [of p] Cons [of PTouchPin] show ?case
    by (simp add: satisfied_is_order sup_key_policy_def)
qed simp

text \<open>
  Property C38: the policy that is chosen for a set of policies is their join. On known policies
  \<^verbatim>\<open>PolicyThatSatisfiesSet\<close> never fails and returns the least upper bound in the lattice of policies; a key,
  whatever policy it claims, satisfies the result exactly when it satisfies every policy of the set.
\<close>

theorem policy_set_join:
  "policy_that_satisfies_set (map policy_text ps) = Inr (policy_text (Sup_fin (insert bot (set ps))))
   \<and> (is_satisfied_by (policy_text (Sup_fin (insert bot (set ps)))) k \<longleftrightarrow> list_all (\<lambda>p. is_satisfied_by (policy_text p) k) ps)"
proof -
  have "Sup_fin (insert bot (set ps)) = fold sup ps (bot :: key_policy)"
    using Sup_fin.set_eq_fold [of bot ps] unfolding list.set(2) .
  then have r: "policy_that_satisfies_set (map policy_text ps) = Inr (policy_text (Sup_fin (insert bot (set ps))))"
    using satisfy_set_sup [of PNone ps] by (simp add: policy_that_satisfies_set_def bot_key_policy_def)
  have "list_all (\<lambda>p. validate_policy p = None) (map policy_text ps)" "validate_policy policy_none = None"
    using known_policy by (auto simp: list_all_iff validate_policy_def)
  with satisfy_set_least [of policy_none "map policy_text ps"] r
  have "is_satisfied_by (policy_text (Sup_fin (insert bot (set ps)))) k \<longleftrightarrow> list_all (\<lambda>p. is_satisfied_by (policy_text p) k) ps"
    by (auto simp: policy_that_satisfies_set_def list_all_iff is_satisfied_by_def [of policy_none])
  with r show ?thesis by blast
qed

text \<open>An unknown policy can be returned although it does not satisfy itself, or end in an error.\<close>

lemma unknown_policy_unsatisfiable:
  "policy_that_satisfies_set [''foo''] = Inr ''foo'' \<and> \<not> is_satisfied_by ''foo'' ''foo''
   \<and> is_err (policy_that_satisfies_set [''foo'', policy_touch])"
  by code_simp

section \<open>The policy of a role set, and prompts\<close>

text \<open>\<^verbatim>\<open>RoleSet.PrivateKeyPolicy\<close>: the policy of the cluster and those of the roles.\<close>

definition role_set_policy :: "string \<Rightarrow> string list \<Rightarrow> string result" where
  "role_set_policy auth_preference roles = policy_that_satisfies_set (auth_preference # roles)"

record prompt_policy =
  touch_required :: bool
  pin_required :: bool

definition get_prompt_policy :: "string \<Rightarrow> prompt_policy" where
  "get_prompt_policy p = \<lparr>touch_required = is_touch_verified p, pin_required = is_pin_verified p\<rparr>"

definition policy_from_prompt :: "prompt_policy \<Rightarrow> string" where
  "policy_from_prompt q =
     (if q = \<lparr>touch_required = False, pin_required = False\<rparr> then policy_hardware_key
      else if q = \<lparr>touch_required = True, pin_required = False\<rparr> then policy_touch
      else if q = \<lparr>touch_required = False, pin_required = True\<rparr> then policy_pin
      else if q = \<lparr>touch_required = True, pin_required = True\<rparr> then policy_touch_and_pin
      else policy_none)"

lemma role_set_policy_sound:
  assumes "validate_policy auth = None" and "list_all (\<lambda>p. validate_policy p = None) roles"
  shows "\<exists>q. role_set_policy auth roles = Inr q
    \<and> (\<forall>k. is_satisfied_by q k \<longrightarrow> is_satisfied_by auth k \<and> list_all (\<lambda>p. is_satisfied_by p k) roles)"
proof -
  have "validate_policy policy_none = None" by (simp add: validate_policy_def)
  moreover have "list_all (\<lambda>p. validate_policy p = None) (auth # roles)" using assms by simp
  ultimately obtain q where "satisfy_set policy_none (auth # roles) = Inr q"
    "\<forall>k. is_satisfied_by q k \<longleftrightarrow> is_satisfied_by policy_none k \<and> list_all (\<lambda>p. is_satisfied_by p k) (auth # roles)"
    using satisfy_set_least by blast
  then show ?thesis unfolding role_set_policy_def policy_that_satisfies_set_def by (intro exI [of _ q]) (simp del: satisfy_set.simps)
qed

lemma prompt_of_policy:
  assumes "is_hardware_key_policy p"
  shows "policy_from_prompt (get_prompt_policy p) = p"
  using assms unfolding is_hardware_key_policy_def
  by (elim disjE) (simp_all add: get_prompt_policy_def policy_from_prompt_def is_touch_verified_def is_pin_verified_def policy_defs)

lemma policy_of_prompt: "get_prompt_policy (policy_from_prompt q) = q"
proof (cases q)
  case (fields t p)
  show ?thesis unfolding fields
    by (cases t; cases p) (simp_all add: get_prompt_policy_def policy_from_prompt_def is_touch_verified_def is_pin_verified_def policy_defs)
qed

section \<open>Policies in error messages\<close>

lemma policy_error_roundtrip:
  assumes "validate_policy p = None"
  shows "parse_private_key_policy_error (new_private_key_policy_error p) = Inr p"
proof -
  have w: "list_all word_char p \<and> p \<noteq> []" using assms
    by (auto simp: validate_policy_def policy_defs word_char_def split: if_split_asm)
  then have t: "takeWhile word_char p = p" by (simp add: list_all_iff takeWhile_eq_all_conv)
  from w have "find_policy (''private key policy not met: '' @ p) = Some p"
    by (simp add: policy_after_def starts_with_def t)
  with assms show ?thesis by (simp add: parse_private_key_policy_error_def new_private_key_policy_error_def)
qed

end
