(* ===== verification/ConsoleClient.thy ===== *)
theory ConsoleClient
  imports WebLogin KeyPolicy "HOL-Library.Sublist"
begin

text \<open>
  The console client's side of a login: the \<^verbatim>\<open>Redirector\<close> of \<^verbatim>\<open>lib/client/sso/redirector.go\<close>. It draws a key,
  listens on a local address, gives the proxy a callback URL that carries the key, opens the answer that the
  browser brings back and hands it to the waiting command.

  The channels of capacity one are lists, and the choice of a \<^verbatim>\<open>select\<close> between two ready cases is an
  argument. The address of the local listener is an argument; the browser that is started and the link
  shortener with its random path are I/O, and so are the fields of the configuration for them. \<open>unmarshal\<close> is
  the JSON decoding of the answer.
\<close>

section \<open>URLs with their user information\<close>

text \<open>What \<^verbatim>\<open>URL.String\<close> needs beyond the parsed fields: the user information and whether the host is left out.\<close>

definition userinfo_string :: "string \<Rightarrow> string" where
  "userinfo_string s =
     (let (name, password, has_password) = cut (CHR '':'') s in
      case (unescape EncodeUserPassword name, unescape EncodeUserPassword password) of
        (Some n, Some p) \<Rightarrow> escape EncodeUserPassword n @ (if has_password then '':'' @ escape EncodeUserPassword p else [])
      | _ \<Rightarrow> [])"

definition hierarchical_part :: "string \<Rightarrow> string \<times> string" where
  "hierarchical_part raw =
     (case get_scheme (fst (cut (CHR ''#'') raw)) of
        None \<Rightarrow> ([], [])
      | Some (sch, rest) \<Rightarrow> (sch, fst (split_query rest)))"

definition parse_endpoint :: "golib \<Rightarrow> string \<Rightarrow> endpoint option" where
  "parse_endpoint U raw =
     (case url_parse U raw of
        None \<Rightarrow> None
      | Some u \<Rightarrow>
          (let (sch, rest) = hierarchical_part raw in
           Some \<lparr>ep_url = u,
             ep_userinfo = (case last_cut (CHR ''@'') (takeWhile (\<lambda>c. c \<noteq> CHR ''/'') (drop 2 rest)) of
                None \<Rightarrow> [] | Some (info, _) \<Rightarrow> userinfo_string info),
             ep_omit_host = (sch \<noteq> [] \<and> starts_with ''/'' rest \<and> \<not> starts_with ''//'' rest)\<rparr>))"

definition set_scheme :: "string \<Rightarrow> endpoint \<Rightarrow> endpoint" where
  "set_scheme s e = e\<lparr>ep_url := (ep_url e)\<lparr>url_scheme := s\<rparr>\<rparr>"

text \<open>\<^verbatim>\<open>apiutils.ParseURL\<close>: an absolute URL whose scheme may be missing.\<close>

definition parse_url :: "golib \<Rightarrow> string \<Rightarrow> endpoint option result" where
  "parse_url U addr =
     (if addr = [] then Inr None
      else case parse_endpoint U addr of
          Some e \<Rightarrow>
            if url_host (ep_url e) \<noteq> [] then Inr (Some e)
            else (case parse_endpoint U (''http://'' @ addr) of
                    None \<Rightarrow> Inl (Err OtherError ''parse'')
                  | Some e' \<Rightarrow> Inr (Some (set_scheme [] e')))
        | None \<Rightarrow>
            (case parse_endpoint U (''http://'' @ addr) of
               None \<Rightarrow> Inl (Err OtherError ''parse'')
             | Some e' \<Rightarrow> Inr (Some (set_scheme [] e'))))"

section \<open>The redirector\<close>

definition login_success_redirect_url :: string where "login_success_redirect_url = ''/web/msg/info/login_success''"
definition login_terminal_redirect_url :: string where "login_terminal_redirect_url = ''/web/msg/info/login_terminal''"
definition login_close_url :: string where "login_close_url = ''/web/msg/info/login_close''"

record redirector_config =
  rc_proxy_addr :: string
  rc_bind_addr :: string
  rc_callback_addr :: string
  rc_private_key_policy :: string
  rc_connector_display_name :: string

record 'a redirector =
  rd_config :: redirector_config
  rd_server_url :: string
  rd_client_callback_url :: string
  rd_key :: string
  rd_response_c :: "'a list"
  rd_error_c :: "err list"
  rd_done :: bool
  rd_proxy_url :: endpoint

definition base_url :: "'a redirector \<Rightarrow> string" where
  "base_url rd = (if rc_callback_addr (rd_config rd) \<noteq> [] then rc_callback_addr (rd_config rd) else rd_server_url rd)"

text \<open>
  \<open>listen\<close> gives the URL of the local server for a bind address, the empty one standing for a free port of
  the loopback interface.
\<close>

definition start_server :: "golib \<Rightarrow> (string \<Rightarrow> string result) \<Rightarrow> 'a redirector \<Rightarrow> 'a redirector result" where
  "start_server U listen rd =
     (case listen (rc_bind_addr (rd_config rd)) of
        Inl e \<Rightarrow> Inl e
      | Inr server \<Rightarrow>
          (let rd' = rd\<lparr>rd_server_url := server\<rparr> in
           case parse_endpoint U (base_url rd' @ ''/callback'') of
             None \<Rightarrow> Inl (Err OtherError ''parse'')
           | Some e \<Rightarrow>
               Inr (rd'\<lparr>rd_client_callback_url :=
                 url_string (e\<lparr>ep_url := (ep_url e)\<lparr>url_raw_query :=
                   values_encode [(''secret_key'', secret_key_string (rd_key rd))]\<rparr>\<rparr>)\<rparr>)))"

definition format_callback_addr :: "golib \<Rightarrow> string \<Rightarrow> string result" where
  "format_callback_addr U addr =
     (if addr = [] then Inr []
      else case parse_url U addr of
          Inl e \<Rightarrow> Inl e
        | Inr None \<Rightarrow> Inr []
        | Inr (Some e) \<Rightarrow> Inr (url_string (if url_scheme (ep_url e) = [] then set_scheme ''https'' e else e)))"

definition new_redirector ::
  "golib \<Rightarrow> random_source \<Rightarrow> (string \<Rightarrow> string result) \<Rightarrow> redirector_config \<Rightarrow> 'a redirector result" where
  "new_redirector U rnd listen config =
     (if rc_proxy_addr config = [] then Inl (Err BadParameter ''missing required field ProxyAddr'')
      else let addr = rc_proxy_addr config;
               proxy_addr = (if \<not> starts_with ''https://'' addr \<and> \<not> starts_with ''http://'' addr then ''https://'' @ addr else addr)
      in case parse_endpoint U proxy_addr of
           None \<Rightarrow> Inl (Err OtherError (addr @ '' is not a valid proxy address''))
         | Some proxy \<Rightarrow>
             (case secret_new_key rnd of
                Inl e \<Rightarrow> Inl e
              | Inr key \<Rightarrow>
                  (case format_callback_addr U (rc_callback_addr config) of
                     Inl e \<Rightarrow> Inl e
                   | Inr callback_addr \<Rightarrow>
                       start_server U listen
                         \<lparr>rd_config = config\<lparr>rc_callback_addr := callback_addr\<rparr>, rd_server_url = [], rd_client_callback_url = [],
                          rd_key = key, rd_response_c = [], rd_error_c = [], rd_done = False, rd_proxy_url = proxy\<rparr>)))"

section \<open>The callback of the browser\<close>

datatype http_method = MethodGet | MethodPost | MethodOptions | MethodOther

record local_request =
  lr_method :: http_method
  lr_url :: url
  lr_post_form :: query

text \<open>\<^verbatim>\<open>ParseForm\<close>: the values of the body come before those of the URL. Its error is ignored.\<close>

definition request_form :: "local_request \<Rightarrow> query" where
  "request_form r = (if lr_method r = MethodPost then lr_post_form r else []) @ url_query (url_raw_query (lr_url r))"

definition q_has :: "query \<Rightarrow> string \<Rightarrow> bool" where
  "q_has q k \<longleftrightarrow> k \<in> fst ` set q"

definition decrypt_failed :: "local_request \<Rightarrow> err \<Rightarrow> err" where
  "decrypt_failed r e = Err BadParameter (''failed to decrypt response: in ''
     @ url_string \<lparr>ep_url = lr_url r, ep_userinfo = [], ep_omit_host = False\<rparr> @ '', err: '' @ err_msg e)"

definition client_callback :: "aead \<Rightarrow> (string \<Rightarrow> 'a result) \<Rightarrow> string \<Rightarrow> local_request \<Rightarrow> 'a result" where
  "client_callback A unmarshal key r =
     (if url_path (lr_url r) \<noteq> ''/callback'' then Inl (Err NotFound ''path not found'')
      else if q_has (request_form r) ''err''
      then Inl (Err OtherError (''identity provider callback failed with error: '' @ q_get (request_form r) ''err''))
      else case secret_open A key (q_get (request_form r) ''response'') of
          Inl e \<Rightarrow> Inl (decrypt_failed r e)
        | Inr plaintext \<Rightarrow>
            (case unmarshal plaintext of
               Inl e \<Rightarrow> Inl (decrypt_failed r e)
             | Inr re \<Rightarrow> Inr re))"

datatype local_reply = ReplyStatus nat | ReplyNotFound | ReplyRedirect string

text \<open>
  A send on a channel of capacity one inside a \<^verbatim>\<open>select\<close> with the closing of the redirector: \<open>None\<close> while
  neither is ready; the choice decides when both are. The second component says whether the value was sent.
\<close>

definition send_or_done :: "bool \<Rightarrow> bool \<Rightarrow> 'b \<Rightarrow> 'b list \<Rightarrow> ('b list \<times> bool) option" where
  "send_or_done choice closed x c =
     (if c = [] \<and> (choice \<or> \<not> closed) then Some ([x], True)
      else if closed then Some (c, False)
      else None)"

definition with_path :: "string \<Rightarrow> endpoint \<Rightarrow> endpoint" where
  "with_path p e = e\<lparr>ep_url := (ep_url e)\<lparr>url_path := p\<rparr>\<rparr>"

definition error_url :: "'a redirector \<Rightarrow> string" where
  "error_url rd = url_string (with_path login_failed_redirect_url (rd_proxy_url rd))"

definition success_url :: "'a redirector \<Rightarrow> string" where
  "success_url rd = url_string (with_path login_success_redirect_url (rd_proxy_url rd))"

definition close_url :: "'a redirector \<Rightarrow> string" where
  "close_url rd = url_string (with_path login_close_url (rd_proxy_url rd))"

definition terminal_url :: "'a redirector \<Rightarrow> string" where
  "terminal_url rd =
     (let e = with_path login_terminal_redirect_url (rd_proxy_url rd);
          name = rc_connector_display_name (rd_config rd) in
      url_string (if name = [] then e
        else e\<lparr>ep_url := (ep_url e)\<lparr>url_raw_query :=
          values_encode (filter (\<lambda>(k, _). k \<noteq> ''auth'') (url_query (url_raw_query (ep_url e))) @ [(''auth'', name)])\<rparr>\<rparr>))"

definition error_redirect :: "'a redirector \<Rightarrow> err \<Rightarrow> string" where
  "error_redirect rd e =
     (case parse_private_key_policy_error e of
        Inl _ \<Rightarrow> error_url rd
      | Inr p \<Rightarrow>
          if p = policy_hardware_key \<or> p = policy_touch then close_url rd
          else if p = policy_pin \<or> p = policy_touch_and_pin then terminal_url rd
          else error_url rd)"

definition success_redirect :: "'a redirector \<Rightarrow> string" where
  "success_redirect rd =
     (if rc_private_key_policy (rd_config rd) \<in> {policy_touch, policy_touch_and_pin} then terminal_url rd else success_url rd)"

definition wrap_callback ::
  "aead \<Rightarrow> (string \<Rightarrow> 'a result) \<Rightarrow> bool \<Rightarrow> local_request \<Rightarrow> 'a redirector \<Rightarrow> (local_reply \<times> 'a redirector) option" where
  "wrap_callback A unmarshal choice r rd =
     (case lr_method r of
        MethodOther \<Rightarrow> Some (ReplyStatus 405, rd)
      | MethodOptions \<Rightarrow> Some (ReplyStatus 200, rd)
      | _ \<Rightarrow>
          (case client_callback A unmarshal (rd_key rd) r of
             Inl e \<Rightarrow>
               if err_kind e = NotFound then Some (ReplyNotFound, rd)
               else (case send_or_done choice (rd_done rd) e (rd_error_c rd) of
                       None \<Rightarrow> None
                     | Some (c, _) \<Rightarrow> Some (ReplyRedirect (error_redirect rd e), rd\<lparr>rd_error_c := c\<rparr>))
           | Inr x \<Rightarrow>
               (case send_or_done choice (rd_done rd) x (rd_response_c rd) of
                  None \<Rightarrow> None
                | Some (c, sent) \<Rightarrow>
                    Some (ReplyRedirect (if sent then success_redirect rd else error_url rd), rd\<lparr>rd_response_c := c\<rparr>))))"

section \<open>Waiting and closing\<close>

text \<open>The case of the \<^verbatim>\<open>select\<close> that is taken; \<open>None\<close> when it is not ready.\<close>

datatype wait_case = WaitError | WaitResponse | WaitTimeout | WaitClosed | WaitCanceled

fun wait_for_response :: "wait_case \<Rightarrow> 'a redirector \<Rightarrow> ('a result \<times> 'a redirector) option" where
  "wait_for_response WaitError rd =
     (case rd_error_c rd of [] \<Rightarrow> None | e # es \<Rightarrow> Some (Inl e, rd\<lparr>rd_error_c := es\<rparr>))"
| "wait_for_response WaitResponse rd =
     (case rd_response_c rd of [] \<Rightarrow> None | x # xs \<Rightarrow> Some (Inr x, rd\<lparr>rd_response_c := xs\<rparr>))"
| "wait_for_response WaitTimeout rd = Some (Inl (Err OtherError ''timed out waiting for callback''), rd)"
| "wait_for_response WaitClosed rd = (if rd_done rd then Some (Inl (Err OtherError ''redirector closed''), rd) else None)"
| "wait_for_response WaitCanceled rd = Some (Inl (Err OtherError ''canceled by user''), rd)"

text \<open>Closing a closed channel panics, which is \<open>None\<close>.\<close>

definition close_redirector :: "'a redirector \<Rightarrow> 'a redirector option" where
  "close_redirector rd = (if rd_done rd then None else Some (rd\<lparr>rd_done := True\<rparr>))"


section \<open>Query strings\<close>

lemma upper_hex_value: "n < 16 \<Longrightarrow> byte (upper_hex n) = (if n < 10 then 48 + n else 55 + n)"
  unfolding upper_hex_def by (subst of_char_of) auto

lemma upper_hex_is_hex: "n < 16 \<Longrightarrow> is_hex (upper_hex n) \<and> un_hex (upper_hex n) = n"
  by (auto simp: is_hex_def un_hex_def upper_hex_value Let_def)

lemma query_escape_Cons:
  "query_escape (c # s) = (if c = CHR '' '' then ''+'' else escape_char EncodeQuery c) @ query_escape s"
  by (simp add: query_escape_def)

lemma unescape_query_escape [simp]: "unescape EncodeQuery (query_escape s) = Some s"
proof (induction s)
  case (Cons c s)
  have special: "should_escape EncodeQuery (CHR ''%'')" "should_escape EncodeQuery (CHR ''+'')"
    by (simp_all add: should_escape_def is_alnum_def)
  show ?case
  proof (cases "c = CHR '' ''")
    case False
    then show ?thesis using Cons special nibbles [of c]
      by (auto simp: query_escape_Cons escape_char_def upper_hex_is_hex)
  qed (simp add: Cons query_escape_Cons)
qed (simp add: query_escape_def)

text \<open>What is left of a text after escaping: no separator of a query, no control character.\<close>

lemma query_escape_chars:
  "d \<in> set (query_escape s) \<Longrightarrow> is_hex d \<or> d = CHR ''%'' \<or> d = CHR ''+'' \<or> is_alnum (byte d) \<or> d \<in> set ''-_.~''"
proof (induction s)
  case (Cons c s)
  have "\<not> should_escape EncodeQuery c \<Longrightarrow> is_alnum (byte c) \<or> c \<in> set ''-_.~''"
    by (auto simp: should_escape_def split: if_split_asm)
  with Cons nibbles [of c] show ?case
    by (auto simp: query_escape_Cons escape_char_def upper_hex_is_hex split: if_split_asm)
qed (simp add: query_escape_def)

lemma query_escape_safe:
  assumes "d \<in> set (query_escape s)"
  shows "d \<notin> set ''&;=#?'' \<and> 32 \<le> byte d \<and> byte d \<noteq> 127"
  using query_escape_chars [OF assms] by (auto simp: is_hex_def is_alnum_def Let_def)

lemma split_on_none: "c \<notin> set s \<Longrightarrow> split_on c s = [s]"
  by (induction s) auto

lemma single_param:
  "values_encode [(k, v)] = query_escape k @ ''='' @ query_escape v"
  "url_query (values_encode [(k, v)]) = [(k, v)]"
  "parse_query (values_encode [(k, v)]) = Some [(k, v)]"
proof -
  show e: "values_encode [(k, v)] = query_escape k @ ''='' @ query_escape v" by (simp add: values_encode_def)
  have n: "CHR ''='' \<notin> set (query_escape k)" "CHR '';'' \<notin> set (values_encode [(k, v)])" "CHR ''&'' \<notin> set (values_encode [(k, v)])"
    unfolding e using query_escape_safe [of _ k] query_escape_safe [of _ v] by auto
  then have c: "cut (CHR ''='') (values_encode [(k, v)]) = (query_escape k, query_escape v, True)" unfolding e by simp
  show "url_query (values_encode [(k, v)]) = [(k, v)]" using n(2,3) c
    by (simp add: url_query_def split_on_none) (simp add: e)
  show "parse_query (values_encode [(k, v)]) = Some [(k, v)]" using n(2,3) c
    by (simp add: parse_query_def split_on_none) (simp add: e)
qed

lemma param_safe:
  "d \<in> set (values_encode [(k, v)]) \<Longrightarrow> d \<notin> set ''#?'' \<and> 32 \<le> byte d \<and> byte d \<noteq> 127"
  using query_escape_safe [of d k] query_escape_safe [of d v] by (auto simp: single_param(1))

section \<open>URLs of the local server\<close>

definition loopback_text :: "string \<Rightarrow> string" where
  "loopback_text ds = ''http://127.0.0.1:'' @ ds"

definition all_digits :: "string \<Rightarrow> bool" where
  "all_digits ds = list_all (\<lambda>d. 48 \<le> byte d \<and> byte d \<le> 57) ds"

definition query_text :: "string \<Rightarrow> string" where
  "query_text q = (if q = [] then [] else ''?'' @ q)"

definition safe_query :: "string \<Rightarrow> bool" where
  "safe_query q = list_all (\<lambda>d. d \<notin> set ''#?'' \<and> 32 \<le> byte d \<and> byte d \<noteq> 127) q"

definition local_url :: "string \<Rightarrow> string \<Rightarrow> url" where
  "local_url ds q = no_url\<lparr>url_scheme := ''http'', url_host := ''127.0.0.1:'' @ ds, url_path := ''/callback'', url_raw_query := q\<rparr>"

lemma digit_plain:
  assumes "all_digits ds" and "d \<in> set ds"
  shows "d \<notin> set ''#?/@[]:%'' \<and> 48 \<le> byte d \<and> byte d \<le> 57 \<and> \<not> should_escape m d"
  using assms by (auto simp: all_digits_def list_all_iff should_escape_def is_alnum_def)

lemma unescape_host_plain:
  "list_all (\<lambda>c. c \<noteq> CHR ''%'' \<and> \<not> should_escape EncodeHost c) h \<Longrightarrow> unescape EncodeHost h = Some h"
  by (induction h) auto

lemma escape_plain_chars: "list_all (\<lambda>c. \<not> should_escape m c) s \<Longrightarrow> escape m s = s"
  by (induction s) (auto simp: escape_def escape_char_def)

lemma loopback_host:
  assumes "all_digits ds"
  shows "parse_authority U (''127.0.0.1:'' @ ds) = Some (False, ''127.0.0.1:'' @ ds)"
    and "escape EncodeHost (''127.0.0.1:'' @ ds) = ''127.0.0.1:'' @ ds"
    and "split_host_port_url (''127.0.0.1:'' @ ds) = (''127.0.0.1'', ds)"
proof -
  note d = digit_plain [OF assms]
  have plain: "list_all (\<lambda>c. c \<noteq> CHR ''%'' \<and> \<not> should_escape EncodeHost c) (''127.0.0.1:'' @ ds)"
    using d by (auto simp: list_all_iff should_escape_def is_alnum_def)
  have "CHR ''@'' \<notin> set ds" "CHR ''['' \<notin> set ds" "CHR '':'' \<notin> set ds" using d by auto
  moreover have "valid_optional_port (CHR '':'' # ds)" using assms by (simp add: valid_optional_port_def all_digits_def)
  moreover from calculation have "last_cut (CHR '':'') (''127.0.0.1:'' @ ds) = Some (''127.0.0.1'', ds)" by (simp add: last_cut_Some)
  ultimately show "parse_authority U (''127.0.0.1:'' @ ds) = Some (False, ''127.0.0.1:'' @ ds)"
    and "split_host_port_url (''127.0.0.1:'' @ ds) = (''127.0.0.1'', ds)"
    using unescape_host_plain [OF plain]
    by (simp_all add: parse_authority_def parse_host_def last_cut_def split_host_port_url_def starts_with_def)
  show "escape EncodeHost (''127.0.0.1:'' @ ds) = ''127.0.0.1:'' @ ds"
    using plain by (intro escape_plain_chars) (simp add: list_all_iff)
qed

lemma cut_none: "c \<notin> set s \<Longrightarrow> cut c s = (s, [], False)"
  by (induction s) (auto simp: cut_def)

lemma split_query_text:
  assumes "CHR ''?'' \<notin> set rest" and "CHR ''?'' \<notin> set q"
  shows "split_query (rest @ query_text q) = (rest, False, q)"
proof (cases "q = []")
  case True
  with assms cut_none [of "CHR ''?''" rest] show ?thesis by (auto simp: query_text_def split_query_def ends_with_iff)
next
  case False
  with assms have "\<not> ends_with ''?'' (rest @ query_text q)"
    by (auto simp: query_text_def ends_with_iff append_eq_append_conv2 append_eq_Cons_conv Cons_eq_append_conv)
  with False assms show ?thesis by (simp add: query_text_def split_query_def)
qed

lemma callback_path:
  "set_path ''/callback'' u = Some (u\<lparr>url_path := ''/callback'', url_raw_path := []\<rparr>)"
  by (simp add: set_path_def escape_def escape_char_def should_escape_def is_alnum_def)

lemma parse_local:
  assumes ds: "all_digits ds" and q: "safe_query q"
  shows "url_parse U (loopback_text ds @ ''/callback'' @ query_text q) = Some (local_url ds q)"
    and "hierarchical_part (loopback_text ds @ ''/callback'' @ query_text q) = (''http'', ''//127.0.0.1:'' @ ds @ ''/callback'')"
proof -
  let ?raw = "loopback_text ds @ ''/callback'' @ query_text q"
  let ?rest = "''//127.0.0.1:'' @ ds @ ''/callback''"
  note d = digit_plain [OF ds]
  have hash: "CHR ''#'' \<notin> set ?raw" using d q by (auto simp: loopback_text_def query_text_def safe_query_def list_all_iff)
  have "\<not> has_ctl ds" "\<not> has_ctl (query_text q)" using d q
    by (force simp: has_ctl_def list_ex_iff, auto simp: has_ctl_def query_text_def safe_query_def list_ex_iff list_all_iff)
  then have ctl: "\<not> has_ctl ?raw" by (simp add: has_ctl_def loopback_text_def)
  have scheme: "get_scheme ?raw = Some (''http'', ?rest @ query_text q)"
    by (simp add: get_scheme_def loopback_text_def scheme_alpha_def scheme_other_def)
  have "CHR ''?'' \<notin> set ?rest" "CHR ''?'' \<notin> set q" using d q by (auto simp: safe_query_def list_all_iff)
  note sq = split_query_text [OF this]
  show "hierarchical_part ?raw = (''http'', ?rest)"
    unfolding hierarchical_part_def cut_none [OF hash] by (simp only: fst_conv scheme option.case prod.case sq)
  have "CHR ''/'' \<notin> set ds" using d by auto
  then have a: "takeWhile (\<lambda>c. c \<noteq> CHR ''/'') (drop 2 ?rest) = ''127.0.0.1:'' @ ds"
      "dropWhile (\<lambda>c. c \<noteq> CHR ''/'') (drop 2 ?rest) = ''/callback''" by (induction ds) auto
  have "map lower_char ''http'' = ''http''" by code_simp
  then have low: "to_lower U ''http'' = ''http''" using to_lower_ascii [of "''http''" U] by (simp add: is_ascii_def)
  have "parse_hierarchy U u ?rest = Some (u\<lparr>url_user := False, url_host := ''127.0.0.1:'' @ ds, url_path := ''/callback'', url_raw_path := []\<rparr>)"
    if "url_scheme u = ''http''" for u
    using that unfolding parse_hierarchy_def a Let_def loopback_host(1) [OF ds] by (simp add: starts_with_def callback_path)
  then have "parse_no_fragment U ?raw = Some (local_url ds q)"
    using ctl scheme sq low by (simp add: parse_no_fragment_def local_url_def no_url_def)
  then show "url_parse U ?raw = Some (local_url ds q)" by (simp only: url_parse_def cut_none [OF hash] Let_def prod.case option.case) simp
qed

lemma local_url_simps [simp]:
  "url_opaque (local_url ds q) = []" "\<not> url_user (local_url ds q)" "url_fragment (local_url ds q) = []"
  "url_path (local_url ds q) = ''/callback''" "url_scheme (local_url ds q) = ''http''" "url_raw_query (local_url ds q) = q"
  "url_host (local_url ds q) = ''127.0.0.1:'' @ ds" "\<not> url_force_query (local_url ds q)"
  "(local_url ds q)\<lparr>url_raw_query := q'\<rparr> = local_url ds q'" "escaped_path (local_url ds q) = ''/callback''"
  by (simp_all add: local_url_def no_url_def escaped_path_def escape_def escape_char_def should_escape_def is_alnum_def)

lemma local_hostname: "all_digits ds \<Longrightarrow> hostname (local_url ds q) = ''127.0.0.1''"
  using loopback_host(3) [of ds] by (simp add: hostname_def)

lemma parse_endpoint_local:
  assumes "all_digits ds" and "safe_query q"
  shows "parse_endpoint U (loopback_text ds @ ''/callback'' @ query_text q) =
    Some \<lparr>ep_url = local_url ds q, ep_userinfo = [], ep_omit_host = False\<rparr>"
proof -
  have "CHR ''@'' \<notin> set ds" "CHR ''/'' \<notin> set ds" using digit_plain [OF assms(1)] by auto
  then have "last_cut (CHR ''@'') (takeWhile (\<lambda>c. c \<noteq> CHR ''/'') (drop 2 (''//127.0.0.1:'' @ ds @ ''/callback''))) = None"
    by (auto simp: last_cut_def dest!: set_takeWhileD)
  then show ?thesis by (simp only: parse_endpoint_def parse_local [OF assms] option.case Let_def prod.case) (simp add: starts_with_def)
qed

lemma local_url_string:
  assumes "all_digits ds"
  shows "url_string \<lparr>ep_url = local_url ds q, ep_userinfo = [], ep_omit_host = False\<rparr> = loopback_text ds @ ''/callback'' @ query_text q"
  using loopback_host(2) [OF assms]
  by (simp add: url_string_def Let_def loopback_text_def query_text_def)

lemma safe_param: "safe_query (values_encode [(k, v)])"
  using param_safe [of _ k v] by (simp add: safe_query_def list_all_iff)

lemma safe_Nil: "safe_query []"
  by (simp add: safe_query_def)

definition key_query :: "string \<Rightarrow> string" where
  "key_query key = values_encode [(''secret_key'', secret_key_string key)]"

lemma new_redirector_local:
  assumes "new_redirector U rnd listen cfg = Inr rd" and "rc_callback_addr cfg = []"
    and "listen (rc_bind_addr cfg) = Inr (loopback_text ds)" and "all_digits ds"
  shows "rd_client_callback_url rd = loopback_text ds @ ''/callback'' @ query_text (key_query (rd_key rd))"
    and "rnd 32 = Inr (rd_key rd)" and "rd_response_c rd = []" and "rd_error_c rd = []" and "\<not> rd_done rd"
proof -
  let ?cfg = "cfg\<lparr>rc_callback_addr := []\<rparr>"
  from assms(1,2) obtain proxy key where k: "rnd 32 = Inr key"
    and s: "start_server U listen \<lparr>rd_config = ?cfg, rd_server_url = [], rd_client_callback_url = [],
      rd_key = key, rd_response_c = [], rd_error_c = [], rd_done = False, rd_proxy_url = proxy\<rparr> = Inr rd"
    by (auto simp: new_redirector_def format_callback_addr_def secret_new_key_def secret_key_size_def Let_def
        split: if_split_asm option.split_asm sum.split_asm)
  have e: "parse_endpoint U (loopback_text ds @ ''/callback'') = Some \<lparr>ep_url = local_url ds [], ep_userinfo = [], ep_omit_host = False\<rparr>"
    using parse_endpoint_local [OF assms(4) safe_Nil] by (simp add: query_text_def)
  from s assms(2,3) have rd: "rd = \<lparr>rd_config = ?cfg, rd_server_url = loopback_text ds,
      rd_client_callback_url = loopback_text ds @ ''/callback'' @ query_text (key_query key),
      rd_key = key, rd_response_c = [], rd_error_c = [], rd_done = False, rd_proxy_url = proxy\<rparr>"
    by (auto simp: start_server_def base_url_def e local_url_string [OF assms(4)] key_query_def Let_def)
  show "rd_client_callback_url rd = loopback_text ds @ ''/callback'' @ query_text (key_query (rd_key rd))"
    "rnd 32 = Inr (rd_key rd)" "rd_response_c rd = []" "rd_error_c rd = []" "\<not> rd_done rd"
    using k by (simp_all add: rd)
qed

text \<open>The proxy accepts the URL of a local client, for every ceremony and every connector.\<close>

lemma local_callback_accepted:
  assumes "all_digits ds"
  shows "validate_client_redirect U in_cidr (loopback_text ds @ ''/callback'' @ query_text (key_query key)) kind settings = None"
proof -
  have p: "url_parse U (loopback_text ds @ ''/callback'' @ query_text (key_query key)) = Some (local_url ds (key_query key))"
    by (rule parse_local(1) [OF assms]) (simp add: key_query_def safe_param)
  have "check_query ''secret_key'' (local_url ds (key_query key)) = None"
    by (simp add: check_query_def key_query_def single_param(3) only_param_def deduplicate_def append_new_def)
  with p local_hostname [OF assms] show ?thesis by (simp add: validate_client_redirect_def web_mfa_redirect_def)
qed

text \<open>The proxy's answer to a local client, and what the client reads of it.\<close>

lemma construct_for_local:
  assumes "all_digits ds" and "client_redirect_url (ar_req resp) = loopback_text ds @ ''/callback'' @ query_text (key_query key)"
    and "length key = 32" and "we_console_json W (console_response W resp) = Inr out" and "we_random W nonce_size = Inr nonce"
  shows "\<exists>c. secret_seal (we_aead W) (we_random W) key out = Inr c
    \<and> construct_ssh_response U W resp = Inr (local_url ds (values_encode [(''response'', c)]))"
proof -
  have p: "url_parse U (client_redirect_url (ar_req resp)) = Some (local_url ds (key_query key))"
    unfolding assms(2) by (rule parse_local(1) [OF assms(1)]) (simp add: key_query_def safe_param)
  have g: "q_get (url_query (key_query key)) ''secret_key'' = secret_key_string key" by (simp add: key_query_def single_param(2) q_get_def)
  have ne: "secret_key_string key \<noteq> []" using assms(3) by (auto simp: secret_key_string_def)
  show ?thesis using assms(3-5) g ne p
    by (simp add: construct_ssh_response_def web_mfa_redirect_def secret_seal_def new_cipher_def)
qed

lemma client_opens_answer:
  assumes "aead_correct A" and "fills rnd" and "secret_seal A rnd key out = Inr c" and "unmarshal out = Inr x"
    and "url_path (lr_url r) = ''/callback''" and "url_raw_query (lr_url r) = values_encode [(''response'', c)]" and "lr_method r = MethodGet"
  shows "client_callback A unmarshal key r = Inr x"
  using open_sealed [OF assms(1-3)] assms(4-7)
  by (simp add: client_callback_def request_form_def single_param(2) q_has_def q_get_def)

section \<open>Runs of a redirector\<close>

datatype 'a client_event = Served local_request local_reply | Waited "'a result" | Closed

inductive client_step :: "aead \<Rightarrow> (string \<Rightarrow> 'a result) \<Rightarrow> 'a redirector \<Rightarrow> 'a client_event \<Rightarrow> 'a redirector \<Rightarrow> bool"
  for A unmarshal where
  serve: "wrap_callback A unmarshal choice r rd = Some (reply, rd') \<Longrightarrow> client_step A unmarshal rd (Served r reply) rd'"
| wait: "wait_for_response c rd = Some (res, rd') \<Longrightarrow> client_step A unmarshal rd (Waited res) rd'"
| close: "close_redirector rd = Some rd' \<Longrightarrow> client_step A unmarshal rd Closed rd'"

inductive client_run :: "aead \<Rightarrow> (string \<Rightarrow> 'a result) \<Rightarrow> 'a redirector \<Rightarrow> 'a client_event list \<Rightarrow> 'a redirector \<Rightarrow> bool"
  for A unmarshal rd0 where
  start: "client_run A unmarshal rd0 [] rd0"
| step: "client_run A unmarshal rd0 tr rd \<Longrightarrow> client_step A unmarshal rd ev rd' \<Longrightarrow> client_run A unmarshal rd0 (tr @ [ev]) rd'"

text \<open>The answers that the waiting command got, and those that the served requests carried.\<close>

fun returned :: "'a client_event \<Rightarrow> 'a list" where
  "returned (Waited (Inr x)) = [x]"
| "returned _ = []"

definition genuine :: "aead \<Rightarrow> (string \<Rightarrow> 'a result) \<Rightarrow> string \<Rightarrow> local_request \<Rightarrow> 'a list" where
  "genuine A unmarshal key r =
     (if lr_method r = MethodGet \<or> lr_method r = MethodPost
      then (case client_callback A unmarshal key r of Inl _ \<Rightarrow> [] | Inr x \<Rightarrow> [x])
      else [])"

fun carried :: "aead \<Rightarrow> (string \<Rightarrow> 'a result) \<Rightarrow> string \<Rightarrow> 'a client_event \<Rightarrow> 'a list" where
  "carried A unmarshal key (Served r reply) = genuine A unmarshal key r"
| "carried A unmarshal key _ = []"

lemma send_or_done_Some:
  "send_or_done choice closed x c = Some (c', sent) \<longleftrightarrow>
     c = [] \<and> (choice \<or> \<not> closed) \<and> c' = [x] \<and> sent \<or> closed \<and> \<not> (c = [] \<and> choice) \<and> c' = c \<and> \<not> sent"
  by (auto simp: send_or_done_def)

lemma wrap_callback_step:
  assumes "wrap_callback A unmarshal choice r rd = Some (reply, rd')"
  shows "rd_key rd' = rd_key rd" and "length (rd_error_c rd) \<le> 1 \<Longrightarrow> length (rd_error_c rd') \<le> 1"
    and "rd_response_c rd' = rd_response_c rd
      \<or> rd_response_c rd = [] \<and> (\<exists>x. rd_response_c rd' = [x] \<and> genuine A unmarshal (rd_key rd) r = [x])"
  using assms
  by (auto simp: wrap_callback_def genuine_def send_or_done_Some
      split: http_method.split_asm sum.split_asm if_split_asm option.split_asm prod.split_asm)

lemma wait_step:
  assumes "wait_for_response c rd = Some (res, rd')"
  shows "rd_key rd' = rd_key rd" and "length (rd_error_c rd') \<le> length (rd_error_c rd)"
    and "rd_response_c rd = returned (Waited res) @ rd_response_c rd'"
  using assms by (cases c; auto split: list.split_asm if_split_asm)+

lemma close_step:
  assumes "close_redirector rd = Some rd'" shows "rd' = rd\<lparr>rd_done := True\<rparr>"
  using assms by (auto simp: close_redirector_def split: if_split_asm)

lemma client_run_answers:
  assumes "client_run A unmarshal rd0 tr rd" and "rd_response_c rd0 = []" and "rd_error_c rd0 = []"
  shows "rd_key rd = rd_key rd0 \<and> length (rd_response_c rd) \<le> 1 \<and> length (rd_error_c rd) \<le> 1
    \<and> subseq (concat (map returned tr) @ rd_response_c rd) (concat (map (carried A unmarshal (rd_key rd0)) tr))"
  using assms
proof (induction rule: client_run.induct)
  case (step tr rd ev rd')
  then have key: "rd_key rd = rd_key rd0" and len: "length (rd_response_c rd) \<le> 1" "length (rd_error_c rd) \<le> 1"
    and sub: "subseq (concat (map returned tr) @ rd_response_c rd) (concat (map (carried A unmarshal (rd_key rd0)) tr))" by auto
  from step.hyps(2) show ?case
  proof cases
    case (serve choice r reply)
    from wrap_callback_step(3) [OF serve(2)] show ?thesis
    proof (elim disjE conjE exE)
      assume "rd_response_c rd' = rd_response_c rd"
      with serve key len sub wrap_callback_step(1,2) [OF serve(2)] show ?thesis by (simp add: list_emb_prefix)
    next
      fix x assume "rd_response_c rd = []" "rd_response_c rd' = [x]" "genuine A unmarshal (rd_key rd) r = [x]"
      with serve key len sub wrap_callback_step(1,2) [OF serve(2)] list_emb_append_mono [OF sub, of "[x]" "[x]"] show ?thesis by simp
    qed
  next
    case (wait c res)
    from wait_step [OF wait(2)] wait key len sub show ?thesis by simp
  next
    case close
    from close_step [OF close(2)] close key len sub show ?thesis by simp
  qed
qed simp

section \<open>Properties\<close>

text \<open>The proxy's answer to a local client, brought back by the browser, is what the waiting command returns.\<close>

lemma answer_reaches_client:
  assumes "new_redirector U rnd listen cfg = Inr rd" and "rc_callback_addr cfg = []"
    and "listen (rc_bind_addr cfg) = Inr (loopback_text ds)" and "all_digits ds" and "fills rnd"
    and "client_redirect_url (ar_req resp) = rd_client_callback_url rd"
    and "aead_correct (we_aead W)" and "fills (we_random W)" and "we_random W nonce_size = Inr nonce"
    and "we_console_json W (console_response W resp) = Inr out" and "unmarshal out = Inr x"
  shows "\<exists>u rd'. construct_ssh_response U W resp = Inr u
    \<and> url_string \<lparr>ep_url = u, ep_userinfo = [], ep_omit_host = False\<rparr> = loopback_text ds @ ''/callback?'' @ url_raw_query u
    \<and> wrap_callback (we_aead W) unmarshal choice \<lparr>lr_method = MethodGet,
        lr_url = no_url\<lparr>url_path := ''/callback'', url_raw_query := url_raw_query u\<rparr>, lr_post_form = []\<rparr> rd =
          Some (ReplyRedirect (success_redirect rd), rd')
    \<and> wait_for_response WaitResponse rd' = Some (Inr x, rd)"
proof -
  note rd = new_redirector_local [OF assms(1-4)]
  have len: "length (rd_key rd) = 32" using assms(5) rd(2) by (simp add: fills_def)
  from assms(6) rd(1) have url: "client_redirect_url (ar_req resp) = loopback_text ds @ ''/callback'' @ query_text (key_query (rd_key rd))" by simp
  from construct_for_local [OF assms(4) url len assms(10,9)] obtain c
    where c: "secret_seal (we_aead W) (we_random W) (rd_key rd) out = Inr c"
      "construct_ssh_response U W resp = Inr (local_url ds (values_encode [(''response'', c)]))" by blast
  let ?q = "values_encode [(''response'', c)]"
  let ?r = "\<lparr>lr_method = MethodGet, lr_url = no_url\<lparr>url_path := ''/callback'', url_raw_query := ?q\<rparr>, lr_post_form = []\<rparr>"
  have "client_callback (we_aead W) unmarshal (rd_key rd) ?r = Inr x"
    using assms(11) by (intro client_opens_answer [OF assms(7,8) c(1)]) simp_all
  then have "wrap_callback (we_aead W) unmarshal choice ?r rd = Some (ReplyRedirect (success_redirect rd), rd\<lparr>rd_response_c := [x]\<rparr>)"
    using rd(3,5) by (simp add: wrap_callback_def send_or_done_def)
  moreover have "wait_for_response WaitResponse (rd\<lparr>rd_response_c := [x]\<rparr>) = Some (Inr x, rd)" using rd(3) by (cases rd) simp
  moreover have "?q \<noteq> []" by (simp add: single_param(1))
  ultimately show ?thesis
    using c(2) local_url_string [OF assms(4), of ?q]
    by (intro exI [of _ "local_url ds ?q"] exI [of _ "rd\<lparr>rd_response_c := [x]\<rparr>"]) (simp add: query_text_def)
qed

text \<open>
  Property C10: a console login comes back to the client that started it. The callback URL of a client whose local
  server is on the loopback interface is accepted for every ceremony and connector. When a login was started
  with that URL, and its callback is validated before the request expires, whatever others did in the backend
  meanwhile, the proxy sets no cookie and sends the browser to the client's own server; and the request
  that the browser makes there lets the waiting command return exactly the answer, with the user, the
  certificates and the host authorities of the validated callback. The code relies on the JSON encodings, on a
  cipher that opens what it sealed and on random sources that fill their buffer.
\<close>

theorem console_login_end_to_end:
  assumes "new_redirector (le_lib E) rnd listen cfg = Inr rd" and "rc_callback_addr cfg = []"
    and "listen (rc_bind_addr cfg) = Inr (loopback_text ds)" and "all_digits ds" and "fills rnd"
    and "cq_redirect_url q = rd_client_callback_url rd" and "check_console_req q = None" and "mem_auth (lw_mem w)"
    and "create_auth_request E (Inr sec) (auth_request_for_console_login r q remote) w = (Inr req, w1)"
    and "unmarshal_request (le_codec E) (marshal_request (le_codec E) req) = Inr req"
    and "mem_run (login_keys (sec_state sec)) (\<lambda>_. False) (le_t_claim E) (lw_mem w1) (le_t_lookup E') (lw_mem w2)"
    and "le_t_lookup E' < le_t_claim E + le_ttl E" and "le_codec E' = le_codec E" and "le_lib E' = le_lib E"
    and "q_get (url_query (hr_raw_query r')) ''state'' = sec_state sec"
    and "validate_oidc_auth_callback E' (url_query (hr_raw_query r')) w2 = (Inr resp, w3)"
    and "we_proxy_client W" and "aead_correct (we_aead W)" and "fills (we_random W)" and "we_random W nonce_size = Inr nonce"
    and "we_console_json W (console_response W resp) = Inr out" and "unmarshal out = Inr (console_response W resp)"
  shows "validate_client_redirect (le_lib E) in_cidr (rd_client_callback_url rd) kind settings = None
    \<and> (\<exists>u rd'. web_callback E' W r' w2 = ((DestURL u, []), w3)
        \<and> url_string \<lparr>ep_url = u, ep_userinfo = [], ep_omit_host = False\<rparr> = loopback_text ds @ ''/callback?'' @ url_raw_query u
        \<and> wrap_callback (we_aead W) unmarshal choice \<lparr>lr_method = MethodGet,
            lr_url = no_url\<lparr>url_path := ''/callback'', url_raw_query := url_raw_query u\<rparr>, lr_post_form = []\<rparr> rd =
              Some (ReplyRedirect (success_redirect rd), rd')
        \<and> wait_for_response WaitResponse rd' = Some (Inr (console_response W resp), rd))"
proof -
  obtain a w4 where v: "validate_callback E' (url_query (hr_raw_query r')) w2 = (Inr resp, a, w4)"
    using assms(16) by (auto simp: validate_oidc_auth_callback_def split: prod.split_asm)
  note kept = console_request_kept [OF assms(8-13,15) v]
  have keys: "cq_ssh_pub_key q \<noteq> [] \<or> cq_tls_pub_key q \<noteq> []"
    using assms(7) by (auto simp: check_console_req_def check_public_keys_def split: if_split_asm)
  from kept(1) assms(6) have "client_redirect_url (ar_req resp) = rd_client_callback_url rd" by simp
  from answer_reaches_client [where unmarshal = unmarshal and choice = choice, OF assms(1-5) this assms(18-22)]
  obtain u rd' where u: "construct_ssh_response (le_lib E) W resp = Inr u"
    and rest: "url_string \<lparr>ep_url = u, ep_userinfo = [], ep_omit_host = False\<rparr> = loopback_text ds @ ''/callback?'' @ url_raw_query u"
      "wrap_callback (we_aead W) unmarshal choice \<lparr>lr_method = MethodGet,
        lr_url = no_url\<lparr>url_path := ''/callback'', url_raw_query := url_raw_query u\<rparr>, lr_post_form = []\<rparr> rd =
          Some (ReplyRedirect (success_redirect rd), rd')"
      "wait_for_response WaitResponse rd' = Some (Inr (console_response W resp), rd)" by blast
  have "finish_callback (le_lib E') W r' resp = (DestURL u, [])"
    using kept(2-4) keys u assms(14) by (auto simp: finish_callback_def)
  then have "web_callback E' W r' w2 = ((DestURL u, []), w3)" by (simp add: web_callback_def assms(16,17))
  moreover have "validate_client_redirect (le_lib E) in_cidr (rd_client_callback_url rd) kind settings = None"
    using local_callback_accepted [OF assms(4)] new_redirector_local(1) [OF assms(1-4)] by simp
  ultimately show ?thesis using rest by blast
qed

lemma new_redirector_fresh:
  "new_redirector U rnd listen cfg = Inr rd \<Longrightarrow> rd_response_c rd = [] \<and> rd_error_c rd = [] \<and> \<not> rd_done rd"
  by (auto simp: new_redirector_def start_server_def Let_def split: if_split_asm option.split_asm sum.split_asm)

lemma client_callback_ok:
  assumes "client_callback A unmarshal key r = Inr x"
  shows "url_path (lr_url r) = ''/callback''" and "\<not> q_has (request_form r) ''err''"
    and "\<exists>p. secret_open A key (q_get (request_form r) ''response'') = Inr p \<and> unmarshal p = Inr x"
  using assms unfolding client_callback_def by (simp_all split: if_split_asm sum.split_asm)

lemma genuine_sealed:
  assumes "aead_correct A" and "x \<in> set (genuine A unmarshal key r)"
  shows "url_path (lr_url r) = ''/callback'' \<and> \<not> q_has (request_form r) ''err''
    \<and> (\<exists>nonce p. ae_unmarshal A (q_get (request_form r) ''response'') =
          Inr \<lparr>sd_ciphertext = ae_seal A key nonce p, sd_nonce = nonce\<rparr> \<and> unmarshal p = Inr x)"
proof -
  have c: "client_callback A unmarshal key r = Inr x"
  proof -
    have "genuine A unmarshal key r = [] \<or> (\<exists>y. client_callback A unmarshal key r = Inr y \<and> genuine A unmarshal key r = [y])"
      by (simp add: genuine_def split: sum.split)
    with assms(2) show ?thesis by auto
  qed
  from client_callback_ok(3) [OF c] open_only_sealed [OF assms(1)] show ?thesis
    using client_callback_ok(1,2) [OF c] by blast
qed

text \<open>
  Property C9: nobody without the key can log a console in. Over any requests to the local server, from whatever
  program, and in any interleaving with the waiting command and the closing, the answers that the command
  gets are among the answers that requests to the callback carried, in their order and each at most once;
  and each comes from a request whose text was sealed with the client's key. The channels never hold more
  than one value.
\<close>

theorem client_returns_only_sealed_answers:
  assumes "new_redirector U rnd listen cfg = Inr rd0" and "aead_correct A" and "client_run A unmarshal rd0 tr rd"
  shows "length (rd_response_c rd) \<le> 1 \<and> length (rd_error_c rd) \<le> 1
    \<and> subseq (concat (map returned tr)) (concat (map (carried A unmarshal (rd_key rd0)) tr))
    \<and> (\<forall>x \<in> set (concat (map returned tr)). \<exists>r reply nonce p. Served r reply \<in> set tr
         \<and> url_path (lr_url r) = ''/callback'' \<and> \<not> q_has (request_form r) ''err''
         \<and> ae_unmarshal A (q_get (request_form r) ''response'') =
             Inr \<lparr>sd_ciphertext = ae_seal A (rd_key rd0) nonce p, sd_nonce = nonce\<rparr> \<and> unmarshal p = Inr x)"
proof -
  let ?got = "concat (map returned tr)" let ?sent = "concat (map (carried A unmarshal (rd_key rd0)) tr)"
  from client_run_answers [OF assms(3)] new_redirector_fresh [OF assms(1)]
  have len: "length (rd_response_c rd) \<le> 1" "length (rd_error_c rd) \<le> 1" and sub: "subseq (?got @ rd_response_c rd) ?sent" by auto
  have "subseq ?got (?got @ rd_response_c rd)" by (rule prefix_imp_subseq) (rule prefixI, rule refl)
  then have sub': "subseq ?got ?sent" using sub by (rule subseq_order.trans)
  have "\<exists>r reply nonce p. Served r reply \<in> set tr \<and> url_path (lr_url r) = ''/callback'' \<and> \<not> q_has (request_form r) ''err'' \<and> ae_unmarshal A (q_get (request_form r) ''response'') =
      Inr \<lparr>sd_ciphertext = ae_seal A (rd_key rd0) nonce p, sd_nonce = nonce\<rparr> \<and> unmarshal p = Inr x"
    if "x \<in> set ?got" for x
  proof -
    from list_emb_set [OF sub' that] have "x \<in> set ?sent" by auto
    then obtain ev where "ev \<in> set tr" "x \<in> set (carried A unmarshal (rd_key rd0) ev)" by auto
    with genuine_sealed [OF assms(2), of x unmarshal "rd_key rd0"] show ?thesis by (cases ev) auto
  qed
  with len sub' show ?thesis by blast
qed

section \<open>A concrete client\<close>

definition sample_client_config :: redirector_config where
  "sample_client_config = \<lparr>rc_proxy_addr = ''tp.ex.com'', rc_bind_addr = [], rc_callback_addr = [],
     rc_private_key_policy = policy_none, rc_connector_display_name = []\<rparr>"

definition sample_listen :: "string \<Rightarrow> string result" where
  "sample_listen addr = Inr (loopback_text ''8080'')"

definition sample_client :: "cli_login_response redirector" where
  "sample_client = projr (new_redirector ascii_tables toy_random sample_listen sample_client_config)"

lemma sample_client_started: "new_redirector ascii_tables toy_random sample_listen sample_client_config = Inr sample_client"
proof -
  have "\<not> is_err (new_redirector ascii_tables toy_random sample_listen sample_client_config :: cli_login_response redirector result)"
    by code_simp
  then show ?thesis by (auto simp: sample_client_def is_err_def split: sum.split_asm)
qed

lemma sample_listener: "sample_listen (rc_bind_addr sample_client_config) = Inr (loopback_text ''8080'')" "all_digits ''8080''"
    "rc_callback_addr sample_client_config = []"
  by (simp_all add: sample_listen_def all_digits_def sample_client_config_def)

text \<open>The sample console login is the one of this client.\<close>

lemma sample_client_url: "rd_client_callback_url sample_client = sample_redirect_url"
proof -
  note c = new_redirector_local [OF sample_client_started sample_listener(3,1,2)]
  from c(2) have "rd_key sample_client = replicate 32 (CHR ''r'')" by (simp add: toy_random_def)
  with c(1) have "rd_client_callback_url sample_client = loopback_text ''8080'' @ ''/callback'' @ query_text (key_query (replicate 32 (CHR ''r'')))" by simp
  also have "\<dots> = sample_redirect_url" by code_simp
  finally show ?thesis .
qed

theorem console_login_end_to_end_witness:
  "\<exists>resp u w3 rd'. web_callback console_env sample_web answer_browser sample_world = ((DestURL u, []), w3)
     \<and> wrap_callback toy_aead (\<lambda>_. Inr (console_response sample_web resp)) True \<lparr>lr_method = MethodGet,
         lr_url = no_url\<lparr>url_path := ''/callback'', url_raw_query := url_raw_query u\<rparr>, lr_post_form = []\<rparr> sample_client =
           Some (ReplyRedirect (success_redirect sample_client), rd')
     \<and> wait_for_response WaitResponse rd' = Some (Inr (console_response sample_web resp), sample_client)"
proof -
  obtain resp w3 where v: "validate_oidc_auth_callback console_env (url_query (hr_raw_query answer_browser)) sample_world = (Inr resp, w3)"
    using console_succeeds by (auto simp: validate_oidc_auth_callback_def sample_answer_query)
  have w: "we_random sample_web nonce_size = Inr (replicate 12 (CHR ''r''))" "we_proxy_client sample_web"
    "we_console_json sample_web (console_response sample_web resp) = Inr ''{}''"
    "aead_correct (we_aead sample_web)" "fills (we_random sample_web)" "we_aead sample_web = toy_aead"
    by (simp_all add: sample_web_def toy_random_def nonce_size_def toy_aead_correct toy_random_fills)
  have url: "cq_redirect_url sample_console = rd_client_callback_url sample_client"
    by (simp add: sample_console_def sample_client_url)
  have ok: "check_console_req sample_console = None"
    by (simp add: check_console_req_def check_public_keys_def sample_console_def sample_redirect_url_def)
  have m: "mem_auth (lw_mem sample_start)" by (simp add: sample_start_def)
  have run: "mem_run (login_keys (sec_state sample_secrets)) (\<lambda>_. False) (le_t_claim (console_env\<lparr>le_t_claim := 0\<rparr>))
      (lw_mem sample_world) (le_t_lookup console_env) (lw_mem sample_world)"
    by (rule mem_run.wait) (simp add: second_def)
  have st: "q_get (url_query (hr_raw_query answer_browser)) ''state'' = sec_state sample_secrets"
    by (simp add: sample_answer_query sample_query_def q_get_def sample_secrets_def)
  have start: "new_redirector (le_lib (console_env\<lparr>le_t_claim := 0\<rparr>)) toy_random sample_listen sample_client_config = Inr sample_client"
    using sample_client_started by simp
  from console_login_end_to_end [where unmarshal = "\<lambda>_. Inr (console_response sample_web resp)" and choice = True,
      OF start sample_listener(3,1,2) toy_random_fills url ok m console_create _ run _ _ _ st v w(2,4,5,1,3)]
  show ?thesis unfolding w(6) by (simp add: second_def) blast
qed

text \<open>A decoder that reads the text as the name of the user.\<close>

definition user_answer :: "string \<Rightarrow> cli_login_response" where
  "user_answer p = \<lparr>cl_username = p, cl_cert = [], cl_tls_cert = [], cl_host_signers = [], cl_client_options = []\<rparr>"

lemma sample_client_run:
  "\<exists>tr rd. client_run toy_aead (Inr \<circ> user_answer) sample_client tr rd \<and> concat (map returned tr) = [user_answer ''alice'']"
proof -
  have "length (rd_key sample_client) = 32"
    using new_redirector_local(2) [OF sample_client_started sample_listener(3,1,2)] toy_random_fills
    by (auto simp: fills_def)
  then obtain c where c: "secret_seal toy_aead toy_random (rd_key sample_client) ''alice'' = Inr c"
    by (simp add: secret_seal_def new_cipher_def toy_random_def)
  let ?r = "\<lparr>lr_method = MethodGet, lr_url = no_url\<lparr>url_path := ''/callback'',
    url_raw_query := values_encode [(''response'', c)]\<rparr>, lr_post_form = []\<rparr>"
  have "client_callback toy_aead (Inr \<circ> user_answer) (rd_key sample_client) ?r = Inr (user_answer ''alice'')"
    by (intro client_opens_answer [OF toy_aead_correct toy_random_fills c]) simp_all
  with new_redirector_fresh [OF sample_client_started]
  have "wrap_callback toy_aead (Inr \<circ> user_answer) True ?r sample_client =
      Some (ReplyRedirect (success_redirect sample_client), sample_client\<lparr>rd_response_c := [user_answer ''alice'']\<rparr>)"
    by (simp add: wrap_callback_def send_or_done_def)
  from client_run.step [OF client_run.step [OF client_run.start client_step.serve [OF this]] client_step.wait [of WaitResponse]]
  show ?thesis by (intro exI conjI) (simp, simp)
qed

theorem client_returns_only_sealed_answers_witness:
  "\<exists>tr rd. client_run toy_aead (Inr \<circ> user_answer) sample_client tr rd \<and> concat (map returned tr) = [user_answer ''alice'']
     \<and> (\<exists>r reply nonce. Served r reply \<in> set tr \<and> ae_unmarshal toy_aead (q_get (request_form r) ''response'') =
          Inr \<lparr>sd_ciphertext = ae_seal toy_aead (rd_key sample_client) nonce ''alice'', sd_nonce = nonce\<rparr>)"
proof -
  obtain tr rd where run: "client_run toy_aead (Inr \<circ> user_answer) sample_client tr rd" and got: "concat (map returned tr) = [user_answer ''alice'']"
    using sample_client_run by blast
  from client_returns_only_sealed_answers [OF sample_client_started toy_aead_correct run]
  obtain r reply nonce p where "Served r reply \<in> set tr" "user_answer p = user_answer ''alice''"
    "ae_unmarshal toy_aead (q_get (request_form r) ''response'') =
       Inr \<lparr>sd_ciphertext = ae_seal toy_aead (rd_key sample_client) nonce p, sd_nonce = nonce\<rparr>"
    unfolding got by auto
  with run got show ?thesis by (auto simp: user_answer_def)
qed

end
