(* ===== verification/AuthWire.thy ===== *)
theory AuthWire
  imports RolesServer
begin

text \<open>
  Between the proxy and the Auth Service: \<^verbatim>\<open>validateCallbackHandler\<close> of \<^verbatim>\<open>lib/googleoidc/plugin.go\<close> and
  \<^verbatim>\<open>HTTPClient.ValidateOIDCAuthCallback\<close> of \<^verbatim>\<open>lib/auth/authclient/http_client.go\<close>. The proxy posts the query
  of the callback; the Auth Service answers with a raw response in which the web session and the host
  authorities are resources of their own. HTTP and JSON are the fields of \<open>wire\<close>, over
  whatever the bodies of the messages are. The token of a second factor, which this login never has, is left
  out. \<^verbatim>\<open>authRequestFromProto\<close>, which the login service applies when it builds its response, is applied where
  the response is written.
\<close>

record wire_request =
  wq_connector_id :: string
  wq_csrf_token :: string
  wq_ssh_pub_key :: string
  wq_tls_pub_key :: string
  wq_create_web_session :: bool
  wq_client_redirect_url :: string

record raw_response =
  rr_username :: string
  rr_identity :: external_identity
  rr_session :: string
  rr_cert :: string
  rr_tls_cert :: string
  rr_req :: wire_request
  rr_host_signers :: "string list"
  rr_client_options :: string

record 'b wire =
  wi_marshal_session :: "string \<Rightarrow> string result"
  wi_unmarshal_session :: "string \<Rightarrow> string result"
  wi_marshal_ca :: "string \<Rightarrow> string result"
  wi_unmarshal_ca :: "string \<Rightarrow> string result"
  wi_encode_query :: "query \<Rightarrow> 'b"
  wi_read_query :: "'b \<Rightarrow> query result"
  wi_encode_response :: "raw_response result \<Rightarrow> 'b"
  wi_read_response :: "'b \<Rightarrow> raw_response result"

definition auth_request_from_proto :: "oidc_auth_request \<Rightarrow> wire_request" where
  "auth_request_from_proto req =
     \<lparr>wq_connector_id = connector_id req, wq_csrf_token = csrf_token req, wq_ssh_pub_key = ssh_public_key req,
      wq_tls_pub_key = tls_public_key req, wq_create_web_session = create_web_session req,
      wq_client_redirect_url = client_redirect_url req\<rparr>"

text \<open>The client's view of the request: the fields that do not travel are empty.\<close>

definition request_of_wire :: "wire_request \<Rightarrow> oidc_auth_request" where
  "request_of_wire q =
     zero_request\<lparr>connector_id := wq_connector_id q, csrf_token := wq_csrf_token q, ssh_public_key := wq_ssh_pub_key q,
       tls_public_key := wq_tls_pub_key q, create_web_session := wq_create_web_session q,
       client_redirect_url := wq_client_redirect_url q\<rparr>"

text \<open>A loop over a list that stops at the first error.\<close>

fun map_result :: "('a \<Rightarrow> 'b result) \<Rightarrow> 'a list \<Rightarrow> 'b list result" where
  "map_result f [] = Inr []"
| "map_result f (x # xs) =
     (case f x of
        Inl e \<Rightarrow> Inl e
      | Inr y \<Rightarrow> (case map_result f xs of Inl e \<Rightarrow> Inl e | Inr ys \<Rightarrow> Inr (y # ys)))"

section \<open>The handler of the Auth Service (plugin.go)\<close>

definition encode_response :: "'b wire \<Rightarrow> auth_response \<Rightarrow> raw_response result" where
  "encode_response V resp =
     (let raw = \<lparr>rr_username = ar_username resp, rr_identity = ar_identity resp, rr_session = [],
            rr_cert = fst (certs_of resp), rr_tls_cert = snd (certs_of resp), rr_req = auth_request_from_proto (ar_req resp),
            rr_host_signers = [], rr_client_options = client_options_of resp\<rparr> in
      case (case ar_session resp of None \<Rightarrow> Inr [] | Some s \<Rightarrow> wi_marshal_session V s) of
        Inl e \<Rightarrow> Inl e
      | Inr session \<Rightarrow>
          (case map_result (wi_marshal_ca V) (ar_host_signers resp) of
             Inl e \<Rightarrow> Inl e
           | Inr cas \<Rightarrow> Inr (raw\<lparr>rr_session := session, rr_host_signers := cas\<rparr>)))"

definition validate_callback_handler ::
  "'b wire \<Rightarrow> roles_server \<Rightarrow> login_env \<Rightarrow> 'b \<Rightarrow> world \<Rightarrow> raw_response result \<times> world" where
  "validate_callback_handler V A E body w =
     (case wi_read_query V body of
        Inl e \<Rightarrow> (Inl e, w)
      | Inr q \<Rightarrow>
          (case roles_validate_callback A E q w of
             (Inl e, w') \<Rightarrow> (Inl e, w')
           | (Inr resp, w') \<Rightarrow> (encode_response V resp, w')))"

section \<open>The client of the proxy (http_client.go)\<close>

definition decode_response :: "'b wire \<Rightarrow> raw_response \<Rightarrow> auth_response result" where
  "decode_response V raw =
     (let resp = \<lparr>ar_username = rr_username raw, ar_identity = rr_identity raw, ar_req = request_of_wire (rr_req raw),
            ar_session = None,
            ar_certs = (if rr_cert raw = [] \<and> rr_tls_cert raw = [] then None else Some (rr_cert raw, rr_tls_cert raw)),
            ar_host_signers = [],
            ar_client_options = (if rr_client_options raw = [] then None else Some (rr_client_options raw))\<rparr> in
      case (if rr_session raw = [] then Inr None else map_sum id Some (wi_unmarshal_session V (rr_session raw))) of
        Inl e \<Rightarrow> Inl e
      | Inr session \<Rightarrow>
          (case map_result (wi_unmarshal_ca V) (rr_host_signers raw) of
             Inl e \<Rightarrow> Inl e
           | Inr cas \<Rightarrow> Inr (resp\<lparr>ar_session := session, ar_host_signers := cas\<rparr>)))"

definition http_validate_callback ::
  "'b wire \<Rightarrow> roles_server \<Rightarrow> login_env \<Rightarrow> query \<Rightarrow> world \<Rightarrow> auth_response result \<times> world" where
  "http_validate_callback V A E q w =
     (case validate_callback_handler V A E (wi_encode_query V q) w of
        (res, w') \<Rightarrow>
          (case wi_read_response V (wi_encode_response V res) of
             Inl e \<Rightarrow> (Inl e, w')
           | Inr raw \<Rightarrow> (decode_response V raw, w')))"

text \<open>The callback handler of the proxy over the wire.\<close>

definition proxy_callback ::
  "'b wire \<Rightarrow> roles_server \<Rightarrow> login_env \<Rightarrow> web_env \<Rightarrow> http_request \<Rightarrow> world \<Rightarrow> (destination \<times> cookie list) \<times> world" where
  "proxy_callback V A E W r w =
     (if \<not> we_proxy_client W then ((DestText login_failed_bad_callback_redirect_url, []), w)
      else case http_validate_callback V A E (url_query (hr_raw_query r)) w of
          (Inl _, w') \<Rightarrow> ((DestText login_failed_bad_callback_redirect_url, []), w')
        | (Inr resp, w') \<Rightarrow> (finish_callback (le_lib E) W r resp, w'))"

section \<open>What is relied on of the wire\<close>

text \<open>
  Sessions and authorities are written, not as nothing, and read back; the body of the request reads as the
  same first values, in whatever order of the keys; and the answer reads as the raw response, or as an
  error when it was one.
\<close>

definition wire_faithful :: "'b wire \<Rightarrow> bool" where
  "wire_faithful V \<longleftrightarrow>
     (\<forall>s. \<exists>t. wi_marshal_session V s = Inr t \<and> t \<noteq> [] \<and> wi_unmarshal_session V t = Inr s)
     \<and> (\<forall>s. \<exists>t. wi_marshal_ca V s = Inr t \<and> wi_unmarshal_ca V t = Inr s)
     \<and> (\<forall>q. \<exists>q'. wi_read_query V (wi_encode_query V q) = Inr q' \<and> q_get q' = q_get q)
     \<and> (\<forall>raw. wi_read_response V (wi_encode_response V (Inr raw)) = Inr raw)
     \<and> (\<forall>e. is_err (wi_read_response V (wi_encode_response V (Inl e))))"

lemma wire_faithfulD:
  assumes "wire_faithful V"
  shows "\<exists>t. wi_marshal_session V s = Inr t \<and> t \<noteq> [] \<and> wi_unmarshal_session V t = Inr s"
    and "\<exists>t. wi_marshal_ca V s = Inr t \<and> wi_unmarshal_ca V t = Inr s"
    and "\<exists>q'. wi_read_query V (wi_encode_query V q) = Inr q' \<and> q_get q' = q_get q"
    and "wi_read_response V (wi_encode_response V (Inr raw)) = Inr raw"
    and "\<exists>e'. wi_read_response V (wi_encode_response V (Inl e)) = Inl e'"
proof -
  have "is_err (wi_read_response V (wi_encode_response V (Inl e)))" using assms unfolding wire_faithful_def by blast
  then show "\<exists>e'. wi_read_response V (wi_encode_response V (Inl e)) = Inl e'" by (simp add: is_err_def split: sum.split_asm)
qed (use assms in \<open>unfold wire_faithful_def, blast\<close>)+

section \<open>What the proxy sees\<close>

lemma map_result_inverse:
  assumes "\<And>x. \<exists>y. f x = Inr y \<and> g y = Inr x"
  shows "\<exists>ys. map_result f xs = Inr ys \<and> map_result g ys = Inr xs"
proof (induction xs)
  case (Cons x xs)
  then obtain ys where "map_result f xs = Inr ys" "map_result g ys = Inr xs" by blast
  moreover obtain y where "f x = Inr y" "g y = Inr x" using assms by blast
  ultimately show ?case by (intro exI [of _ "y # ys"]) simp
qed simp

text \<open>The fields of a response that the proxy acts on.\<close>

definition same_for_proxy :: "auth_response \<Rightarrow> auth_response \<Rightarrow> bool" where
  "same_for_proxy a b \<longleftrightarrow> ar_username a = ar_username b \<and> ar_session a = ar_session b \<and> certs_of a = certs_of b
     \<and> ar_host_signers a = ar_host_signers b \<and> client_options_of a = client_options_of b
     \<and> auth_request_from_proto (ar_req a) = auth_request_from_proto (ar_req b)"

lemma finish_callback_same:
  assumes "same_for_proxy a b"
  shows "finish_callback U W r a = finish_callback U W r b"
proof -
  from assms have e: "console_response W a = console_response W b" "ar_username a = ar_username b" "ar_session a = ar_session b"
    "create_web_session (ar_req a) = create_web_session (ar_req b)" "csrf_token (ar_req a) = csrf_token (ar_req b)"
    "client_redirect_url (ar_req a) = client_redirect_url (ar_req b)" "ssh_public_key (ar_req a) = ssh_public_key (ar_req b)"
    "tls_public_key (ar_req a) = tls_public_key (ar_req b)"
    by (simp_all add: same_for_proxy_def console_response_def auth_request_from_proto_def)
  show ?thesis unfolding finish_callback_def construct_ssh_response_def e ..
qed

lemma response_roundtrip:
  assumes "wire_faithful V"
  shows "\<exists>raw resp'. encode_response V resp = Inr raw \<and> decode_response V raw = Inr resp' \<and> same_for_proxy resp' resp"
proof -
  obtain cas where cas: "map_result (wi_marshal_ca V) (ar_host_signers resp) = Inr cas"
    "map_result (wi_unmarshal_ca V) cas = Inr (ar_host_signers resp)"
    using map_result_inverse [OF wire_faithfulD(2) [OF assms]] by blast
  obtain t where t: "(case ar_session resp of None \<Rightarrow> Inr [] | Some s \<Rightarrow> wi_marshal_session V s) = Inr t"
    "(if t = [] then Inr None else map_sum id Some (wi_unmarshal_session V t)) = Inr (ar_session resp)"
  proof (cases "ar_session resp")
    case (Some s)
    moreover obtain t where "wi_marshal_session V s = Inr t" "t \<noteq> []" "wi_unmarshal_session V t = Inr s"
      using wire_faithfulD(1) [OF assms] by blast
    ultimately show ?thesis using that by simp
  qed (use that in simp)
  define raw where "raw = \<lparr>rr_username = ar_username resp, rr_identity = ar_identity resp, rr_session = t,
      rr_cert = fst (certs_of resp), rr_tls_cert = snd (certs_of resp), rr_req = auth_request_from_proto (ar_req resp),
      rr_host_signers = cas, rr_client_options = client_options_of resp\<rparr>"
  define resp' where "resp' = \<lparr>ar_username = ar_username resp, ar_identity = ar_identity resp,
      ar_req = request_of_wire (auth_request_from_proto (ar_req resp)), ar_session = ar_session resp,
      ar_certs = (if certs_of resp = ([], []) then None else Some (certs_of resp)), ar_host_signers = ar_host_signers resp,
      ar_client_options = (if client_options_of resp = [] then None else Some (client_options_of resp))\<rparr>"
  have "encode_response V resp = Inr raw" by (simp add: encode_response_def t cas raw_def)
  moreover have "decode_response V raw = Inr resp'"
    using t(2) cas(2)
    by (cases "t = []"; cases "wi_unmarshal_session V t") (simp_all add: decode_response_def raw_def resp'_def prod_eq_iff)
  moreover have "certs_of resp' = certs_of resp" "client_options_of resp' = client_options_of resp"
  proof -
    have "ar_certs resp' = (if certs_of resp = ([], []) then None else Some (certs_of resp))"
      "ar_client_options resp' = (if client_options_of resp = [] then None else Some (client_options_of resp))" by (simp_all add: resp'_def)
    then show "certs_of resp' = certs_of resp" "client_options_of resp' = client_options_of resp"
      by (simp_all add: certs_of_def [of resp'] client_options_of_def [of resp'])
  qed
  then have "same_for_proxy resp' resp"
    by (simp add: same_for_proxy_def) (simp add: resp'_def auth_request_from_proto_def request_of_wire_def)
  ultimately show ?thesis by blast
qed

lemma validate_same_query:
  assumes "q_get q' = q_get q"
  shows "validate_oidc_auth_callback E q' w = validate_oidc_auth_callback E q w"
  unfolding validate_oidc_auth_callback_def validate_callback_def callback_steps_def begin_callback_def assms ..

lemma roles_validate_for_proxy:
  assumes "sv_oidc_service (rs_server A) \<noteq> None" and "has_builtin_role (rs_context A) role_proxy"
  shows "roles_validate_callback A E q w = validate_oidc_auth_callback E q w"
  using assms by (auto simp: roles_validate_callback_def oidc_operation_def delegate_def split: prod.split sum.split)


text \<open>A session that cannot be written is lost to the browser although it was issued.\<close>

lemma unwritable_session_fails:
  assumes "wi_marshal_session V s = Inl e" and "ar_session resp = Some s"
  shows "encode_response V resp = Inl e"
  using assms by (simp add: encode_response_def)

section \<open>A concrete wire\<close>

text \<open>Bodies that keep what was written; a session is marked so that it is never written as nothing.\<close>

definition sample_wire :: "(query + raw_response result) wire" where
  "sample_wire = \<lparr>wi_marshal_session = (\<lambda>s. Inr (CHR ''s'' # s)), wi_unmarshal_session = (\<lambda>t. Inr (tl t)),
     wi_marshal_ca = Inr, wi_unmarshal_ca = Inr, wi_encode_query = Inl,
     wi_read_query = (\<lambda>b. case b of Inl q \<Rightarrow> Inr q | Inr _ \<Rightarrow> Inl (Err BadParameter ''invalid request'')),
     wi_encode_response = Inr,
     wi_read_response = (\<lambda>b. case b of Inr (Inr raw) \<Rightarrow> Inr raw | Inr (Inl e) \<Rightarrow> Inl e
        | Inl _ \<Rightarrow> Inl (Err OtherError ''json''))\<rparr>"


end
