(* ===== verification/KubeMatch.thy ===== *)
theory KubeMatch
  imports Replace
begin

text \<open>
  Matching of Kubernetes resources against the rules of a role, the second half of \<^verbatim>\<open>lib/utils/replace.go\<close>:
  which rules grant or deny a verb on a resource, which verbs are granted, and the early answer that a
  listing could have no match at all. A loop over the rules is \<open>first_some\<close> over the decision of one rule,
  where \<open>None\<close> means that the loop continues.
\<close>

record kube_resource =
  kr_kind :: string
  kr_namespace :: string
  kr_name :: string
  kr_verbs :: "string list"
  kr_api_group :: string

datatype role_condition = Allow | Deny

definition wildcard :: string where "wildcard = ''*''"

definition read_verbs :: "string list" where "read_verbs = [''get'', ''list'', ''watch'']"

definition is_verb_allowed :: "string list \<Rightarrow> string \<Rightarrow> bool" where
  "is_verb_allowed allowed verb \<longleftrightarrow> length allowed \<noteq> 0 \<and> (wildcard \<in> set allowed \<or> verb \<in> set allowed)"

text \<open>The two ways the loops use a match: go on to the next check, or return on a match.\<close>

definition require :: "bool result \<Rightarrow> bool result option \<Rightarrow> bool result option" where
  "require m k = (case m of Inl e \<Rightarrow> Some (Inl e) | Inr ok \<Rightarrow> if ok then k else None)"

definition return_match :: "bool result \<Rightarrow> bool result option" where
  "return_match m = (case m of Inl e \<Rightarrow> Some (Inl e) | Inr ok \<Rightarrow> if ok then Some (Inr True) else None)"

definition run_rules :: "(kube_resource \<Rightarrow> bool result option) \<Rightarrow> kube_resource list \<Rightarrow> bool result" where
  "run_rules decide rules = (case first_some decide rules of None \<Rightarrow> Inr False | Some r \<Rightarrow> r)"

definition kind_matches :: "kube_resource \<Rightarrow> kube_resource \<Rightarrow> bool" where
  "kind_matches input rule \<longleftrightarrow> kr_kind input = kr_kind rule \<or> kr_kind rule = wildcard"

definition targets_read_only_namespace :: "kube_resource \<Rightarrow> string \<Rightarrow> bool" where
  "targets_read_only_namespace input verb \<longleftrightarrow> kr_kind input = ''namespaces'' \<and> verb \<in> set read_verbs"

section \<open>The verbs of a resource\<close>

fun collect_verbs :: "golib \<Rightarrow> kube_resource \<Rightarrow> bool \<Rightarrow> string list \<Rightarrow> kube_resource list \<Rightarrow> (bool \<times> string list) result" where
  "collect_verbs U input matched verbs [] = Inr (matched, verbs)"
| "collect_verbs U input matched verbs (rule # rules) =
     (if \<not> kind_matches input rule then collect_verbs U input matched verbs rules
      else case match_string U (kr_api_group input) (kr_api_group rule) of
          Inl e \<Rightarrow> Inl e
        | Inr False \<Rightarrow> collect_verbs U input matched verbs rules
        | Inr True \<Rightarrow>
            (case match_string U (kr_name input) (kr_name rule) of
               Inl e \<Rightarrow> Inl e
             | Inr False \<Rightarrow> collect_verbs U input matched verbs rules
             | Inr True \<Rightarrow>
                 (case match_string U (kr_namespace input) (kr_namespace rule) of
                    Inl e \<Rightarrow> Inl e
                  | Inr False \<Rightarrow> collect_verbs U input matched verbs rules
                  | Inr True \<Rightarrow>
                      if wildcard \<in> set (kr_verbs rule) then Inr (True, [wildcard])
                      else collect_verbs U input True (fold List.insert (kr_verbs rule) verbs) rules)))"

definition kube_resource_matches_regex_with_verbs ::
  "golib \<Rightarrow> kube_resource \<Rightarrow> kube_resource list \<Rightarrow> (bool \<times> string list) result" where
  "kube_resource_matches_regex_with_verbs U input rules = collect_verbs U input False [] rules"

section \<open>Whether a rule matches\<close>

definition namespace_target :: "kube_resource \<Rightarrow> string" where
  "namespace_target rule =
     (if kr_kind rule = ''namespaces'' then kr_name rule
      else if kr_kind rule = wildcard \<and> (kr_namespace rule = [] \<or> kr_namespace rule = wildcard) then kr_name rule
      else kr_namespace rule)"

definition match_rule :: "golib \<Rightarrow> kube_resource \<Rightarrow> string \<Rightarrow> role_condition \<Rightarrow> kube_resource \<Rightarrow> bool result option" where
  "match_rule U input verb cond rule =
     (if \<not> is_verb_allowed (kr_verbs rule) verb then None
      else if targets_read_only_namespace input verb \<and> cond = Allow \<and> kr_kind rule \<noteq> ''namespaces'' \<and> kr_namespace rule \<noteq> []
      then return_match (match_string U (kr_name input) (kr_namespace rule))
      else if targets_read_only_namespace input verb \<and> cond = Allow \<and> kr_kind rule = ''namespaces'' \<and> kr_name rule \<noteq> []
      then return_match (match_string U (kr_name input) (kr_name rule))
      else if kr_kind input = ''namespaces'' then
        (if \<not> kind_matches input rule then None
         else require (match_string U (kr_api_group input) (kr_api_group rule))
           (return_match (match_string U (kr_name input) (namespace_target rule))))
      else if \<not> kind_matches input rule then None
      else require (match_string U (kr_api_group input) (kr_api_group rule))
        (require (match_string U (kr_name input) (kr_name rule))
          (if kr_namespace input = [] \<and> kr_namespace rule \<noteq> [] \<and> kr_namespace rule \<noteq> wildcard then None
           else return_match (match_string U (kr_namespace input) (kr_namespace rule)))))"

definition kube_resource_matches_regex ::
  "golib \<Rightarrow> kube_resource \<Rightarrow> kube_resource list \<Rightarrow> role_condition \<Rightarrow> bool result" where
  "kube_resource_matches_regex U input rules cond =
     (case kr_verbs input of
        [verb] \<Rightarrow> run_rules (match_rule U input verb cond) rules
      | _ \<Rightarrow> Inl (Err BadParameter ''only one verb is supported''))"

section \<open>Whether any rule could match\<close>

definition could_match_rule ::
  "golib \<Rightarrow> kube_resource \<Rightarrow> string \<Rightarrow> bool \<Rightarrow> role_condition \<Rightarrow> kube_resource \<Rightarrow> bool result option" where
  "could_match_rule U input verb cluster_wide cond rule =
     (let deny = (cond = Deny) in
      if \<not> is_verb_allowed (kr_verbs rule) verb then None
      else if targets_read_only_namespace input verb \<and> deny then
        (if kr_kind rule \<noteq> ''namespaces'' then None else return_match (match_string U (kr_name input) (kr_name rule)))
      else if targets_read_only_namespace input verb \<and> \<not> deny \<and> kr_kind rule \<noteq> ''namespaces'' \<and> kr_namespace rule \<noteq> []
      then Some (Inr True)
      else if \<not> kind_matches input rule then None
      else require (match_string U (kr_api_group input) (kr_api_group rule))
        (if cluster_wide \<and> deny \<and> kr_name rule = wildcard then Some (Inr True)
         else if cluster_wide then Some (Inr (\<not> deny))
         else if deny \<and> kr_namespace rule = [] then Some (Inr False)
         else let allow_or_full_deny = (\<not> deny \<or> deny \<and> kr_name rule = wildcard \<and> kr_namespace rule = wildcard) in
           if kr_namespace input = [] \<and> allow_or_full_deny then Some (Inr allow_or_full_deny)
           else require (match_string U (kr_namespace input) (kr_namespace rule))
             (if \<not> deny \<or> deny \<and> kr_name rule = wildcard then Some (Inr True) else None)))"

definition kube_resource_could_match_rules ::
  "golib \<Rightarrow> kube_resource \<Rightarrow> bool \<Rightarrow> kube_resource list \<Rightarrow> role_condition \<Rightarrow> bool result" where
  "kube_resource_could_match_rules U input cluster_wide rules cond =
     (case kr_verbs input of
        [verb] \<Rightarrow>
          if kr_name input \<noteq> [] then Inl (Err BadParameter ''name is not supported for KubeResourceCouldMatchRules'')
          else run_rules (could_match_rule U input verb cluster_wide cond) rules
      | _ \<Rightarrow> Inl (Err BadParameter ''only one verb is supported''))"

section \<open>Rules that compile\<close>

definition compiles :: "golib \<Rightarrow> string \<Rightarrow> bool" where
  "compiles U e \<longleftrightarrow> \<not> is_err (compile_expression U False e)"

definition rule_compiles :: "golib \<Rightarrow> kube_resource \<Rightarrow> bool" where
  "rule_compiles U r \<longleftrightarrow> compiles U (kr_api_group r) \<and> compiles U (kr_name r) \<and> compiles U (kr_namespace r)"

definition matched :: "golib \<Rightarrow> string \<Rightarrow> string \<Rightarrow> bool" where
  "matched U s e \<longleftrightarrow> match_string U s e = Inr True"

lemma compiles_match: "compiles U e \<Longrightarrow> match_string U s e = Inr (matched U s e)"
  by (auto simp: compiles_def matched_def match_string_def is_err_def split: sum.splits)

lemma require_simp [simp]: "require (Inr b) k = (if b then k else None)"
  by (simp add: require_def)

lemma return_match_simp [simp]: "return_match (Inr b) = (if b then Some (Inr True) else None)"
  by (simp add: return_match_def)

text \<open>A loop whose rules can only return true finds whether one does.\<close>

lemma run_rules_any:
  assumes "\<And>r. r \<in> set rules \<Longrightarrow> decide r = (if holds r then Some (Inr True) else None)"
  shows "run_rules decide rules = Inr (\<exists>r \<in> set rules. holds r)"
  using assms by (induction rules) (auto simp: run_rules_def split: option.split_asm if_split_asm)

text \<open>Everything but the verb matches, for a resource inside a namespace.\<close>

definition covers :: "golib \<Rightarrow> kube_resource \<Rightarrow> kube_resource \<Rightarrow> bool" where
  "covers U input r \<longleftrightarrow> kind_matches input r \<and> matched U (kr_api_group input) (kr_api_group r)
     \<and> matched U (kr_name input) (kr_name r) \<and> matched U (kr_namespace input) (kr_namespace r)"

lemma matches_namespaced:
  assumes "list_all (rule_compiles U) rules" and "kr_verbs input = [verb]"
    and "kr_kind input \<noteq> ''namespaces''" and "kr_namespace input \<noteq> []"
  shows "kube_resource_matches_regex U input rules cond =
    Inr (\<exists>r \<in> set rules. is_verb_allowed (kr_verbs r) verb \<and> covers U input r)"
proof -
  have "match_rule U input verb cond r = (if is_verb_allowed (kr_verbs r) verb \<and> covers U input r then Some (Inr True) else None)"
    if "r \<in> set rules" for r
    using that assms by (simp add: match_rule_def targets_read_only_namespace_def covers_def list_all_iff rule_compiles_def compiles_match)
  then have "run_rules (match_rule U input verb cond) rules = Inr (\<exists>r \<in> set rules. is_verb_allowed (kr_verbs r) verb \<and> covers U input r)"
    by (rule run_rules_any)
  then show ?thesis by (simp add: kube_resource_matches_regex_def assms(2))
qed

lemma verb_allowed_cases: "is_verb_allowed vs v \<longleftrightarrow> v \<in> set vs \<or> wildcard \<in> set vs"
  by (auto simp: is_verb_allowed_def)

lemma collect_verbs_all:
  assumes "list_all (rule_compiles U) rules"
  shows "\<exists>m vs. collect_verbs U input m0 vs0 rules = Inr (m, vs) \<and> (m \<longleftrightarrow> m0 \<or> list_ex (covers U input) rules)
    \<and> (\<forall>verb. verb \<in> set vs \<or> wildcard \<in> set vs \<longleftrightarrow> verb \<in> set vs0 \<or> wildcard \<in> set vs0
          \<or> (\<exists>r \<in> set rules. covers U input r \<and> is_verb_allowed (kr_verbs r) verb))"
  using assms
proof (induction rules arbitrary: m0 vs0)
  case (Cons r rules)
  then have c: "compiles U (kr_api_group r)" "compiles U (kr_name r)" "compiles U (kr_namespace r)"
    and rs: "list_all (rule_compiles U) rules" by (simp_all add: rule_compiles_def [of U r])
  have step: "collect_verbs U input m0 vs0 (r # rules) =
      (if covers U input r then
         (if wildcard \<in> set (kr_verbs r) then Inr (True, [wildcard])
          else collect_verbs U input True (fold List.insert (kr_verbs r) vs0) rules)
       else collect_verbs U input m0 vs0 rules)"
    by (simp add: compiles_match c covers_def split: bool.split)
  have ins: "set (fold List.insert xs ys) = set xs \<union> set ys" for xs ys :: "string list"
    by (induction xs arbitrary: ys) auto
  consider "\<not> covers U input r" | "covers U input r" "wildcard \<in> set (kr_verbs r)" | "covers U input r" "wildcard \<notin> set (kr_verbs r)" by blast
  then show ?case
  proof cases
    case 1
    with Cons.IH [OF rs, of m0 vs0] step show ?thesis by auto
  next
    case 2
    with step show ?thesis by (auto simp: verb_allowed_cases)
  next
    case 3
    with Cons.IH [OF rs, of True "fold List.insert (kr_verbs r) vs0"] step show ?thesis by (auto simp: verb_allowed_cases ins)
  qed
qed simp

text \<open>
  The two matchers agree. For a resource inside a namespace and rules that compile, the verbs that
  \<^verbatim>\<open>KubeResourceMatchesRegexWithVerbsCollector\<close> collects are exactly the verbs for which
  \<^verbatim>\<open>KubeResourceMatchesRegex\<close> finds a match, a collected wildcard standing for every verb. Neither fails,
  and the order of the rules does not matter.
\<close>

theorem kube_verbs_agree:
  assumes "list_all (rule_compiles U) rules" and "kr_kind input \<noteq> ''namespaces''" and "kr_namespace input \<noteq> []"
  shows "\<exists>m vs. kube_resource_matches_regex_with_verbs U input rules = Inr (m, vs)
    \<and> (m \<longleftrightarrow> list_ex (covers U input) rules)
    \<and> (\<forall>verb cond. kube_resource_matches_regex U (input\<lparr>kr_verbs := [verb]\<rparr>) rules cond = Inr (verb \<in> set vs \<or> wildcard \<in> set vs))"
proof -
  from collect_verbs_all [OF assms(1), of input False "[]"] obtain m vs
    where c: "kube_resource_matches_regex_with_verbs U input rules = Inr (m, vs)" "m \<longleftrightarrow> list_ex (covers U input) rules"
      and v: "\<And>verb. verb \<in> set vs \<or> wildcard \<in> set vs \<longleftrightarrow> (\<exists>r \<in> set rules. covers U input r \<and> is_verb_allowed (kr_verbs r) verb)"
    by (auto simp: kube_resource_matches_regex_with_verbs_def)
  have same: "covers U (input\<lparr>kr_verbs := [verb]\<rparr>) r = covers U input r" for verb r by (simp add: covers_def kind_matches_def)
  have "kube_resource_matches_regex U (input\<lparr>kr_verbs := [verb]\<rparr>) rules cond = Inr (verb \<in> set vs \<or> wildcard \<in> set vs)" for verb cond
    using matches_namespaced [of U rules "input\<lparr>kr_verbs := [verb]\<rparr>" verb cond] assms by (simp add: same v) blast
  with c show ?thesis by blast
qed

section \<open>A listing that could match\<close>

definition could_allow :: "golib \<Rightarrow> kube_resource \<Rightarrow> string \<Rightarrow> bool \<Rightarrow> kube_resource \<Rightarrow> bool" where
  "could_allow U input verb cluster_wide r \<longleftrightarrow> is_verb_allowed (kr_verbs r) verb
     \<and> (targets_read_only_namespace input verb \<and> kr_kind r \<noteq> ''namespaces'' \<and> kr_namespace r \<noteq> []
        \<or> kind_matches input r \<and> matched U (kr_api_group input) (kr_api_group r)
          \<and> (cluster_wide \<or> kr_namespace input = [] \<or> matched U (kr_namespace input) (kr_namespace r)))"

lemma could_match_allow:
  assumes "rule_compiles U r"
  shows "could_match_rule U input verb cluster_wide Allow r = (if could_allow U input verb cluster_wide r then Some (Inr True) else None)"
  using assms by (simp add: could_match_rule_def could_allow_def rule_compiles_def compiles_match)

lemma match_allow_could:
  assumes "rule_compiles U r" and "match_rule U (input\<lparr>kr_name := n\<rparr>) verb Allow r = Some (Inr True)"
    and "kr_kind input = ''namespaces'' \<Longrightarrow> kr_kind r = ''namespaces'' \<Longrightarrow> matched U (kr_api_group input) (kr_api_group r)"
    and "kr_kind input = ''namespaces'' \<Longrightarrow> cluster_wide \<or> kr_namespace input = []"
  shows "could_allow U input verb cluster_wide r"
  using assms
  by (auto simp: match_rule_def could_allow_def targets_read_only_namespace_def kind_matches_def rule_compiles_def
      compiles_match split: if_split_asm)

text \<open>
  A listing is refused early only when nothing in it is granted. For rules that compile, whenever
  \<^verbatim>\<open>KubeResourceMatchesRegex\<close> grants a verb on some name, \<^verbatim>\<open>KubeResourceCouldMatchRules\<close> lets the
  request for the unnamed resource pass. For namespaces this needs that the request is for the whole
  cluster and that the rules for namespaces carry its API group.
\<close>

theorem kube_early_refusal_sound:
  assumes "list_all (rule_compiles U) rules" and "kr_verbs input = [verb]" and "kr_name input = []"
    and "kr_kind input \<noteq> ''namespaces''
      \<or> (cluster_wide \<or> kr_namespace input = [])
        \<and> list_all (\<lambda>r. kr_kind r = ''namespaces'' \<longrightarrow> matched U (kr_api_group input) (kr_api_group r)) rules"
    and "kube_resource_matches_regex U (input\<lparr>kr_name := n\<rparr>) rules Allow = Inr True"
  shows "kube_resource_could_match_rules U input cluster_wide rules Allow = Inr True"
proof -
  have "run_rules (match_rule U (input\<lparr>kr_name := n\<rparr>) verb Allow) rules = Inr True"
    using assms(2,5) by (simp add: kube_resource_matches_regex_def)
  then obtain r where r: "r \<in> set rules" "match_rule U (input\<lparr>kr_name := n\<rparr>) verb Allow r = Some (Inr True)"
    by (auto simp: run_rules_def dest: first_some_Some split: option.split_asm)
  then have "could_allow U input verb cluster_wide r"
    using assms(1,4) by (intro match_allow_could [OF _ r(2)]) (auto simp: list_all_iff)
  moreover have "run_rules (could_match_rule U input verb cluster_wide Allow) rules = Inr (\<exists>r \<in> set rules. could_allow U input verb cluster_wide r)"
    using assms(1) by (intro run_rules_any could_match_allow) (simp add: list_all_iff)
  ultimately show ?thesis using r(1) assms(2,3) by (auto simp: kube_resource_could_match_rules_def)
qed

section \<open>Concrete rules\<close>

lemma ascii_valid: "is_ascii s \<Longrightarrow> valid_utf8 s"
  by (auto simp: valid_utf8_def decode_ascii list_all_iff rune_error_def is_ascii_def)

lemma ascii_compiles: "is_ascii e \<Longrightarrow> \<not> is_regexp e \<Longrightarrow> compiles U e"
  by (simp add: compiles_def compile_expression_def ascii_valid)

lemma ascii_literal: "is_ascii e \<Longrightarrow> is_ascii s \<Longrightarrow> \<not> is_regexp e \<Longrightarrow> CHR ''*'' \<notin> set e \<Longrightarrow> match_string U s e = Inr (s = e)"
  by (simp add: match_string_literal ascii_valid)

lemmas evaluate_rules = is_ascii_def is_regexp_def starts_with_def ascii_literal run_rules_def match_rule_def could_match_rule_def
  kube_resource_matches_regex_def kube_resource_could_match_rules_def is_verb_allowed_def targets_read_only_namespace_def
  kind_matches_def wildcard_def read_verbs_def

definition pods_rule :: kube_resource where
  "pods_rule = \<lparr>kr_kind = ''pods'', kr_namespace = ''prod'', kr_name = ''web'', kr_verbs = [''get'', ''list''], kr_api_group = []\<rparr>"

definition pod_request :: kube_resource where
  "pod_request = \<lparr>kr_kind = ''pods'', kr_namespace = ''prod'', kr_name = ''web'', kr_verbs = [], kr_api_group = []\<rparr>"

lemma pods_rule_compiles: "list_all (rule_compiles U) [pods_rule]"
  by (simp add: rule_compiles_def pods_rule_def ascii_compiles is_ascii_def is_regexp_def starts_with_def)

theorem kube_verbs_agree_witness:
  "\<exists>m vs. kube_resource_matches_regex_with_verbs ascii_tables pod_request [pods_rule] = Inr (m, vs) \<and> ''get'' \<in> set vs
     \<and> kube_resource_matches_regex ascii_tables (pod_request\<lparr>kr_verbs := [''get'']\<rparr>) [pods_rule] Allow = Inr True"
proof -
  have "kr_kind pod_request \<noteq> ''namespaces''" "kr_namespace pod_request \<noteq> []" by (simp_all add: pod_request_def)
  from kube_verbs_agree [OF pods_rule_compiles this] obtain m vs
    where "kube_resource_matches_regex_with_verbs ascii_tables pod_request [pods_rule] = Inr (m, vs)"
      "kube_resource_matches_regex ascii_tables (pod_request\<lparr>kr_verbs := [''get'']\<rparr>) [pods_rule] Allow = Inr (''get'' \<in> set vs \<or> wildcard \<in> set vs)"
    by blast
  moreover have "kube_resource_matches_regex_with_verbs ascii_tables pod_request [pods_rule] = Inr (True, [''list'', ''get''])"
    by (simp add: kube_resource_matches_regex_with_verbs_def pod_request_def pods_rule_def evaluate_rules)
  ultimately show ?thesis by auto
qed

theorem kube_early_refusal_sound_witness:
  "kube_resource_could_match_rules ascii_tables (pod_request\<lparr>kr_name := [], kr_verbs := [''list'']\<rparr>) False [pods_rule] Allow = Inr True"
proof -
  let ?r = "pod_request\<lparr>kr_name := [], kr_verbs := [''list'']\<rparr>"
  have m: "kube_resource_matches_regex ascii_tables (?r\<lparr>kr_name := ''web''\<rparr>) [pods_rule] Allow = Inr True"
    by (simp add: pod_request_def pods_rule_def evaluate_rules)
  show ?thesis by (rule kube_early_refusal_sound [OF pods_rule_compiles _ _ _ m, of "''list''"]) (simp_all add: pod_request_def)
qed

text \<open>
  The condition on the API group is needed. A rule for namespaces with another group grants the reading of a
  namespace, since that case does not look at the group, while the early check refuses the listing.
\<close>

definition namespaces_rule :: kube_resource where
  "namespaces_rule = \<lparr>kr_kind = ''namespaces'', kr_namespace = [], kr_name = ''prod'', kr_verbs = [''get''], kr_api_group = ''apps''\<rparr>"

definition namespaces_request :: kube_resource where
  "namespaces_request = \<lparr>kr_kind = ''namespaces'', kr_namespace = [], kr_name = [], kr_verbs = [''get''], kr_api_group = []\<rparr>"

lemma early_refusal_of_granted_namespace:
  "kube_resource_matches_regex ascii_tables (namespaces_request\<lparr>kr_name := ''prod''\<rparr>) [namespaces_rule] Allow = Inr True
   \<and> kube_resource_could_match_rules ascii_tables namespaces_request True [namespaces_rule] Allow = Inr False"
  by (simp add: namespaces_request_def namespaces_rule_def evaluate_rules)

end
