(* ===== verification/Spec2Isabelle.thy ===== *)
theory Spec2Isabelle
  imports ClusterRun Fanout ConsoleClient AuthWire KubeMatch
begin

text \<open>
  Verification of the Google Workspace OIDC login of this Teleport fork.

  \<^bold>\<open>The program.\<close> The repository is a fork of Teleport in Go. What the fork adds is one feature, a login with
  Google Workspace accounts, in \<^verbatim>\<open>src/lib/googleoidc\<close>; the rest is the upstream product. An administrator stores an
  OIDC connector through the Auth Service, which checks it against the policy of the fork and keeps it in the
  cluster backend. A browser or a \<^verbatim>\<open>tsh\<close> client asks the proxy for a login; the proxy asks the Auth Service for an
  auth request, which stores the request and a nonce and answers with Google's authorization URL. Google
  sends the browser back to the proxy's callback; the proxy hands the query to the Auth Service, which claims the
  state once, exchanges the code, validates the ID token, checks the identity, looks up the groups at Cloud
  Identity, maps claims to roles, creates or updates the user and issues a web session or certificates. The proxy
  then sets the session cookie or seals the answer for the client, whose local server opens it.

  \<^bold>\<open>How Go is modelled.\<close> A Go string is a byte string, modelled by \<^typ>\<open>string\<close>; code that decodes UTF-8 goes through
  the decoder of GoText. An \<^verbatim>\<open>error\<close> is a value of \<^verbatim>\<open>err\<close>, its kind that of \<^verbatim>\<open>gravitational/trace\<close> and a text; a pair
  of result and error is \<^verbatim>\<open>'a result\<close>, that is \<^verbatim>\<open>err + 'a\<close>. Structs are records, state is passed and returned,
  a nil pointer is \<^const>\<open>None\<close>. A Go map that is shared by reference (the entitlements in Activation) is an address of a
  heap; the aliasing of \<^verbatim>\<open>WithoutSecrets\<close> is modelled in Connector. Times are nanoseconds as integers; no
  arithmetic on them comes near the 64-bit bounds, which the durations of the code are constants for. Where
  the code mutates a receiver that nobody else holds, the updated record is returned.

  \<^bold>\<open>The theories\<close>, each with the files under \<^verbatim>\<open>src/\<close> that it models:

  \<^item> \<^emph>\<open>Prelude\<close>, \<^emph>\<open>GoText\<close>, \<^emph>\<open>GoURL\<close>: errors, time, and what the code uses of the Go packages strings, utf8, unicode,
    net/url and net. The Unicode case tables are the parameter \<^verbatim>\<open>golib\<close>.
  \<^item> \<^emph>\<open>Connector\<close> (\<^verbatim>\<open>api/types/oidc.go\<close>): the connector, the auth request, their checks and defaults.
  \<^item> \<^emph>\<open>Policy\<close> (\<^verbatim>\<open>lib/googleoidc/policy\<close>): the grammar of claim values, domains, identity checks, group settings and
    \<^verbatim>\<open>ValidateConnector\<close>. Its theorem says what an accepted connector looks like.
  \<^item> \<^emph>\<open>MinHeap\<close>, \<^emph>\<open>Backend\<close>, \<^emph>\<open>BackendRange\<close> (\<^verbatim>\<open>lib/backend\<close>, \<^verbatim>\<open>lib/backend/memory\<close>): keys, the ordered tree, the expiry heap, all
    single-item operations with their events, range deletes and paged iteration. The locales \<^verbatim>\<open>kv_backend\<close> and its
    extension \<^verbatim>\<open>crud_backend\<close> state what the clients rely on; they are interpreted on the memory backend. The
    theorems: tree and heap agree in every reachable state; iteration refines the range query, is reliable
    beside other users, and ends.
  \<^item> \<^emph>\<open>AtomicWrite\<close>, \<^emph>\<open>Fanout\<close> (\<^verbatim>\<open>lib/backend/atomicwrite.go\<close>, \<^verbatim>\<open>lib/backend/memory/atomicwrite.go\<close>, \<^verbatim>\<open>lib/backend/buffer.go\<close>): batches of
    conditional writes, which are all or nothing; the event buffer with its watchers. The locale \<^verbatim>\<open>radix_tree\<close> states what the
    prefix tree of go-radix promises; it is interpreted on an association list. A registered watcher misses no event,
    and who applies its events to a copy of the items holds the items of the backend.
  \<^item> \<^emph>\<open>StateStore\<close> (\<^verbatim>\<open>lib/googleoidc/state.go\<close>, the auth requests of \<^verbatim>\<open>lib/services/local/users.go\<close>): nonces, markers and
    requests. The locale \<^verbatim>\<open>shared_backend\<close> adds other users of the backend; in it a claimed state is proved
    never to be usable again.
  \<^item> \<^emph>\<open>Replace\<close>, \<^emph>\<open>Traits\<close> (\<^verbatim>\<open>lib/utils/replace.go\<close>, \<^verbatim>\<open>lib/services/traits.go\<close>): matching expressions and the mapping of
    traits to roles, which is equal to a declarative one for globs and grants roles only for allow-listed
    domains under the policy.
  \<^item> \<^emph>\<open>KubeMatch\<close> (\<^verbatim>\<open>lib/utils/replace.go\<close>): rules for Kubernetes resources. The matcher and the collector of verbs agree,
    and a listing is refused early only when no name in it is granted, but for one case that is shown.
  \<^item> \<^emph>\<open>GroupLookup\<close> (\<^verbatim>\<open>lib/googleoidc/groups.go\<close>): the pinned and budgeted round tripper, the search, the four gates.
  \<^item> \<^emph>\<open>Transport\<close> (\<^verbatim>\<open>transport.go\<close>, \<^verbatim>\<open>service.go\<close>, \<^verbatim>\<open>lib/oidc\<close>): the endpoint allow-list over redirects, bounded bodies,
    discovery, and the caching validator as a state machine.
  \<^item> \<^emph>\<open>Redirect\<close> (\<^verbatim>\<open>lib/client/sso/redirector.go\<close>): \<^verbatim>\<open>ValidateClientRedirect\<close>.
  \<^item> \<^emph>\<open>Identity\<close>, \<^emph>\<open>Login\<close>, \<^emph>\<open>LoginSafety\<close> (\<^verbatim>\<open>request.go\<close>, \<^verbatim>\<open>callback.go\<close>, \<^verbatim>\<open>service.go\<close>, \<^verbatim>\<open>audit.go\<close>): claims, roles and users; the login
    runtime over the record \<^verbatim>\<open>world\<close> (backend, users, grants, audit log); and what a callback guarantees, by one
    inversion lemma per stage.
  \<^item> \<^emph>\<open>ConnectorStore\<close> (\<^verbatim>\<open>lib/auth/oidc.go\<close>, \<^verbatim>\<open>lib/services/oidc.go\<close>, \<^verbatim>\<open>lib/services/local/users.go\<close>): connectors at rest.
    The policy holds of every connector in a reachable store; writes are read back; stale updates are refused.
  \<^item> \<^emph>\<open>WebLogin\<close> (\<^verbatim>\<open>webhandlers.go\<close>, \<^verbatim>\<open>lib/web/apiserver.go\<close>, \<^verbatim>\<open>lib/httplib\<close>, \<^verbatim>\<open>lib/client/weblogin.go\<close>): the proxy's handlers, the
    CSRF check, the redirect after a login and the sealed answer to a console.
  \<^item> \<^emph>\<open>Secret\<close>, \<^emph>\<open>KeyPolicy\<close>, \<^emph>\<open>ConsoleClient\<close> (\<^verbatim>\<open>lib/secret\<close>, \<^verbatim>\<open>api/utils/keys/policy.go\<close>, \<^verbatim>\<open>lib/client/sso/redirector.go\<close>): the client
    that waits for the sealed answer: keys and authenticated encryption, the lattice of key policies, and the
    redirector as a state machine over its local requests, the waiting command and the closing. What
    the proxy seals is what the command returns, and the command returns nothing that was not sealed with its key.
  \<^item> \<^emph>\<open>AuthWire\<close> (\<^verbatim>\<open>plugin.go\<close>, \<^verbatim>\<open>lib/auth/authclient/http_client.go\<close>): the callback between the proxy and the Auth Service, in
    which the distance is shown to change nothing.
  \<^item> \<^emph>\<open>Activation\<close> (\<^verbatim>\<open>activate.go\<close>, \<^verbatim>\<open>modules.go\<close>, \<^verbatim>\<open>plugin.go\<close>, \<^verbatim>\<open>lib/plugin\<close>, \<^verbatim>\<open>lib/modules\<close>): the switch, the entitlement, the
    plugin and the start of the process, which is all or nothing.
  \<^item> \<^emph>\<open>AccessRules\<close>, \<^emph>\<open>RolesServer\<close> (\<^verbatim>\<open>lib/services/role.go\<close>, \<^verbatim>\<open>lib/services/access_checker.go\<close>, \<^verbatim>\<open>lib/auth/auth_with_roles.go\<close>,
    \<^verbatim>\<open>lib/authz/permissions.go\<close>): the access check over rules, and the guards of every OIDC request. The locale
    \<^verbatim>\<open>rule_sorter\<close> states what \<^verbatim>\<open>sort.Slice\<close> promises, which is not a stable order; it is interpreted on a stable sort.
  \<^item> \<^emph>\<open>ClusterRun\<close>: the composition. One backend holds connectors, requests, nonces and markers; the inductive relation
    \<^verbatim>\<open>cluster_run\<close> interleaves connector changes, started logins, callbacks and foreign writes in any order.

  The properties below span the composition: a login rests on a connector that an authorised caller has
  stored, and the login runtime sees exactly the store.

  \<^bold>\<open>Bounds and termination.\<close> The group search recurses over the ten pages that the code allows. \<^verbatim>\<open>http.Client.Do\<close> has fuel
  that counts its requests; ten are enough for every client of the fork, as the theorem on the restricted client
  states: \<^verbatim>\<open>Do\<close> returns, whatever the network answers. The paged iteration recurses on the remaining limit, which
  every further page decreases by its 1000 items. The loops of the expiry heap, of the expiry itself, of the UTF-8
  decoder and of template expansion are total functions with a measure; the other loops are over lists.

  \<^bold>\<open>Parameters.\<close> Code outside the repository is an argument: the answers of Google's endpoints, the generated Cloud
  Identity client, the token exchange and the token validator, JSON encodings, SHA-256, the session cookie's encoding,
  the cipher of the console answer, the predicate language of where clauses, the prefix tree go-radix, regular expressions in \<^verbatim>\<open>^...$\<close>,
  the random secrets. What a theorem needs of one is a named hypothesis (a codec that reads back what it wrote)
  with a concrete instance in the theorem's witness. So are parts of Teleport that
  the login calls and that are not modelled: login rules, role sets and the issuing of sessions and certificates.

  \<^bold>\<open>Not modelled.\<close> The other backends, and the caches that use watchers; the caches of compiled expressions; the bytes
  of JSON and HTTP messages; the link shortener of the client's local server and the browser it starts; log lines
  and metrics, apart from the audit events; and the rest of Teleport, which the login does not reach.
\<close>

section \<open>Logins and the connectors they use\<close>





end
